(* ===== verification/Prelude.thy ===== *)
theory Prelude
  imports Main "HOL-Library.Word"
begin

unbundle bit_operations_syntax

text \<open>
  Shared vocabulary of the development: the machine integers of the Rust sources, \<open>Result\<close> as a
  sum type, \<open>std::io::Error\<close>, \<open>Duration\<close>/\<open>Instant\<close> as nanosecond counts, saturating and
  checked arithmetic, and big-endian byte strings. The collections \<open>rust_simps\<close>, \<open>byte_simps\<close>
  and \<open>word_net_simps\<close> are what component proofs hand to the simplifier.
\<close>

named_theorems rust_simps \<open>unfolding rules of the modelled core library\<close>
named_theorems byte_simps \<open>big-endian encodings\<close>
named_theorems word_net_simps \<open>prefix arithmetic on address words\<close>

section \<open>Machine integers and results\<close>

type_synonym u8 = "8 word"
type_synonym u16 = "16 word"
type_synonym u32 = "32 word"
type_synonym u64 = "64 word"
type_synonym u128 = "128 word"
type_synonym usize = nat

text \<open>\<open>Result<T, E>\<close> is \<open>'e + 'a\<close>: \<open>Err\<close> on the left, \<open>Ok\<close> on the right.\<close>

abbreviation Ok :: "'a \<Rightarrow> 'e + 'a" where "Ok \<equiv> Inr"
abbreviation Err :: "'e \<Rightarrow> 'e + 'a" where "Err \<equiv> Inl"

definition ok_or :: "'e \<Rightarrow> 'a option \<Rightarrow> 'e + 'a" where
  [rust_simps]: "ok_or e o' = (case o' of None \<Rightarrow> Err e | Some a \<Rightarrow> Ok a)"

definition map_err :: "('e \<Rightarrow> 'f) \<Rightarrow> 'e + 'a \<Rightarrow> 'f + 'a" where
  [rust_simps]: "map_err f r = (case r of Inl e \<Rightarrow> Err (f e) | Inr a \<Rightarrow> Ok a)"

definition map_ok :: "('a \<Rightarrow> 'b) \<Rightarrow> 'e + 'a \<Rightarrow> 'e + 'b" where
  [rust_simps]: "map_ok f r = (case r of Inl e \<Rightarrow> Err e | Inr a \<Rightarrow> Ok (f a))"

text \<open>The \<open>?\<close> operator: continue with the value, return the error.\<close>

definition try_bind :: "'e + 'a \<Rightarrow> ('a \<Rightarrow> 'e + 'b) \<Rightarrow> 'e + 'b" where
  [rust_simps]: "try_bind r f = (case r of Inl e \<Rightarrow> Err e | Inr a \<Rightarrow> f a)"

definition is_ok :: "'e + 'a \<Rightarrow> bool" where
  "is_ok r = (case r of Inl _ \<Rightarrow> False | Inr _ \<Rightarrow> True)"

lemma is_ok_simps [simp]: "is_ok (Ok a)" "\<not> is_ok (Err e)"
  by (simp_all add: is_ok_def)

lemma try_bind_Ok_iff: "try_bind r f = Ok b \<longleftrightarrow> (\<exists>a. r = Ok a \<and> f a = Ok b)"
  by (cases r) (auto simp: try_bind_def)

lemma try_bind_simps [simp]: "try_bind (Ok a) f = f a" "try_bind (Err e) f = Err e"
  by (simp_all add: try_bind_def)

lemma map_err_simps [simp]: "map_err f (Ok a) = Ok a" "map_err f (Err e) = Err (f e)"
  by (simp_all add: map_err_def)

lemma map_ok_simps [simp]: "map_ok f (Ok a) = Ok (f a)" "map_ok f (Err e) = Err e"
  by (simp_all add: map_ok_def)

lemma map_ok_Ok_iff: "map_ok f r = Ok b \<longleftrightarrow> (\<exists>a. r = Ok a \<and> b = f a)"
  by (cases r) auto

lemma map_err_Ok_iff [simp]: "map_err f r = Ok a \<longleftrightarrow> r = Ok a"
  by (cases r) auto

lemma ok_or_simps [simp]: "ok_or e (Some a) = Ok a" "ok_or e None = Err e"
  by (simp_all add: ok_or_def)

lemma ok_or_Ok_iff [simp]: "ok_or e o' = Ok a \<longleftrightarrow> o' = Some a"
  by (cases o') auto

section \<open>I/O errors\<close>

text \<open>
  \<open>std::io::Error\<close>: a kind and a rendered message. The kinds the sources name are constructors;
  every other kind is \<open>OtherKind\<close> with an identifying number (\<open>io::ErrorKind\<close> is
  non-exhaustive).
\<close>

datatype io_error_kind =
    ConnectionRefusedKind
  | NetworkUnreachableKind
  | HostUnreachableKind
  | TimedOutKind
  | UnexpectedEofKind
  | WriteZeroKind
  | OtherKind nat

datatype io_error = IoError (error_kind: io_error_kind) (error_text: string)

section \<open>Time\<close>

text \<open>\<open>Duration\<close> and \<open>Instant\<close> count nanoseconds; an instant is measured from an arbitrary origin.\<close>

type_synonym duration = nat
type_synonym instant = nat

definition from_secs :: "nat \<Rightarrow> duration" where
  "from_secs s = s * 1000000000"

definition from_millis :: "nat \<Rightarrow> duration" where
  "from_millis ms = ms * 1000000"

definition as_millis_of :: "duration \<Rightarrow> nat" where
  "as_millis_of d = d div 1000000"

definition as_secs :: "duration \<Rightarrow> nat" where
  "as_secs d = d div 1000000000"

text \<open>\<open>Instant::saturating_duration_since\<close> and \<open>Duration::saturating_sub\<close> stop at zero, as
  subtraction on \<open>nat\<close> does.\<close>

definition saturating_duration_since :: "instant \<Rightarrow> instant \<Rightarrow> duration" where
  [rust_simps]: "saturating_duration_since now at = now - at"

text \<open>\<open>u64\<close> arithmetic that clamps at \<open>u64::MAX\<close>.\<close>

definition u64_max :: nat where
  "u64_max = 2 ^ 64 - 1"

definition u64_try_from_or_max :: "nat \<Rightarrow> nat" where
  "u64_try_from_or_max n = (if n \<le> u64_max then n else u64_max)"

definition u64_saturating_add :: "nat \<Rightarrow> nat \<Rightarrow> nat" where
  "u64_saturating_add a b = (if a + b \<le> u64_max then a + b else u64_max)"

lemma u64_saturating_add_le: "u64_saturating_add a b \<le> a + b"
  by (simp add: u64_saturating_add_def)

lemma u64_saturating_add_max: "u64_saturating_add a b \<le> u64_max"
  by (simp add: u64_saturating_add_def)

lemma u64_saturating_add_exact: "a + b \<le> u64_max \<Longrightarrow> u64_saturating_add a b = a + b"
  by (simp add: u64_saturating_add_def)

section \<open>Big-endian byte strings\<close>

text \<open>\<open>be_bytes n w\<close> is the low \<open>n\<close> bytes of \<open>w\<close>, most significant first
  (\<open>to_be_bytes\<close>, \<open>octets\<close>); \<open>be_word\<close> reads them back.\<close>

primrec be_bytes :: "nat \<Rightarrow> 'a::len word \<Rightarrow> u8 list" where
  "be_bytes 0 w = []"
| "be_bytes (Suc n) w = ucast (drop_bit (8 * n) w) # be_bytes n w"

definition be_word :: "u8 list \<Rightarrow> 'a::len word" where
  "be_word bs = foldl (\<lambda>acc b. push_bit 8 acc OR ucast b) 0 bs"

lemma length_be_bytes [simp]: "length (be_bytes n w) = n"
  by (induction n) auto

lemma be_bytes_2: "be_bytes 2 w = [ucast (drop_bit 8 w), ucast w]"
  by (simp add: numeral_2_eq_2)

lemma be_word_Nil [simp]: "be_word [] = 0"
  by (simp add: be_word_def)

lemma be_word_snoc: "be_word (bs @ [b]) = push_bit 8 (be_word bs) OR ucast b"
  by (simp add: be_word_def)

lemma be_bytes_snoc: "be_bytes (Suc n) w = be_bytes n (drop_bit 8 w) @ [ucast w]"
  by (induction n) (simp_all add: drop_bit_drop_bit add.commute)

lemma ucast_u8_ucast: "(ucast (ucast w :: u8) :: 'a::len word) = take_bit 8 w"
  if "8 \<le> LENGTH('a)" for w :: "'a::len word"
  using that by (intro bit_word_eqI) (auto simp: bit_simps)

lemma be_word_be_bytes:
  fixes w :: "'a::len word"
  assumes "8 * n \<le> LENGTH('a)"
  shows "be_word (be_bytes n w) = take_bit (8 * n) w"
  using assms
proof (induction n arbitrary: w)
  case 0
  then show ?case by simp
next
  case (Suc n)
  then have IH: "be_word (be_bytes n (drop_bit 8 w)) = take_bit (8 * n) (drop_bit 8 w)"
    by simp
  have len: "8 \<le> LENGTH('a)" using Suc.prems by simp
  have "be_word (be_bytes (Suc n) w) = push_bit 8 (take_bit (8 * n) (drop_bit 8 w)) OR take_bit 8 w"
    unfolding be_bytes_snoc be_word_snoc IH ucast_u8_ucast [OF len] ..
  also have "\<dots> = take_bit (8 * Suc n) w"
    by (rule bit_word_eqI) (auto simp: bit_simps)
  finally show ?case .
qed

lemma be_word_be_bytes_full [byte_simps]:
  fixes w :: "'a::len word"
  assumes "8 * n = LENGTH('a)"
  shows "be_word (be_bytes n w) = w"
  using be_word_be_bytes [of n w] assms by simp

lemma take_bit_be_word:
  assumes "8 * length bs \<le> LENGTH('a::len)"
  shows "take_bit (8 * length bs) (be_word bs :: 'a word) = be_word bs"
  using assms
proof (induction bs rule: rev_induct)
  case Nil
  then show ?case by simp
next
  case (snoc b bs)
  then have IH: "take_bit (8 * length bs) (be_word bs :: 'a word) = be_word bs" by simp
  have small: "bit (be_word bs :: 'a word) k \<Longrightarrow> k < 8 * length bs" for k
    by (subst (asm) IH [symmetric]) (simp add: bit_simps)
  show ?case
    by (intro bit_word_eqI) (auto simp: be_word_snoc bit_simps dest: small bit_imp_le_length)
qed

lemma be_bytes_be_word [byte_simps]:
  assumes "8 * length bs \<le> LENGTH('a::len)"
  shows "be_bytes (length bs) (be_word bs :: 'a word) = bs"
  using assms
proof (induction bs rule: rev_induct)
  case Nil
  then show ?case by simp
next
  case (snoc b bs)
  then have len: "8 * length bs + 8 \<le> LENGTH('a)" by simp
  let ?v = "be_word bs :: 'a word"
  have low: "take_bit (8 * length bs) ?v = ?v"
    using len by (intro take_bit_be_word) simp
  have small: "bit ?v k \<Longrightarrow> k < 8 * length bs" for k
    by (subst (asm) low [symmetric]) (simp add: bit_simps)
  have "drop_bit 8 (push_bit 8 ?v OR ucast b) = ?v"
    using len
    by (intro bit_word_eqI) (auto simp: bit_simps dest: bit_imp_le_length small)
  moreover have "ucast (push_bit 8 ?v OR ucast b) = b"
    using len by (intro bit_word_eqI) (auto simp: bit_simps)
  ultimately show ?case
    using snoc by (simp add: be_word_snoc be_bytes_snoc del: be_bytes.simps)
qed

lemma be_word_inject:
  assumes "length bs = length cs" and "8 * length bs \<le> LENGTH('a::len)"
  shows "(be_word bs :: 'a word) = be_word cs \<longleftrightarrow> bs = cs"
  using be_bytes_be_word [of bs, where 'a = 'a] be_bytes_be_word [of cs, where 'a = 'a] assms
  by metis

section \<open>Lists\<close>

lemma take_length_append [simp]: "take (length xs) (xs @ ys) = xs"
  by simp

lemma map_of_filter_key:
  assumes "distinct (map fst xs)"
  shows "map_of (filter P xs) k =
    (case map_of xs k of None \<Rightarrow> None | Some v \<Rightarrow> if P (k, v) then Some v else None)"
  using assms
proof (induction xs)
  case (Cons x xs)
  obtain a b where x: "x = (a, b)" by (cases x)
  with Cons.prems have "map_of xs a = None" by (simp add: map_of_eq_None_iff)
  with Cons x show ?case by (auto split: option.splits)
qed simp

lemma find_SomeD: "find P xs = Some x \<Longrightarrow> x \<in> set xs \<and> P x"
  by (induction xs) (auto split: if_splits)

lemma distinct_map_fst_filter: "distinct (map fst xs) \<Longrightarrow> distinct (map fst (filter P xs))"
  by (rule distinct_map_filter)

end
