(* ===== verification/Net_Addr.thy ===== *)
theory Net_Addr
  imports Prelude
begin

text \<open>
  \<open>std::net\<close> addresses as the sources use them. An \<open>Ipv4Addr\<close> is its \<open>u32\<close> value, an
  \<open>Ipv6Addr\<close> its \<open>u128\<close> value (both big-endian, as \<open>u32::from\<close> and \<open>u128::from\<close> give them).
  A \<open>SocketAddrV6\<close> also carries flow information and a scope id, which \<open>SocketAddr::new\<close> sets
  to zero and equality compares.
\<close>

datatype ip_addr = V4 u32 | V6 u128

datatype socket_addr =
    SockV4 u32 u16
  | SockV6 u128 u16 (flowinfo: u32) (scope_id: u32)

fun sock_ip :: "socket_addr \<Rightarrow> ip_addr" where
  "sock_ip (SockV4 a p) = V4 a"
| "sock_ip (SockV6 a p f s) = V6 a"

fun sock_port :: "socket_addr \<Rightarrow> u16" where
  "sock_port (SockV4 a p) = p"
| "sock_port (SockV6 a p f s) = p"

fun socket_addr_new :: "ip_addr \<Rightarrow> u16 \<Rightarrow> socket_addr" where
  "socket_addr_new (V4 a) p = SockV4 a p"
| "socket_addr_new (V6 a) p = SockV6 a p 0 0"

lemma sock_ip_new [simp]: "sock_ip (socket_addr_new ip p) = ip"
  by (cases ip) auto

lemma sock_port_new [simp]: "sock_port (socket_addr_new ip p) = p"
  by (cases ip) auto

lemma socket_addr_new_inject [simp]:
  "socket_addr_new ip p = socket_addr_new jp q \<longleftrightarrow> ip = jp \<and> p = q"
  by (cases ip; cases jp) auto

fun is_ipv4 :: "ip_addr \<Rightarrow> bool" where
  "is_ipv4 (V4 _) = True"
| "is_ipv4 (V6 _) = False"

abbreviation is_ipv6 :: "ip_addr \<Rightarrow> bool" where
  "is_ipv6 ip \<equiv> \<not> is_ipv4 ip"

section \<open>Octets and segments\<close>

definition v4_octets :: "u32 \<Rightarrow> u8 list" where
  "v4_octets ip = be_bytes 4 ip"

definition v6_octets :: "u128 \<Rightarrow> u8 list" where
  "v6_octets ip = be_bytes 16 ip"

definition v4_octet :: "nat \<Rightarrow> u32 \<Rightarrow> u8" where
  "v4_octet i ip = ucast (drop_bit (24 - 8 * i) ip)"

definition segment :: "nat \<Rightarrow> u128 \<Rightarrow> u16" where
  "segment i ip = ucast (drop_bit (112 - 16 * i) ip)"

definition v6_segments :: "u128 \<Rightarrow> u16 list" where
  "v6_segments ip = [segment 0 ip, segment 1 ip, segment 2 ip, segment 3 ip,
                     segment 4 ip, segment 5 ip, segment 6 ip, segment 7 ip]"

definition v4_new :: "u8 \<Rightarrow> u8 \<Rightarrow> u8 \<Rightarrow> u8 \<Rightarrow> u32" where
  "v4_new a b c d = be_word [a, b, c, d]"

lemma length_v4_octets [simp]: "length (v4_octets ip) = 4"
  by (simp add: v4_octets_def)

lemma length_v6_octets [simp]: "length (v6_octets ip) = 16"
  by (simp add: v6_octets_def)

lemma be_word_v4_octets [simp]: "be_word (v4_octets ip) = ip"
  by (simp add: v4_octets_def be_word_be_bytes_full)

lemma be_word_v6_octets [simp]: "be_word (v6_octets ip) = ip"
  by (simp add: v6_octets_def be_word_be_bytes_full)

lemma v4_octets_be_word: "length bs = 4 \<Longrightarrow> v4_octets (be_word bs) = bs"
  using be_bytes_be_word [of bs, where 'a = 32] by (simp add: v4_octets_def)

lemma v6_octets_be_word: "length bs = 16 \<Longrightarrow> v6_octets (be_word bs) = bs"
  using be_bytes_be_word [of bs, where 'a = 128] by (simp add: v6_octets_def)

lemma v4_octets_split:
  "v4_octets ip = [v4_octet 0 ip, v4_octet 1 ip, v4_octet 2 ip, v4_octet 3 ip]"
  by (simp add: v4_octets_def v4_octet_def eval_nat_numeral)

section \<open>Predicates of \<open>std::net\<close>\<close>

text \<open>\<open>Ipv6Addr::to_ipv4_mapped\<close>: \<open>::ffff:a.b.c.d\<close> gives \<open>a.b.c.d\<close>.\<close>

definition to_ipv4_mapped :: "u128 \<Rightarrow> u32 option" where
  "to_ipv4_mapped ip = (if drop_bit 32 ip = 0xFFFF then Some (ucast ip) else None)"

definition mapped_of_v4 :: "u32 \<Rightarrow> u128" where
  "mapped_of_v4 ip = push_bit 32 0xFFFF OR ucast ip"

definition v4_is_loopback :: "u32 \<Rightarrow> bool" where
  "v4_is_loopback ip \<longleftrightarrow> v4_octet 0 ip = 127"

definition v4_is_link_local :: "u32 \<Rightarrow> bool" where
  "v4_is_link_local ip \<longleftrightarrow> v4_octet 0 ip = 169 \<and> v4_octet 1 ip = 254"

definition v4_is_private :: "u32 \<Rightarrow> bool" where
  "v4_is_private ip \<longleftrightarrow>
     v4_octet 0 ip = 10 \<or>
     (v4_octet 0 ip = 172 \<and> 16 \<le> v4_octet 1 ip \<and> v4_octet 1 ip \<le> 31) \<or>
     (v4_octet 0 ip = 192 \<and> v4_octet 1 ip = 168)"

definition v6_is_loopback :: "u128 \<Rightarrow> bool" where
  "v6_is_loopback ip \<longleftrightarrow> ip = 1"

definition v6_is_multicast :: "u128 \<Rightarrow> bool" where
  "v6_is_multicast ip \<longleftrightarrow> segment 0 ip AND 0xFF00 = 0xFF00"

lemma to_ipv4_mapped_Some_iff: "to_ipv4_mapped ip = Some v4 \<longleftrightarrow> ip = mapped_of_v4 v4"
proof
  assume "to_ipv4_mapped ip = Some v4"
  then have hi: "drop_bit 32 ip = 0xFFFF" and lo: "v4 = ucast ip"
    by (auto simp: to_ipv4_mapped_def split: if_splits)
  have "ip = push_bit 32 (drop_bit 32 ip) OR take_bit 32 ip"
    by (rule bit_word_eqI) (auto simp: bit_simps)
  also have "take_bit 32 ip = ucast v4"
    unfolding lo by (rule bit_word_eqI) (auto simp: bit_simps)
  finally show "ip = mapped_of_v4 v4"
    by (simp only: hi mapped_of_v4_def)
next
  assume ip: "ip = mapped_of_v4 v4"
  have "drop_bit 32 ip = 0xFFFF"
    unfolding ip mapped_of_v4_def
    by (simp add: drop_bit_or) (rule bit_word_eqI, auto simp: bit_simps dest: bit_imp_le_length)
  moreover have "ucast (push_bit 32 h OR ucast v4) = v4" for h :: u128
    by (rule bit_word_eqI) (auto simp: bit_simps)
  then have "ucast ip = v4"
    by (simp only: ip mapped_of_v4_def)
  ultimately show "to_ipv4_mapped ip = Some v4"
    by (simp add: to_ipv4_mapped_def)
qed

lemma to_ipv4_mapped_mapped [simp]: "to_ipv4_mapped (mapped_of_v4 v4) = Some v4"
  by (simp add: to_ipv4_mapped_Some_iff)

lemma mapped_of_v4_inject [simp]: "mapped_of_v4 a = mapped_of_v4 b \<longleftrightarrow> a = b"
  using to_ipv4_mapped_mapped by (metis option.inject)

section \<open>Prefixes\<close>

text \<open>Masking with the top bits compares prefixes: the arithmetic behind every network test.\<close>

lemma mask_top_eq_iff [word_net_simps]:
  fixes x y :: "'a::len word"
  shows "x AND NOT (mask s) = y AND NOT (mask s) \<longleftrightarrow> drop_bit s x = drop_bit s y"
proof
  assume eq: "x AND NOT (mask s) = y AND NOT (mask s)"
  show "drop_bit s x = drop_bit s y"
  proof (rule bit_word_eqI)
    fix n assume "n < LENGTH('a)"
    have "bit (x AND NOT (mask s)) (s + n) = bit (y AND NOT (mask s)) (s + n)"
      by (simp only: eq)
    then show "bit (drop_bit s x) n = bit (drop_bit s y) n"
      by (auto simp: bit_simps dest: bit_imp_le_length)
  qed
next
  assume eq: "drop_bit s x = drop_bit s y"
  have "bit x n = bit y n" if "s \<le> n" for n
    using arg_cong [OF eq, where f = "\<lambda>w. bit w (n - s)"] that by (simp add: bit_simps)
  then show "x AND NOT (mask s) = y AND NOT (mask s)"
    by (intro bit_word_eqI) (auto simp: bit_simps)
qed

lemma mask_top_idem [word_net_simps]:
  fixes x :: "'a::len word"
  shows "(x AND NOT (mask s)) AND NOT (mask s) = x AND NOT (mask s)"
  by (simp add: and.assoc)

lemma unat_drop_bit_div: "unat (drop_bit n w) = unat w div 2 ^ n"
  by (simp only: unat_drop_bit_eq) (simp add: drop_bit_eq_div)

lemma drop_bit_eq_iff_div: "drop_bit n w = drop_bit n v \<longleftrightarrow> unat w div 2 ^ n = unat v div 2 ^ n"
  by (simp only: word_unat_eq_iff unat_drop_bit_div)

lemma drop_bit_mono_eq:
  fixes x y :: "'a::len word"
  assumes "drop_bit s x = drop_bit s y" and "s \<le> t"
  shows "drop_bit t x = drop_bit t y"
  using arg_cong [OF assms(1), where f = "drop_bit (t - s)"] assms(2)
  by (simp add: drop_bit_drop_bit)

end
