(* ===== verification/Ip_Class.thy ===== *)
theory Ip_Class
  imports Net_Addr
begin

text \<open>
  \<open>src/policy/ip_class.rs\<close>: the classes of destination addresses, the canonical form of an
  address and the classification itself.
\<close>

datatype ip_class = Public | Private | LinkLocal | Loopback | Reserved

fun ip_class_as_str :: "ip_class \<Rightarrow> string" where
  "ip_class_as_str Public = ''public''"
| "ip_class_as_str Private = ''private''"
| "ip_class_as_str LinkLocal = ''link-local''"
| "ip_class_as_str Loopback = ''loopback''"
| "ip_class_as_str Reserved = ''reserved''"

fun canonical_ip :: "ip_addr \<Rightarrow> ip_addr" where
  "canonical_ip (V6 v6) = (case to_ipv4_mapped v6 of None \<Rightarrow> V6 v6 | Some v4 \<Rightarrow> V4 v4)"
| "canonical_ip (V4 v4) = V4 v4"

definition classify_v4 :: "u32 \<Rightarrow> ip_class" where
  "classify_v4 ip =
     (let first = v4_octet 0 ip; second = v4_octet 1 ip in
      if first = 0 \<or> first \<ge> 224 then Reserved
      else if v4_is_loopback ip then Loopback
      else if v4_is_link_local ip then LinkLocal
      else if v4_is_private ip \<or> (first = 100 \<and> second AND 0xC0 = 64) then Private
      else Public)"

fun embedded_ipv4 :: "u16 list \<Rightarrow> u32 option" where
  "embedded_ipv4 [s0, s1, s2, s3, s4, s5, s6, s7] =
     (if s0 = 0x0064 \<and> s1 = 0xFF9B \<and> s2 = 0 \<and> s3 = 0 \<and> s4 = 0 \<and> s5 = 0
      then Some (push_bit 16 (ucast s6) OR ucast s7)
      else if s0 = 0x2002 then Some (push_bit 16 (ucast s1) OR ucast s2)
      else None)"
| "embedded_ipv4 _ = None"

definition classify_v6 :: "u128 \<Rightarrow> ip_class" where
  "classify_v6 ip =
     (let segments = v6_segments ip in
      if v6_is_loopback ip then Loopback
      else if take 6 segments = replicate 6 0 then Reserved
      else (case embedded_ipv4 segments of
              Some embedded \<Rightarrow> classify_v4 embedded
            | None \<Rightarrow>
                (let first = segment 0 ip in
                 if v6_is_multicast ip then Reserved
                 else if first AND 0xFE00 = 0xFC00 \<or> first AND 0xFFC0 = 0xFEC0 then Private
                 else if first AND 0xFFC0 = 0xFE80 then LinkLocal
                 else Public)))"

definition classify_ip :: "ip_addr \<Rightarrow> ip_class" where
  "classify_ip ip = (case canonical_ip ip of V4 v4 \<Rightarrow> classify_v4 v4 | V6 v6 \<Rightarrow> classify_v6 v6)"

section \<open>Canonical addresses\<close>

lemma canonical_ip_idem [simp]: "canonical_ip (canonical_ip ip) = canonical_ip ip"
  by (cases ip) (auto split: option.splits)

lemma canonical_ip_mapped [simp]: "canonical_ip (V6 (mapped_of_v4 v4)) = V4 v4"
  by simp

lemma canonical_ip_V4_iff:
  "canonical_ip ip = V4 v4 \<longleftrightarrow> ip = V4 v4 \<or> ip = V6 (mapped_of_v4 v4)"
  by (cases ip) (auto split: option.splits simp: to_ipv4_mapped_Some_iff)

lemma canonical_ip_V6_iff:
  "canonical_ip ip = V6 v6 \<longleftrightarrow> ip = V6 v6 \<and> to_ipv4_mapped v6 = None"
  by (cases ip) (auto split: option.splits)

lemma classify_canonical [simp]: "classify_ip (canonical_ip ip) = classify_ip ip"
  by (simp add: classify_ip_def)

end
