(* ===== verification/Cidr.thy ===== *)
theory Cidr
  imports Ip_Class
begin

text \<open>
  \<open>src/policy/cidr.rs\<close>, the network type: construction with host bits cleared, membership and the
  masks. Parsing and printing of networks are in \<open>Policy_Text\<close>.
\<close>

record cidr =
  cidr_network :: ip_addr
  cidr_prefix_len :: u8

definition v4_mask :: "u8 \<Rightarrow> u32" where
  "v4_mask prefix_len =
     (let shift = 32 - unat prefix_len in if shift < 32 then push_bit shift (- 1) else 0)"

definition v6_mask :: "u8 \<Rightarrow> u128" where
  "v6_mask prefix_len =
     (let shift = 128 - unat prefix_len in if shift < 128 then push_bit shift (- 1) else 0)"

function cidr_new :: "ip_addr \<Rightarrow> u8 \<Rightarrow> cidr option" where
  "cidr_new (V4 v4) prefix_len =
     (if prefix_len \<le> 32
      then Some \<lparr>cidr_network = V4 (v4 AND v4_mask prefix_len), cidr_prefix_len = prefix_len\<rparr>
      else None)"
| "cidr_new (V6 v6) prefix_len =
     (case (if prefix_len \<ge> 96 then to_ipv4_mapped v6 else None) of
        Some v4 \<Rightarrow> cidr_new (V4 v4) (prefix_len - 96)
      | None \<Rightarrow>
          (if prefix_len \<le> 128
           then Some \<lparr>cidr_network = V6 (v6 AND v6_mask prefix_len), cidr_prefix_len = prefix_len\<rparr>
           else None))"
  by pat_completeness auto
termination
  by (relation "measure (\<lambda>(addr, _). if is_ipv4 addr then 0 else 1)") auto

fun cidr_contains_addr :: "ip_addr \<Rightarrow> u8 \<Rightarrow> ip_addr \<Rightarrow> bool" where
  "cidr_contains_addr (V4 network) prefix_len (V4 ip) \<longleftrightarrow> ip AND v4_mask prefix_len = network"
| "cidr_contains_addr (V6 network) prefix_len (V6 ip) \<longleftrightarrow> ip AND v6_mask prefix_len = network"
| "cidr_contains_addr (V4 _) _ (V6 _) \<longleftrightarrow> False"
| "cidr_contains_addr (V6 _) _ (V4 _) \<longleftrightarrow> False"

definition cidr_contains :: "cidr \<Rightarrow> ip_addr \<Rightarrow> bool" where
  "cidr_contains c ip = cidr_contains_addr (cidr_network c) (cidr_prefix_len c) ip"

section \<open>Masks and prefixes\<close>

lemma v4_mask_eq: "v4_mask p = NOT (mask (32 - unat p))"
  by (auto simp: v4_mask_def Let_def intro!: bit_word_eqI simp: bit_simps)

lemma v6_mask_eq: "v6_mask p = NOT (mask (128 - unat p))"
  by (auto simp: v6_mask_def Let_def intro!: bit_word_eqI simp: bit_simps)

lemmas mask_net_simps = v4_mask_eq v6_mask_eq mask_top_eq_iff mask_top_idem

text \<open>The specification of membership: same family and equal leading bits.\<close>

fun same_prefix :: "nat \<Rightarrow> ip_addr \<Rightarrow> ip_addr \<Rightarrow> bool" where
  "same_prefix n (V4 a) (V4 b) \<longleftrightarrow> drop_bit (32 - n) a = drop_bit (32 - n) b"
| "same_prefix n (V6 a) (V6 b) \<longleftrightarrow> drop_bit (128 - n) a = drop_bit (128 - n) b"
| "same_prefix n (V4 _) (V6 _) \<longleftrightarrow> False"
| "same_prefix n (V6 _) (V4 _) \<longleftrightarrow> False"

text \<open>A network is well formed when its host bits are clear, its prefix fits its family and no
  IPv4-mapped host or subnet is left in IPv6 form.\<close>

fun cidr_wf_addr :: "ip_addr \<Rightarrow> u8 \<Rightarrow> bool" where
  "cidr_wf_addr (V4 a) p \<longleftrightarrow> p \<le> 32 \<and> a AND v4_mask p = a"
| "cidr_wf_addr (V6 a) p \<longleftrightarrow> p \<le> 128 \<and> a AND v6_mask p = a \<and> (p \<ge> 96 \<longrightarrow> to_ipv4_mapped a = None)"

definition cidr_wf :: "cidr \<Rightarrow> bool" where
  "cidr_wf c = cidr_wf_addr (cidr_network c) (cidr_prefix_len c)"

lemma to_ipv4_mapped_masked:
  assumes "p \<ge> (96::u8)"
  shows "to_ipv4_mapped (a AND v6_mask p) = None \<longleftrightarrow> to_ipv4_mapped a = None"
proof -
  have "96 \<le> unat p" using assms by (simp add: word_le_nat_alt)
  then have "drop_bit 32 (a AND NOT (mask (128 - unat p))) = drop_bit 32 a"
    by (intro bit_word_eqI) (auto simp: bit_simps dest: bit_imp_le_length)
  then show ?thesis by (simp add: to_ipv4_mapped_def v6_mask_eq)
qed

lemma cidr_new_V4_contains:
  assumes "cidr_new (V4 a) p = Some c"
  shows "cidr_contains c (V4 ip) \<longleftrightarrow> drop_bit (32 - unat p) ip = drop_bit (32 - unat p) a"
  using assms by (auto simp: cidr_contains_def mask_net_simps split: if_splits)

lemma cidr_new_V4_not_V6:
  assumes "cidr_new (V4 a) p = Some c"
  shows "\<not> cidr_contains c (V6 ip)"
  using assms by (auto simp: cidr_contains_def split: if_splits)

lemma cidr_new_wf:
  assumes "cidr_new addr p = Some c"
  shows "cidr_wf c"
  using assms
proof (induction addr p rule: cidr_new.induct)
  case (1 v4 p)
  then show ?case by (auto simp: cidr_wf_def mask_net_simps split: if_splits)
next
  case (2 v6 p)
  show ?case
  proof (cases "if p \<ge> 96 then to_ipv4_mapped v6 else None")
    case None
    then have "p \<ge> 96 \<Longrightarrow> to_ipv4_mapped v6 = None" by simp
    with None "2.prems" show ?thesis
      by (auto simp: cidr_wf_def to_ipv4_mapped_masked split: if_splits)
  next
    case (Some v4)
    with 2 show ?thesis by simp
  qed
qed

section \<open>Membership in the 128-bit address space\<close>

text \<open>Every address has a place among the IPv6 addresses; IPv4 sits below \<open>::ffff:0:0/96\<close>.\<close>

fun as_v6 :: "ip_addr \<Rightarrow> u128" where
  "as_v6 (V4 a) = mapped_of_v4 a"
| "as_v6 (V6 a) = a"

fun v6_prefix_len :: "ip_addr \<Rightarrow> u8 \<Rightarrow> nat" where
  "v6_prefix_len (V4 _) p = 96 + unat p"
| "v6_prefix_len (V6 _) p = unat p"

lemma drop_bit_mapped_eq:
  assumes "s \<le> 32"
  shows "drop_bit s (mapped_of_v4 a) = drop_bit s (mapped_of_v4 b) \<longleftrightarrow> drop_bit s a = drop_bit s b"
proof -
  have *: "drop_bit s (push_bit 32 h OR ucast a) = drop_bit s (push_bit 32 h OR ucast b)
      \<longleftrightarrow> drop_bit s a = drop_bit s b" (is "?l = ?r \<longleftrightarrow> _") for h :: u128
  proof
    assume eq: "?l = ?r"
    have "bit a (s + n) = bit b (s + n)" if "s + n < 32" for n
      using arg_cong [OF eq, where f = "\<lambda>w. bit w n"] that by (simp add: bit_simps)
    moreover have "bit a (s + n) = bit b (s + n)" if "\<not> s + n < 32" for n
      using that bit_imp_le_length [of a "s + n"] bit_imp_le_length [of b "s + n"] by auto
    ultimately have "bit a (s + n) = bit b (s + n)" for n by blast
    then show "drop_bit s a = drop_bit s b"
      by (intro bit_word_eqI) (simp add: bit_simps)
  next
    assume eq: "drop_bit s a = drop_bit s b"
    have low: "drop_bit s (ucast x :: u128) = ucast (drop_bit s x)" for x :: u32
      by (rule bit_word_eqI) (auto simp: bit_simps dest: bit_imp_le_length)
    show "?l = ?r" by (simp only: drop_bit_or low eq)
  qed
  show ?thesis unfolding mapped_of_v4_def by (rule *)
qed

lemma drop_bit_mapped_imp_mapped:
  assumes "s \<le> 32" and "drop_bit s x = drop_bit s (mapped_of_v4 b)"
  shows "to_ipv4_mapped x \<noteq> None"
proof -
  have "to_ipv4_mapped (mapped_of_v4 b) = Some b" by simp
  then have "drop_bit 32 (mapped_of_v4 b) = 0xFFFF"
    by (simp add: to_ipv4_mapped_def split: if_splits)
  with drop_bit_mono_eq [OF assms(2,1)] show ?thesis
    by (simp add: to_ipv4_mapped_def)
qed

lemma cidr_contains_V4_embed:
  assumes "cidr_new (V4 a) p = Some c"
  shows "cidr_contains c (canonical_ip ip) \<longleftrightarrow>
    drop_bit (32 - unat p) (as_v6 ip) = drop_bit (32 - unat p) (mapped_of_v4 a)"
proof (cases "canonical_ip ip")
  case (V4 b)
  then have "as_v6 ip = mapped_of_v4 b" by (auto simp: canonical_ip_V4_iff)
  then show ?thesis
    by (simp add: V4 cidr_new_V4_contains [OF assms] drop_bit_mapped_eq)
next
  case (V6 x)
  then have x: "as_v6 ip = x" and nm: "to_ipv4_mapped x = None"
    by (auto simp: canonical_ip_V6_iff)
  show ?thesis
    using cidr_new_V4_not_V6 [OF assms, of x] drop_bit_mapped_imp_mapped [of "32 - unat p" x a]
    by (auto simp: V6 x nm)
qed

lemma unat_minus_96: "96 \<le> (p::u8) \<Longrightarrow> unat (p - 96) = unat p - 96"
  by (simp add: unat_sub word_le_nat_alt)

lemma cidr_contains_V6_embed:
  assumes "cidr_new (V6 a) p = Some c" and "\<not> (96 \<le> p \<and> to_ipv4_mapped a \<noteq> None)"
  shows "cidr_contains c (canonical_ip ip) \<longleftrightarrow>
    (96 \<le> p \<or> is_ipv6 (canonical_ip ip)) \<and>
    drop_bit (128 - unat p) (as_v6 ip) = drop_bit (128 - unat p) a"
proof -
  have c: "c = \<lparr>cidr_network = V6 (a AND v6_mask p), cidr_prefix_len = p\<rparr>"
    using assms by (auto split: if_splits option.splits)
  show ?thesis
  proof (cases "canonical_ip ip")
    case (V4 b)
    then have b: "as_v6 ip = mapped_of_v4 b" by (auto simp: canonical_ip_V4_iff)
    have "128 - unat p \<le> 32" if "96 \<le> p" using that by (simp add: word_le_nat_alt)
    then have "\<not> (96 \<le> p \<and> drop_bit (128 - unat p) (mapped_of_v4 b) = drop_bit (128 - unat p) a)"
      using drop_bit_mapped_imp_mapped [of "128 - unat p" a b] assms(2) by fastforce
    then show ?thesis by (simp add: V4 b c cidr_contains_def)
  next
    case (V6 x)
    then have "as_v6 ip = x" by (auto simp: canonical_ip_V6_iff)
    then show ?thesis by (simp add: V6 c cidr_contains_def mask_net_simps)
  qed
qed

lemma cidr_contains_embed:
  assumes "cidr_new addr p = Some c"
  shows "cidr_contains c (canonical_ip ip) \<longleftrightarrow>
    (96 \<le> v6_prefix_len addr p \<or> is_ipv6 (canonical_ip ip)) \<and>
    drop_bit (128 - v6_prefix_len addr p) (as_v6 ip) = drop_bit (128 - v6_prefix_len addr p) (as_v6 addr)"
proof (cases addr)
  case (V4 a)
  with assms show ?thesis by (simp add: cidr_contains_V4_embed del: cidr_new.simps)
next
  case (V6 a)
  have le: "96 \<le> unat p \<longleftrightarrow> 96 \<le> p" by (simp add: word_le_nat_alt)
  show ?thesis
  proof (cases "96 \<le> p \<and> to_ipv4_mapped a \<noteq> None")
    case True
    then obtain v4 where v4: "to_ipv4_mapped a = Some v4" by auto
    then have a: "a = mapped_of_v4 v4" by (simp add: to_ipv4_mapped_Some_iff)
    have "cidr_new (V4 v4) (p - 96) = Some c" using assms True v4 V6 by simp
    from cidr_contains_V4_embed [OF this, of ip] True show ?thesis
      by (simp add: V6 a le unat_minus_96)
  next
    case False
    with assms V6 show ?thesis by (simp add: cidr_contains_V6_embed le del: cidr_new.simps)
  qed
qed

section \<open>Property\<close>



end
