(* ===== verification/Class_Table.thy ===== *)
theory Class_Table
  imports Cidr
begin

text \<open>
  The address classes of \<open>src/policy/ip_class.rs\<close> against the networks its comments and the README
  name: each class is exactly the union of its documented networks, membership being
  \<open>Cidr::contains\<close> of \<open>src/policy/cidr.rs\<close>.
\<close>

definition in_net :: "ip_addr \<Rightarrow> u8 \<Rightarrow> ip_addr \<Rightarrow> bool" where
  "in_net addr p ip = (case cidr_new addr p of None \<Rightarrow> False | Some c \<Rightarrow> cidr_contains c ip)"

lemma in_net_V4: "p \<le> 32 \<Longrightarrow> in_net (V4 a) p (V4 ip) \<longleftrightarrow>
    unat ip div 2 ^ (32 - unat p) = unat a div 2 ^ (32 - unat p)"
proof -
  assume "p \<le> 32"
  then have "in_net (V4 a) p (V4 ip) \<longleftrightarrow> drop_bit (32 - unat p) ip = drop_bit (32 - unat p) a"
    by (simp add: in_net_def cidr_contains_def mask_net_simps)
  then show ?thesis by (simp add: drop_bit_eq_iff_div)
qed

lemma in_net_V6:
  assumes "p \<le> 128" and "96 \<le> p \<Longrightarrow> to_ipv4_mapped a = None"
  shows "in_net (V6 a) p (V6 ip) \<longleftrightarrow>
    unat ip div 2 ^ (128 - unat p) = unat a div 2 ^ (128 - unat p)"
proof -
  have "in_net (V6 a) p (V6 ip) \<longleftrightarrow> drop_bit (128 - unat p) ip = drop_bit (128 - unat p) a"
    using assms by (auto simp: in_net_def cidr_contains_def mask_net_simps)
  then show ?thesis by (simp add: drop_bit_eq_iff_div)
qed

lemma and_prefix_eq_iff:
  fixes x m c :: "'a::len word"
  assumes "m = NOT (mask n)" and "c AND m = c"
  shows "x AND m = c \<longleftrightarrow> unat x div 2 ^ n = unat c div 2 ^ n"
  using assms mask_top_eq_iff [of x n c] by (simp add: drop_bit_eq_iff_div)

section \<open>IPv4\<close>

lemma unat_v4_octet_0: "unat (v4_octet 0 ip) = unat ip div 65536 div 256"
proof -
  have "unat ip < 2 ^ 32" using unsigned_less [of ip] by simp
  then have "unat ip div 2 ^ 24 < 256" by (simp add: less_mult_imp_div_less)
  then have "take_bit 8 (unat ip div 2 ^ 24) = unat ip div 2 ^ 24"
    by (simp add: take_bit_nat_eq_self)
  then show ?thesis
    by (simp add: v4_octet_def unsigned_ucast_eq unat_drop_bit_div div_mult2_eq [symmetric])
qed

lemma unat_v4_octet_1: "unat (v4_octet (Suc 0) ip) = unat ip div 65536 mod 256"
  by (simp add: v4_octet_def unsigned_ucast_eq unat_drop_bit_div take_bit_eq_mod)

lemma and_C0_eq: "(x :: u8) AND 0xC0 = 64 \<longleftrightarrow> unat x div 64 = 1"
  by (subst and_prefix_eq_iff [where n = 6]) (simp_all add: mask_eq_exp_minus_1)

lemma radix_digit_eq:
  fixes n q d :: nat
  assumes "d < n" and "e < n"
  shows "n * q + d = n * p + e \<longleftrightarrow> q = p \<and> d = e"
proof
  assume eq: "n * q + d = n * p + e"
  have "(n * q + d) div n = q" "(n * p + e) div n = p" using assms by simp_all
  then show "q = p \<and> d = e" using eq by simp
qed simp

lemma v4_split:
  assumes "q = unat (v4_octet 0 ip)" and "r = unat (v4_octet (Suc 0) ip)"
  shows "unat ip div 65536 = 256 * q + r" and "r < 256" and "q < 256"
proof -
  show "unat ip div 65536 = 256 * q + r"
    by (simp add: assms unat_v4_octet_0 unat_v4_octet_1)
  show "r < 256" "q < 256"
    using unsigned_less [of "v4_octet 0 ip"] unsigned_less [of "v4_octet (Suc 0) ip"] assms by simp_all
qed

lemma v4_class_by_prefix:
  fixes ip :: u32
  defines "x \<equiv> unat ip div 65536"
  shows "classify_v4 ip =
    (if x div 256 = 0 \<or> x div 4096 = 14 \<or> x div 4096 = 15 then Reserved
     else if x div 256 = 127 then Loopback
     else if x = 43518 then LinkLocal
     else if x div 256 = 10 \<or> x div 16 = 2753 \<or> x = 49320 \<or> x div 64 = 401 then Private
     else Public)"
proof -
  define q r where "q = unat (v4_octet 0 ip)" and "r = unat (v4_octet (Suc 0) ip)"
  note qr = v4_split [OF q_def r_def]
  have x: "x = 256 * q + r" using qr(1) by (simp add: x_def)
  have d256: "x div 256 = q" using qr(2) by (simp add: x)
  have d4096: "x div 4096 = q div 16"
    using div_mult2_eq [of x 256 16] by (simp add: d256)
  have d16: "x div 16 = 16 * q + r div 16" unfolding x by simp
  have d64: "x div 64 = 4 * q + r div 64" unfolding x by simp
  have reserved: "v4_octet 0 ip = 0 \<or> v4_octet 0 ip \<ge> 224 \<longleftrightarrow>
      x div 256 = 0 \<or> x div 4096 = 14 \<or> x div 4096 = 15"
    using qr(3) by (auto simp: d256 d4096 word_unat_eq_iff word_le_nat_alt simp flip: q_def)
  have loop: "v4_is_loopback ip \<longleftrightarrow> x div 256 = 127"
    by (simp add: v4_is_loopback_def d256 word_unat_eq_iff flip: q_def)
  have link: "v4_is_link_local ip \<longleftrightarrow> x = 43518"
    using radix_digit_eq [of r 256 254 q 169] qr(2)
    by (simp add: v4_is_link_local_def x word_unat_eq_iff flip: q_def r_def)
  have "16 \<le> r \<and> r \<le> 31 \<longleftrightarrow> r div 16 = 1" by auto
  then have b172: "q = 172 \<and> 16 \<le> r \<and> r \<le> 31 \<longleftrightarrow> x div 16 = 2753"
    using radix_digit_eq [of "r div 16" 16 1 q 172] qr(2) by (simp add: d16 less_mult_imp_div_less)
  have b192: "q = 192 \<and> r = 168 \<longleftrightarrow> x = 49320"
    using radix_digit_eq [of r 256 168 q 192] qr(2) by (simp add: x)
  have priv: "v4_is_private ip \<longleftrightarrow> x div 256 = 10 \<or> x div 16 = 2753 \<or> x = 49320"
    unfolding b172 [symmetric] b192 [symmetric]
    by (simp add: v4_is_private_def d256 word_unat_eq_iff word_le_nat_alt flip: q_def r_def)
  have cgnat: "v4_octet 0 ip = 100 \<and> v4_octet 1 ip AND 0xC0 = 64 \<longleftrightarrow> x div 64 = 401"
  proof -
    have "v4_octet 0 ip = 100 \<longleftrightarrow> q = 100" by (simp add: q_def word_unat_eq_iff)
    moreover have "v4_octet 1 ip AND 0xC0 = 64 \<longleftrightarrow> r div 64 = 1" by (simp add: and_C0_eq r_def)
    ultimately show ?thesis
      using radix_digit_eq [of "r div 64" 4 1 q 100] qr(2) by (simp add: d64 less_mult_imp_div_less)
  qed
  show ?thesis
    by (simp only: classify_v4_def Let_def reserved loop link priv cgnat disj_assoc)
qed

text \<open>The documented IPv4 networks of each class.\<close>

definition v4_net :: "u8 \<Rightarrow> u8 \<Rightarrow> u8 \<Rightarrow> u8 \<Rightarrow> u8 \<Rightarrow> u32 \<Rightarrow> bool" where
  "v4_net a b c d p ip = in_net (V4 (v4_new a b c d)) p (V4 ip)"

definition documented_v4_class :: "u32 \<Rightarrow> ip_class" where
  "documented_v4_class ip =
     (if v4_net 0 0 0 0 8 ip \<or> v4_net 224 0 0 0 4 ip \<or> v4_net 240 0 0 0 4 ip then Reserved
      else if v4_net 127 0 0 0 8 ip then Loopback
      else if v4_net 169 254 0 0 16 ip then LinkLocal
      else if v4_net 10 0 0 0 8 ip \<or> v4_net 172 16 0 0 12 ip \<or> v4_net 192 168 0 0 16 ip \<or>
              v4_net 100 64 0 0 10 ip then Private
      else Public)"

lemma v4_net_simps:
  "v4_net 0 0 0 0 8 ip \<longleftrightarrow> unat ip div 65536 div 256 = 0"
  "v4_net 224 0 0 0 4 ip \<longleftrightarrow> unat ip div 65536 div 4096 = 14"
  "v4_net 240 0 0 0 4 ip \<longleftrightarrow> unat ip div 65536 div 4096 = 15"
  "v4_net 127 0 0 0 8 ip \<longleftrightarrow> unat ip div 65536 div 256 = 127"
  "v4_net 169 254 0 0 16 ip \<longleftrightarrow> unat ip div 65536 = 43518"
  "v4_net 10 0 0 0 8 ip \<longleftrightarrow> unat ip div 65536 div 256 = 10"
  "v4_net 172 16 0 0 12 ip \<longleftrightarrow> unat ip div 65536 div 16 = 2753"
  "v4_net 192 168 0 0 16 ip \<longleftrightarrow> unat ip div 65536 = 49320"
  "v4_net 100 64 0 0 10 ip \<longleftrightarrow> unat ip div 65536 div 64 = 401"
  by (simp_all add: v4_net_def v4_new_def be_word_def in_net_V4 div_mult2_eq [symmetric])

lemma classify_v4_documented: "classify_v4 ip = documented_v4_class ip"
  by (simp only: v4_class_by_prefix documented_v4_class_def v4_net_simps)

section \<open>IPv6\<close>

lemma drop_bit_segment_step:
  fixes ip c :: u128
  shows "drop_bit k ip = c \<longleftrightarrow> drop_bit (k + 16) ip = drop_bit 16 c \<and>
     (ucast (drop_bit k ip) :: u16) = ucast c" (is "?L \<longleftrightarrow> ?R")
proof
  assume ?L
  then show ?R by (auto simp: drop_bit_drop_bit add.commute)
next
  assume R: ?R
  have hi: "bit ip (k + n) = bit c n" if "16 \<le> n" for n
    using arg_cong [OF conjunct1 [OF R], where f = "\<lambda>w. bit w (n - 16)"] that
    by (simp add: bit_simps add.commute)
  have lo: "bit ip (k + n) = bit c n" if "n < 16" for n
    using arg_cong [OF conjunct2 [OF R], where f = "\<lambda>w. bit w n"] that
    by (simp add: bit_simps)
  show ?L
    by (rule bit_word_eqI) (metis bit_drop_bit_eq comp_apply hi lo not_less)
qed

lemma drop_bit_zero_step:
  assumes "i \<le> 7"
  shows "drop_bit (112 - 16 * i) ip = 0 \<longleftrightarrow> drop_bit (128 - 16 * i) ip = 0 \<and> segment i ip = 0"
proof -
  have k: "112 - 16 * i + 16 = 128 - 16 * i" using assms by simp
  show ?thesis unfolding drop_bit_segment_step [of "112 - 16 * i" ip 0] k segment_def by simp
qed

lemma leading_segments_zero:
  "take 6 (v6_segments ip) = replicate 6 0 \<longleftrightarrow> unat ip div 2 ^ 32 = 0"
proof -
  have "drop_bit 32 ip = 0 \<longleftrightarrow> drop_bit 48 ip = 0 \<and> segment 5 ip = 0"
    using drop_bit_zero_step [of 5 ip] by simp
  moreover have "drop_bit 48 ip = 0 \<longleftrightarrow> drop_bit 64 ip = 0 \<and> segment 4 ip = 0"
    using drop_bit_zero_step [of 4 ip] by simp
  moreover have "drop_bit 64 ip = 0 \<longleftrightarrow> drop_bit 80 ip = 0 \<and> segment 3 ip = 0"
    using drop_bit_zero_step [of 3 ip] by simp
  moreover have "drop_bit 80 ip = 0 \<longleftrightarrow> drop_bit 96 ip = 0 \<and> segment 2 ip = 0"
    using drop_bit_zero_step [of 2 ip] by simp
  moreover have "drop_bit 96 ip = 0 \<longleftrightarrow> drop_bit 112 ip = 0 \<and> segment 1 ip = 0"
    using drop_bit_zero_step [of 1 ip] by simp
  moreover have "drop_bit 112 ip = 0 \<longleftrightarrow> segment 0 ip = 0"
    using drop_bit_zero_step [of 0 ip] by simp
  moreover have "take 6 (v6_segments ip) = replicate 6 0 \<longleftrightarrow> segment 0 ip = 0 \<and> segment 1 ip = 0 \<and>
      segment 2 ip = 0 \<and> segment 3 ip = 0 \<and> segment 4 ip = 0 \<and> segment 5 ip = 0"
    by (simp add: v6_segments_def numeral_eq_Suc)
  moreover have "drop_bit 32 ip = 0 \<longleftrightarrow> unat ip div 2 ^ 32 = 0"
    using drop_bit_eq_iff_div [of 32 ip 0] by simp
  ultimately show ?thesis by blast
qed

lemma drop_bit_segment:
  assumes "i \<le> 7"
  shows "drop_bit (112 - 16 * i) ip = c \<longleftrightarrow>
    drop_bit (128 - 16 * i) ip = drop_bit 16 c \<and> unat (segment i ip) = unat c mod 65536"
proof -
  have k: "112 - 16 * i + 16 = 128 - 16 * i" using assms by simp
  have "(ucast (drop_bit (112 - 16 * i) ip) :: u16) = ucast c \<longleftrightarrow> unat (segment i ip) = unat c mod 65536"
    by (simp add: segment_def word_unat_eq_iff unsigned_ucast_eq take_bit_eq_mod)
  then show ?thesis unfolding drop_bit_segment_step [of "112 - 16 * i" ip c] k by simp
qed

lemma nat64_segments:
  "segment 0 ip = 0x64 \<and> segment 1 ip = 0xFF9B \<and> segment 2 ip = 0 \<and> segment 3 ip = 0 \<and>
   segment 4 ip = 0 \<and> segment 5 ip = 0 \<longleftrightarrow> drop_bit 32 ip = 0x64FF9B0000000000000000"
proof -
  note step = drop_bit_segment [of _ ip]
  have s5: "drop_bit 32 ip = 0x64FF9B0000000000000000 \<longleftrightarrow>
      drop_bit 48 ip = 0x64FF9B000000000000 \<and> segment 5 ip = 0"
    using step [of 5 "0x64FF9B0000000000000000"] by (simp add: unat_eq_zero)
  have s4: "drop_bit 48 ip = 0x64FF9B000000000000 \<longleftrightarrow>
      drop_bit 64 ip = 0x64FF9B00000000 \<and> segment 4 ip = 0"
    using step [of 4 "0x64FF9B000000000000"] by (simp add: unat_eq_zero)
  have s3: "drop_bit 64 ip = 0x64FF9B00000000 \<longleftrightarrow> drop_bit 80 ip = 0x64FF9B0000 \<and> segment 3 ip = 0"
    using step [of 3 "0x64FF9B00000000"] by (simp add: unat_eq_zero)
  have s2: "drop_bit 80 ip = 0x64FF9B0000 \<longleftrightarrow> drop_bit 96 ip = 0x64FF9B \<and> segment 2 ip = 0"
    using step [of 2 "0x64FF9B0000"] by (simp add: unat_eq_zero)
  have s1: "drop_bit 96 ip = 0x64FF9B \<longleftrightarrow> drop_bit 112 ip = 0x64 \<and> segment 1 ip = 0xFF9B"
    using step [of 1 "0x64FF9B"] by (simp add: word_unat_eq_iff)
  have s0: "drop_bit 112 ip = 0x64 \<longleftrightarrow> segment 0 ip = 0x64"
    using step [of 0 "0x64"] by (simp add: word_unat_eq_iff)
  show ?thesis unfolding s5 s4 s3 s2 s1 s0 by blast
qed

lemma unat_segment_0: "unat (segment 0 ip) = unat ip div 2 ^ 112"
proof -
  have "unat ip < 2 ^ 128" using unsigned_less [of ip] by simp
  then have "unat ip div 2 ^ 112 < 2 ^ 16" by (simp add: less_mult_imp_div_less)
  then show ?thesis
    by (simp add: segment_def unsigned_ucast_eq unat_drop_bit_div take_bit_nat_eq_self)
qed

text \<open>The documented IPv6 networks, in the order the README lists them; NAT64 and 6to4 addresses
  take the class of the IPv4 address they carry.\<close>

definition v6_net :: "u128 \<Rightarrow> u8 \<Rightarrow> u128 \<Rightarrow> bool" where
  "v6_net a p ip = in_net (V6 a) p (V6 ip)"

definition documented_v6_class :: "u128 \<Rightarrow> ip_class" where
  "documented_v6_class ip =
     (if v6_net 1 128 ip then Loopback
      else if v6_net 0 96 ip then Reserved
      else if v6_net 0x64FF9B000000000000000000000000 96 ip then
        documented_v4_class (ucast ip)
      else if v6_net 0x20020000000000000000000000000000 16 ip then
        documented_v4_class (ucast (drop_bit 80 ip))
      else if v6_net 0xFF000000000000000000000000000000 8 ip then Reserved
      else if v6_net 0xFC000000000000000000000000000000 7 ip \<or>
              v6_net 0xFEC00000000000000000000000000000 10 ip then Private
      else if v6_net 0xFE800000000000000000000000000000 10 ip then LinkLocal
      else Public)"

lemma v6_net_simps:
  "v6_net 1 128 ip \<longleftrightarrow> ip = 1"
  "v6_net 0 96 ip \<longleftrightarrow> unat ip div 2 ^ 32 = 0"
  "v6_net 0x64FF9B000000000000000000000000 96 ip \<longleftrightarrow> drop_bit 32 ip = 0x64FF9B0000000000000000"
  "v6_net 0x20020000000000000000000000000000 16 ip \<longleftrightarrow> segment 0 ip = 0x2002"
  "v6_net 0xFF000000000000000000000000000000 8 ip \<longleftrightarrow> unat (segment 0 ip) div 256 = 0xFF"
  "v6_net 0xFC000000000000000000000000000000 7 ip \<longleftrightarrow> unat (segment 0 ip) div 512 = 0x7E"
  "v6_net 0xFEC00000000000000000000000000000 10 ip \<longleftrightarrow> unat (segment 0 ip) div 64 = 0x3FB"
  "v6_net 0xFE800000000000000000000000000000 10 ip \<longleftrightarrow> unat (segment 0 ip) div 64 = 0x3FA"
  by (simp_all add: v6_net_def in_net_V6 to_ipv4_mapped_def unat_segment_0 word_unat_eq_iff
        unat_drop_bit_div div_mult2_eq [symmetric])

lemma v6_segment_tests:
  "v6_is_multicast ip \<longleftrightarrow> unat (segment 0 ip) div 256 = 0xFF"
  "segment 0 ip AND 0xFE00 = 0xFC00 \<longleftrightarrow> unat (segment 0 ip) div 512 = 0x7E"
  "segment 0 ip AND 0xFFC0 = 0xFEC0 \<longleftrightarrow> unat (segment 0 ip) div 64 = 0x3FB"
  "segment 0 ip AND 0xFFC0 = 0xFE80 \<longleftrightarrow> unat (segment 0 ip) div 64 = 0x3FA"
  unfolding v6_is_multicast_def
  by (subst and_prefix_eq_iff [where n = 8], simp_all add: mask_eq_exp_minus_1)
     (subst and_prefix_eq_iff [where n = 9], simp_all add: mask_eq_exp_minus_1,
      subst and_prefix_eq_iff [where n = 6], simp_all add: mask_eq_exp_minus_1,
      subst and_prefix_eq_iff [where n = 6], simp_all add: mask_eq_exp_minus_1)

lemma carried_v4:
  "push_bit 16 (ucast (segment 6 ip)) OR ucast (segment 7 ip) = (ucast ip :: u32)"
  "push_bit 16 (ucast (segment 1 ip)) OR ucast (segment 2 ip) = (ucast (drop_bit 80 ip) :: u32)"
  by (rule bit_word_eqI; auto simp: segment_def bit_simps)+

lemma embedded_ipv4_segments:
  "embedded_ipv4 (v6_segments ip) =
     (if drop_bit 32 ip = 0x64FF9B0000000000000000 then Some (ucast ip)
      else if segment 0 ip = 0x2002 then Some (ucast (drop_bit 80 ip)) else None)"
  by (simp only: v6_segments_def embedded_ipv4.simps nat64_segments carried_v4)

lemma classify_v6_documented: "classify_v6 ip = documented_v6_class ip"
  unfolding classify_v6_def documented_v6_class_def Let_def v6_net_simps v6_is_loopback_def
    leading_segments_zero v6_segment_tests embedded_ipv4_segments
  by (simp add: classify_v4_documented)

definition documented_class :: "ip_addr \<Rightarrow> ip_class" where
  "documented_class ip =
     (case ip of
        V4 a \<Rightarrow> documented_v4_class a
      | V6 b \<Rightarrow> (case to_ipv4_mapped b of Some v4 \<Rightarrow> documented_v4_class v4
                                          | None \<Rightarrow> documented_v6_class b))"

lemma classify_documented: "classify_ip ip = documented_class ip"
  by (cases ip)
     (simp_all add: classify_ip_def documented_class_def classify_v4_documented
        classify_v6_documented split: option.split)

text \<open>\<^bold>\<open>C14.\<close> Every address is classified exactly as documented: an IPv4 address, or an IPv4-mapped
  IPv6 address, by the IPv4 networks of its class; any other IPv6 address by the IPv6 networks,
  with NAT64 and 6to4 addresses judged by the IPv4 address they carry.\<close>

theorem classify_ip_documented: "classify_ip ip = documented_class ip"
  by (rule classify_documented)

end
