(* ===== verification/Dest_Policy.thy ===== *)
theory Dest_Policy
  imports Class_Table
begin

text \<open>
  The destination policy: \<open>src/policy/port_range.rs\<close>, \<open>internal_whitelist_entry.rs\<close> (matching),
  \<open>destination_policy.rs\<close> and \<open>client_acl.rs\<close>. The locale \<open>destination_filter\<close> is what the
  connector of \<open>src/server/connector.rs\<close> relies on: a verdict that does not depend on whether an
  IPv4 address arrives in its IPv4-mapped form.
\<close>

section \<open>Port ranges and whitelist entries\<close>

record port_range =
  pr_first :: u16
  pr_last :: u16

definition port_range_contains :: "port_range \<Rightarrow> u16 \<Rightarrow> bool" where
  "port_range_contains r port \<longleftrightarrow> pr_first r \<le> port \<and> port \<le> pr_last r"

record whitelist_entry =
  wl_network :: cidr
  wl_ports :: "port_range option"

definition entry_matches :: "whitelist_entry \<Rightarrow> socket_addr \<Rightarrow> bool" where
  "entry_matches entry addr \<longleftrightarrow>
     cidr_contains (wl_network entry) (canonical_ip (sock_ip addr)) \<and>
     (case wl_ports entry of None \<Rightarrow> True | Some ports \<Rightarrow> port_range_contains ports (sock_port addr))"

section \<open>Client whitelist\<close>

record client_acl =
  acl_networks :: "cidr list"

definition acl_is_allowed :: "client_acl \<Rightarrow> ip_addr \<Rightarrow> bool" where
  "acl_is_allowed acl ip0 =
     (let ip = canonical_ip ip0 in
      acl_networks acl = [] \<or> list_ex (\<lambda>network. cidr_contains network ip) (acl_networks acl))"

definition acl_is_open :: "client_acl \<Rightarrow> bool" where
  "acl_is_open acl \<longleftrightarrow> acl_networks acl = []"

section \<open>Destination policy\<close>

datatype deny_reason = BlockedPort u16 | ReservedAddress | InternalAddress ip_class

record destination_policy =
  blocked_ports :: "u16 list"
  allow_internal :: bool
  internal_whitelist :: "whitelist_entry list"

definition is_whitelisted :: "destination_policy \<Rightarrow> socket_addr \<Rightarrow> bool" where
  "is_whitelisted policy addr = list_ex (\<lambda>entry. entry_matches entry addr) (internal_whitelist policy)"

definition policy_check :: "destination_policy \<Rightarrow> socket_addr \<Rightarrow> deny_reason + unit" where
  "policy_check policy addr =
     (let port = sock_port addr in
      if port = 0 \<or> port \<in> set (blocked_ports policy) then Err (BlockedPort port)
      else (let class = classify_ip (sock_ip addr) in
            case class of
              Public \<Rightarrow> Ok ()
            | Reserved \<Rightarrow> Err ReservedAddress
            | Private \<Rightarrow>
                if allow_internal policy then Ok ()
                else if is_whitelisted policy addr then Ok () else Err (InternalAddress class)
            | LinkLocal \<Rightarrow> if is_whitelisted policy addr then Ok () else Err (InternalAddress class)
            | Loopback \<Rightarrow> if is_whitelisted policy addr then Ok () else Err (InternalAddress class)))"

section \<open>The contract towards the connector\<close>

definition canonical_sock :: "socket_addr \<Rightarrow> socket_addr" where
  "canonical_sock addr = socket_addr_new (canonical_ip (sock_ip addr)) (sock_port addr)"

lemma sock_ip_canonical_sock [simp]: "sock_ip (canonical_sock a) = canonical_ip (sock_ip a)"
  by (simp add: canonical_sock_def)

lemma sock_port_canonical_sock [simp]: "sock_port (canonical_sock a) = sock_port a"
  by (simp add: canonical_sock_def)

lemma canonical_sock_idem [simp]: "canonical_sock (canonical_sock a) = canonical_sock a"
  unfolding canonical_sock_def by simp

locale destination_filter =
  fixes check :: "socket_addr \<Rightarrow> 'd + unit"
  assumes check_canonical: "check (canonical_sock a) = check a"
begin

definition allowed :: "socket_addr \<Rightarrow> bool" where
  "allowed a \<longleftrightarrow> check a = Ok ()"

lemma allowed_canonical [simp]: "allowed (canonical_sock a) = allowed a"
  by (simp add: allowed_def check_canonical)

lemma check_cases:
  obtains "check a = Ok ()" | r where "check a = Err r"
  by (cases "check a") auto

end

lemma entry_matches_canonical [simp]: "entry_matches e (canonical_sock a) = entry_matches e a"
  by (simp add: entry_matches_def split: option.split)

lemma is_whitelisted_canonical [simp]: "is_whitelisted p (canonical_sock a) = is_whitelisted p a"
  by (simp add: is_whitelisted_def)

lemma policy_check_canonical: "policy_check p (canonical_sock a) = policy_check p a"
  by (simp add: policy_check_def Let_def split: ip_class.split)

interpretation policy_filter: destination_filter "policy_check p"
  by unfold_locales (rule policy_check_canonical)

section \<open>What is allowed, what is refused, and why\<close>

text \<open>\<^bold>\<open>C2.\<close> The policy lets a destination through exactly when its port is neither 0 nor blocked and
  the documented networks put its address among the public ones, or among the private ones with
  \<open>allow_internal\<close> set, or among the private, link-local or loopback ones with a whitelist entry
  whose network contains the (canonical) address and whose ports contain the port. Reserved
  addresses are never let through, whatever the settings.\<close>

theorem policy_check_allows_iff:
  "policy_check p a = Ok () \<longleftrightarrow>
     sock_port a \<noteq> 0 \<and> sock_port a \<notin> set (blocked_ports p) \<and>
     (documented_class (sock_ip a) = Public \<or>
      documented_class (sock_ip a) = Private \<and> allow_internal p \<or>
      documented_class (sock_ip a) \<in> {Private, LinkLocal, Loopback} \<and>
      (\<exists>e \<in> set (internal_whitelist p).
         cidr_contains (wl_network e) (canonical_ip (sock_ip a)) \<and>
         (\<forall>r. wl_ports e = Some r \<longrightarrow> pr_first r \<le> sock_port a \<and> sock_port a \<le> pr_last r)))"
proof -
  have wl: "is_whitelisted p a \<longleftrightarrow> (\<exists>e \<in> set (internal_whitelist p).
         cidr_contains (wl_network e) (canonical_ip (sock_ip a)) \<and>
         (\<forall>r. wl_ports e = Some r \<longrightarrow> pr_first r \<le> sock_port a \<and> sock_port a \<le> pr_last r))"
    by (auto simp: is_whitelisted_def list_ex_iff entry_matches_def port_range_contains_def
             split: option.splits)
  show ?thesis
    unfolding wl [symmetric] classify_documented [symmetric]
    by (auto simp: policy_check_def Let_def split: ip_class.splits)
qed

text \<open>A loopback destination inside \<open>127.0.0.0/8\<close> is refused without a whitelist entry although
  \<open>allow_internal\<close> is set, and let through with one.\<close>

theorem policy_check_allows_iff_witness:
  "policy_check \<lparr>blocked_ports = [25], allow_internal = True, internal_whitelist = []\<rparr>
     (SockV4 0x7F000001 8080) \<noteq> Ok ()
   \<and> policy_check \<lparr>blocked_ports = [25], allow_internal = False, internal_whitelist =
       [\<lparr>wl_network = \<lparr>cidr_network = V4 0x7F000001, cidr_prefix_len = 32\<rparr>, wl_ports = None\<rparr>]\<rparr>
     (SockV4 0x7F000001 8080) = Ok ()"
  using policy_check_allows_iff
    [of "\<lparr>blocked_ports = [25], allow_internal = True, internal_whitelist = []\<rparr>" "SockV4 0x7F000001 8080"]
  by (simp add: classify_documented [symmetric])
     (simp add: policy_check_def classify_ip_def classify_v4_def v4_octet_def v4_is_loopback_def
        is_whitelisted_def entry_matches_def cidr_contains_def v4_mask_def Let_def)

text \<open>A refusal names its cause: the port if it is 0 or blocked, whatever the address;
  otherwise the reserved range; otherwise the internal class that no setting opened.\<close>

theorem policy_check_denial_reason:
  "policy_check p a = Err r \<longleftrightarrow>
     (if sock_port a = 0 \<or> sock_port a \<in> set (blocked_ports p) then r = BlockedPort (sock_port a)
      else if documented_class (sock_ip a) = Reserved then r = ReservedAddress
      else documented_class (sock_ip a) \<noteq> Public \<and> \<not> is_whitelisted p a \<and>
           \<not> (documented_class (sock_ip a) = Private \<and> allow_internal p) \<and>
           r = InternalAddress (documented_class (sock_ip a)))"
  unfolding classify_documented [symmetric]
  by (auto simp: policy_check_def Let_def split: ip_class.splits)

end
