(* ===== verification/Ban_List.thy ===== *)
theory Ban_List
  imports Ip_Class "HOL-Library.AList"
begin

text \<open>
  Brute-force protection: \<open>src/policy/ban_config.rs\<close>, \<open>ban_list_inner.rs\<close> and \<open>ban_list.rs\<close>.
  The \<open>HashMap\<close> is an association list with distinct keys (only order-independent operations are
  used on it); time is passed in, as in the source. \<open>BanList\<close> runs each operation under a mutex,
  so its operations are those of \<open>BanListInner\<close>, one at a time, at the instant read before the
  lock is taken; the threads that share it are in \<open>Ban_Lock\<close>. The locale \<open>sliding_ban\<close> is the contract of the ban table: what it shows of each
  client address is a sliding window of failures.
\<close>

section \<open>State\<close>

record ban_config =
  max_failures :: nat
  ban_window :: duration
  ban_duration :: duration
  max_tracked :: usize

datatype failure_verdict = Disabled | Counted nat | Banned | Untracked

record ban_list_stats =
  st_tracked :: usize
  st_banned :: usize

record ban_entry =
  failures :: "instant list"
  banned_at :: "instant option"

definition default_entry :: ban_entry where
  "default_entry = \<lparr>failures = [], banned_at = None\<rparr>"

record ban_list =
  bl_config :: ban_config
  bl_entries :: "(ip_addr \<times> ban_entry) list"
  last_full_purge :: "instant option"

definition FULL_TABLE_PURGE_INTERVAL :: duration where
  "FULL_TABLE_PURGE_INTERVAL = from_secs 1"

section \<open>Operations\<close>

definition ban_list_new :: "ban_config \<Rightarrow> ban_list" where
  "ban_list_new config = \<lparr>bl_config = config, bl_entries = [], last_full_purge = None\<rparr>"

definition ban_key :: "ip_addr \<Rightarrow> ip_addr" where
  "ban_key ip = (case canonical_ip ip of
     V6 v6 \<Rightarrow> V6 (v6 AND push_bit 64 (- 1))
   | V4 v4 \<Rightarrow> V4 v4)"

definition ban_active_at :: "duration \<Rightarrow> instant option \<Rightarrow> instant \<Rightarrow> bool" where
  "ban_active_at duration banned now =
     (case banned of None \<Rightarrow> False | Some at \<Rightarrow> saturating_duration_since now at < duration)"

definition ban_active :: "ban_list \<Rightarrow> ban_entry \<Rightarrow> instant \<Rightarrow> bool" where
  "ban_active bl entry now = ban_active_at (ban_duration (bl_config bl)) (banned_at entry) now"

definition is_banned :: "ban_list \<Rightarrow> ip_addr \<Rightarrow> instant \<Rightarrow> bool" where
  "is_banned bl ip now =
     (case map_of (bl_entries bl) (ban_key ip) of
        None \<Rightarrow> False
      | Some entry \<Rightarrow> ban_active bl entry now)"

definition entry_live :: "ban_config \<Rightarrow> instant \<Rightarrow> ban_entry \<Rightarrow> bool" where
  "entry_live config now entry \<longleftrightarrow>
     ban_active_at (ban_duration config) (banned_at entry) now \<or>
     list_ex (\<lambda>at. saturating_duration_since now at < ban_window config) (failures entry)"

definition purge :: "ban_list \<Rightarrow> instant \<Rightarrow> usize \<times> ban_list" where
  "purge bl now =
     (let before = length (bl_entries bl);
          kept = filter (\<lambda>(_, entry). entry_live (bl_config bl) now entry) (bl_entries bl)
      in (before - length kept, bl\<lparr>bl_entries := kept\<rparr>))"

definition ban_stats :: "ban_list \<Rightarrow> instant \<Rightarrow> ban_list_stats" where
  "ban_stats bl now =
     \<lparr>st_tracked = length (bl_entries bl),
      st_banned = length (filter (\<lambda>entry. ban_active bl entry now) (map snd (bl_entries bl)))\<rparr>"

definition make_room :: "ban_list \<Rightarrow> instant \<Rightarrow> bool \<times> ban_list" where
  "make_room bl now =
     (if length (bl_entries bl) < max_tracked (bl_config bl) then (True, bl)
      else
        let purge_due = (case last_full_purge bl of
              None \<Rightarrow> True
            | Some at \<Rightarrow> saturating_duration_since now at \<ge> FULL_TABLE_PURGE_INTERVAL);
            bl' = (if purge_due then snd (purge (bl\<lparr>last_full_purge := Some now\<rparr>) now) else bl)
        in (length (bl_entries bl') < max_tracked (bl_config bl'), bl'))"

definition entry_or_default :: "ban_list \<Rightarrow> ip_addr \<Rightarrow> ban_entry" where
  "entry_or_default bl key = (case map_of (bl_entries bl) key of None \<Rightarrow> default_entry | Some e \<Rightarrow> e)"

definition count_failure :: "ban_list \<Rightarrow> ip_addr \<Rightarrow> instant \<Rightarrow> failure_verdict \<times> ban_list" where
  "count_failure bl key now =
     (let config = bl_config bl;
          entry = entry_or_default bl key;
          store = (\<lambda>e. bl\<lparr>bl_entries := AList.update key e (bl_entries bl)\<rparr>)
      in if ban_active_at (ban_duration config) (banned_at entry) now then (Banned, store entry)
         else
           let recent = filter (\<lambda>at. saturating_duration_since now at < ban_window config) (failures entry) @ [now];
               threshold = max_failures config
           in if length recent \<ge> threshold
              then (Banned, store \<lparr>failures = [], banned_at = Some now\<rparr>)
              else (Counted (length recent), store \<lparr>failures = recent, banned_at = None\<rparr>))"

definition record_failure :: "ban_list \<Rightarrow> ip_addr \<Rightarrow> instant \<Rightarrow> failure_verdict \<times> ban_list" where
  "record_failure bl ip now =
     (if max_failures (bl_config bl) = 0 then (Disabled, bl)
      else
        let key = ban_key ip in
        if map_of (bl_entries bl) key = None
        then (let (room, bl') = make_room bl now
              in if \<not> room then (Untracked, bl') else count_failure bl' key now)
        else count_failure bl key now)"

section \<open>Invariant\<close>

text \<open>Distinct keys, at most \<open>max_tracked\<close> of them; no entry holds \<open>max_failures\<close> failures (they
  would have become a ban) and a banned entry holds none.\<close>

definition entry_ok :: "ban_config \<Rightarrow> ban_entry \<Rightarrow> bool" where
  "entry_ok config e \<longleftrightarrow>
     length (failures e) < max_failures config \<and>
     (banned_at e \<noteq> None \<longrightarrow> failures e = [])"

definition ban_inv :: "ban_list \<Rightarrow> bool" where
  "ban_inv bl \<longleftrightarrow>
     distinct (map fst (bl_entries bl)) \<and>
     length (bl_entries bl) \<le> max_tracked (bl_config bl) \<and>
     (\<forall>e \<in> snd ` set (bl_entries bl). entry_ok (bl_config bl) e)"

named_theorems ban_simps

lemma ban_list_new_inv: "ban_inv (ban_list_new config)"
  by (simp add: ban_inv_def ban_list_new_def)

lemma purge_fields [ban_simps]:
  "bl_config (snd (purge bl now)) = bl_config bl"
  "bl_entries (snd (purge bl now)) =
     filter (\<lambda>(_, entry). entry_live (bl_config bl) now entry) (bl_entries bl)"
  "last_full_purge (snd (purge bl now)) = last_full_purge bl"
  by (simp_all add: purge_def Let_def)

lemma ban_inv_last_purge [simp]: "ban_inv (bl\<lparr>last_full_purge := x\<rparr>) = ban_inv bl"
  by (simp add: ban_inv_def)

lemma purge_inv: "ban_inv bl \<Longrightarrow> ban_inv (snd (purge bl now))"
  by (auto simp: ban_inv_def ban_simps distinct_map_fst_filter intro: order_trans [OF length_filter_le])

lemma make_room_inv: "ban_inv bl \<Longrightarrow> ban_inv (snd (make_room bl now))"
  by (simp add: make_room_def Let_def purge_inv)

lemma make_room_config [ban_simps]: "bl_config (snd (make_room bl now)) = bl_config bl"
  by (simp add: make_room_def Let_def ban_simps)

lemma make_room_True:
  "fst (make_room bl now) \<Longrightarrow> length (bl_entries (snd (make_room bl now))) < max_tracked (bl_config bl)"
  by (auto simp: make_room_def Let_def ban_simps split: if_splits)

lemma count_failure_config [ban_simps]: "bl_config (snd (count_failure bl key now)) = bl_config bl"
  by (simp add: count_failure_def Let_def)

lemma length_update: "length (AList.update k v xs) =
    (if k \<in> fst ` set xs then length xs else Suc (length xs))"
  by (induction xs) auto

lemma store_inv:
  assumes "ban_inv bl" and "entry_ok (bl_config bl) e"
    and "map_of (bl_entries bl) key = None \<Longrightarrow> length (bl_entries bl) < max_tracked (bl_config bl)"
  shows "ban_inv (bl\<lparr>bl_entries := AList.update key e (bl_entries bl)\<rparr>)"
proof -
  have "snd ` set (AList.update key e xs) \<subseteq> insert e (snd ` set xs)" for xs
    by (induction xs) auto
  then have "\<forall>x \<in> snd ` set (AList.update key e (bl_entries bl)). entry_ok (bl_config bl) x"
    using assms(1,2) unfolding ban_inv_def by blast
  then show ?thesis
    using assms by (auto simp: ban_inv_def distinct_update length_update map_of_eq_None_iff Suc_le_eq)
qed

lemma count_failure_inv:
  assumes inv: "ban_inv bl" and pos: "0 < max_failures (bl_config bl)"
    and room: "map_of (bl_entries bl) key = None \<Longrightarrow> length (bl_entries bl) < max_tracked (bl_config bl)"
  shows "ban_inv (snd (count_failure bl key now))"
proof -
  have "entry_ok (bl_config bl) (entry_or_default bl key)"
    using inv pos
    by (auto simp: entry_or_default_def ban_inv_def entry_ok_def default_entry_def
             dest!: map_of_SomeD split: option.split)
  then show ?thesis
    using pos store_inv [OF inv _ room]
    by (auto simp: count_failure_def Let_def entry_ok_def)
qed

lemma record_failure_config [ban_simps]: "bl_config (snd (record_failure bl ip now)) = bl_config bl"
  by (auto simp: record_failure_def Let_def ban_simps split: prod.split)
     (metis make_room_config count_failure_config snd_conv)+

lemma record_failure_inv: "ban_inv bl \<Longrightarrow> ban_inv (snd (record_failure bl ip now))"
proof -
  assume inv: "ban_inv bl"
  obtain room bl' where mr: "make_room bl now = (room, bl')" by (cases "make_room bl now")
  then have "ban_inv bl'" and "bl_config bl' = bl_config bl"
    and "room \<Longrightarrow> length (bl_entries bl') < max_tracked (bl_config bl')"
    using make_room_inv [OF inv, of now] make_room_config [of bl now] make_room_True [of bl now] by auto
  then show ?thesis
    using inv mr by (auto simp: record_failure_def Let_def intro!: count_failure_inv)
qed

section \<open>What the table shows of a client\<close>

text \<open>The view of a key at an instant: its failures still inside the window and its ban, if one is
  active. An absent key shows the same as an expired one.\<close>

definition ban_view :: "ban_list \<Rightarrow> instant \<Rightarrow> ip_addr \<Rightarrow> instant list \<times> instant option" where
  "ban_view bl now key =
     (case map_of (bl_entries bl) key of
        None \<Rightarrow> ([], None)
      | Some e \<Rightarrow>
          (filter (\<lambda>at. now - at < ban_window (bl_config bl)) (failures e),
           if ban_active bl e now then banned_at e else None))"

lemma entry_live_iff_view:
  "entry_live config now e \<longleftrightarrow>
     filter (\<lambda>at. now - at < ban_window config) (failures e) \<noteq> [] \<or>
     ban_active_at (ban_duration config) (banned_at e) now"
  by (auto simp: entry_live_def list_ex_iff filter_empty_conv saturating_duration_since_def)

lemma is_banned_view: "is_banned bl ip now \<longleftrightarrow> snd (ban_view bl now (ban_key ip)) \<noteq> None"
  by (auto simp: is_banned_def ban_view_def ban_active_def ban_active_at_def split: option.splits)

lemma ban_view_purge [ban_simps]:
  assumes "ban_inv bl"
  shows "ban_view (snd (purge bl now)) now key = ban_view bl now key"
proof -
  have d: "distinct (map fst (bl_entries bl))" using assms by (simp add: ban_inv_def)
  show ?thesis
    by (auto simp: ban_view_def ban_simps map_of_filter_key [OF d] ban_active_def entry_live_iff_view
             split: option.split)
qed

lemma ban_view_last_purge [simp]: "ban_view (bl\<lparr>last_full_purge := x\<rparr>) now key = ban_view bl now key"
  by (simp add: ban_view_def ban_active_def split: option.split)

lemma ban_view_make_room:
  assumes "ban_inv bl"
  shows "ban_view (snd (make_room bl now)) now key = ban_view bl now key"
  using ban_view_purge [of "bl\<lparr>last_full_purge := Some now\<rparr>" now key] assms
  by (auto simp: make_room_def Let_def)

text \<open>The specification: one failure of a client whose recent failures and ban are \<open>(fs, b)\<close>.\<close>

definition fail_spec :: "ban_config \<Rightarrow> instant \<Rightarrow> instant list \<times> instant option \<Rightarrow>
    failure_verdict \<times> (instant list \<times> instant option)" where
  "fail_spec config now v =
     (if snd v \<noteq> None then (Banned, v)
      else if Suc (length (fst v)) \<ge> max_failures config then (Banned, ([], Some now))
      else (Counted (Suc (length (fst v))), (fst v @ [now], None)))"

lemma ban_view_absent: "map_of (bl_entries bl) key = None \<Longrightarrow> ban_view bl now key = ([], None)"
  by (simp add: ban_view_def)

lemma ban_view_store:
  "ban_view (bl\<lparr>bl_entries := AList.update key e (bl_entries bl)\<rparr>) now k =
     (if k = key then (filter (\<lambda>at. now - at < ban_window (bl_config bl)) (failures e),
                       if ban_active bl e now then banned_at e else None)
      else ban_view bl now k)"
  by (simp add: ban_view_def ban_active_def update_conv' split: option.split)

lemma ban_view_entry:
  "ban_view bl now key =
     (filter (\<lambda>at. now - at < ban_window (bl_config bl)) (failures (entry_or_default bl key)),
      if ban_active bl (entry_or_default bl key) now
      then banned_at (entry_or_default bl key) else None)"
  by (simp add: ban_view_def entry_or_default_def default_entry_def split: option.split)

lemma count_failure_view:
  assumes "0 < ban_window (bl_config bl)" and "0 < ban_duration (bl_config bl)"
  shows "fst (count_failure bl key now) = fst (fail_spec (bl_config bl) now (ban_view bl now key)) \<and>
    ban_view (snd (count_failure bl key now)) now k =
      (if k = key then snd (fail_spec (bl_config bl) now (ban_view bl now key)) else ban_view bl now k)"
proof (cases "ban_active bl (entry_or_default bl key) now")
  case True
  then have "banned_at (entry_or_default bl key) \<noteq> None"
    by (auto simp: ban_active_def ban_active_at_def split: option.splits)
  with True show ?thesis
    by (auto simp: count_failure_def Let_def fail_spec_def ban_view_store ban_view_entry [of bl now key]
          simp flip: ban_active_def)
next
  case False
  with assms show ?thesis
    by (auto simp: count_failure_def Let_def fail_spec_def ban_view_store ban_view_entry [of bl now key]
          ban_active_def ban_active_at_def saturating_duration_since_def)
qed

lemma record_failure_view:
  fixes bl :: ban_list and ip :: ip_addr and now :: instant
  assumes "ban_inv bl" and "0 < max_failures (bl_config bl)"
    and "0 < ban_window (bl_config bl)" and "0 < ban_duration (bl_config bl)"
  defines "v \<equiv> ban_view bl now (ban_key ip)"
  shows "if fst (record_failure bl ip now) = Untracked
     then ban_view (snd (record_failure bl ip now)) now k = ban_view bl now k
     else fst (record_failure bl ip now) = fst (fail_spec (bl_config bl) now v) \<and>
          ban_view (snd (record_failure bl ip now)) now k =
            (if k = ban_key ip then snd (fail_spec (bl_config bl) now v) else ban_view bl now k)"
proof -
  obtain room bl' where mr: "make_room bl now = (room, bl')" by (cases "make_room bl now")
  have view': "ban_view bl' now key = ban_view bl now key" for key
    using ban_view_make_room [OF assms(1), of now key] mr by simp
  have conf': "bl_config bl' = bl_config bl" using make_room_config [of bl now] mr by simp
  have not_untracked: "fst (fail_spec c t w) \<noteq> Untracked" for c t w
    by (simp add: fail_spec_def)
  have step: "fst (count_failure b (ban_key ip) now) = fst (fail_spec (bl_config bl) now v) \<and>
      ban_view (snd (count_failure b (ban_key ip) now)) now k =
        (if k = ban_key ip then snd (fail_spec (bl_config bl) now v) else ban_view bl now k)"
    if "b = bl \<or> b = bl'" for b
    using count_failure_view [of b "ban_key ip" now k] that assms view' conf' by (auto simp: v_def)
  show ?thesis
    using step [of bl] step [of bl'] assms(2) mr view' not_untracked
    by (auto simp: record_failure_def Let_def)
qed

section \<open>The contract: a sliding window per client\<close>

definition age_view :: "ban_config \<Rightarrow> instant \<Rightarrow> instant list \<times> instant option \<Rightarrow>
    instant list \<times> instant option" where
  "age_view config now v =
     (filter (\<lambda>at. now - at < ban_window config) (fst v),
      case snd v of None \<Rightarrow> None
                  | Some at \<Rightarrow> if now - at < ban_duration config then Some at else None)"

lemma ban_view_age:
  assumes "now \<le> now'"
  shows "ban_view bl now' k = age_view (bl_config bl) now' (ban_view bl now k)"
  using assms
  by (auto simp: ban_view_def age_view_def ban_active_def ban_active_at_def
        saturating_duration_since_def intro!: filter_cong split: option.splits)

lemma ban_view_bound:
  assumes "ban_inv bl" and "0 < max_failures (bl_config bl)"
  shows "length (fst (ban_view bl now k)) < max_failures (bl_config bl)"
proof -
  have "length (failures e) < max_failures (bl_config bl)" if "map_of (bl_entries bl) k = Some e" for e
    using assms(1) map_of_SomeD [OF that] by (force simp: ban_inv_def entry_ok_def)
  then show ?thesis
    using assms(2)
    by (auto simp: ban_view_def split: option.split intro: le_less_trans [OF length_filter_le])
qed

datatype ban_event = Failure ip_addr (event_time: instant) | Purge (event_time: instant)

fun run_events :: "('s \<Rightarrow> ip_addr \<Rightarrow> instant \<Rightarrow> failure_verdict \<times> 's) \<Rightarrow> ('s \<Rightarrow> instant \<Rightarrow> 's) \<Rightarrow>
    's \<Rightarrow> ban_event list \<Rightarrow> 's" where
  "run_events fail forget s [] = s"
| "run_events fail forget s (Failure ip t # es) = run_events fail forget (snd (fail s ip t)) es"
| "run_events fail forget s (Purge t # es) = run_events fail forget (forget s t) es"

fun run_verdicts :: "('s \<Rightarrow> ip_addr \<Rightarrow> instant \<Rightarrow> failure_verdict \<times> 's) \<Rightarrow> ('s \<Rightarrow> instant \<Rightarrow> 's) \<Rightarrow>
    's \<Rightarrow> ban_event list \<Rightarrow> (ip_addr \<times> failure_verdict) list" where
  "run_verdicts fail forget s [] = []"
| "run_verdicts fail forget s (Failure ip t # es) =
     (ip, fst (fail s ip t)) # run_verdicts fail forget (snd (fail s ip t)) es"
| "run_verdicts fail forget s (Purge t # es) = run_verdicts fail forget (forget s t) es"

fun failure_of :: "(ip_addr \<Rightarrow> ip_addr) \<Rightarrow> ip_addr \<Rightarrow> ban_event \<Rightarrow> bool" where
  "failure_of key k (Failure ip _) \<longleftrightarrow> key ip = k"
| "failure_of key k (Purge _) \<longleftrightarrow> False"

locale sliding_ban =
  fixes fail :: "'s \<Rightarrow> ip_addr \<Rightarrow> instant \<Rightarrow> failure_verdict \<times> 's"
    and forget :: "'s \<Rightarrow> instant \<Rightarrow> 's"
    and view :: "'s \<Rightarrow> instant \<Rightarrow> ip_addr \<Rightarrow> instant list \<times> instant option"
    and key :: "ip_addr \<Rightarrow> ip_addr"
    and valid :: "'s \<Rightarrow> bool"
    and config :: ban_config
  assumes valid_fail: "valid s \<Longrightarrow> valid (snd (fail s ip now))"
    and valid_forget: "valid s \<Longrightarrow> valid (forget s now)"
    and view_age: "valid s \<Longrightarrow> now \<le> now' \<Longrightarrow> view s now' k = age_view config now' (view s now k)"
    and view_forget: "valid s \<Longrightarrow> view (forget s now) now k = view s now k"
    and fail_untracked: "valid s \<Longrightarrow> fst (fail s ip now) = Untracked \<Longrightarrow>
      view (snd (fail s ip now)) now k = view s now k"
    and fail_tracked: "valid s \<Longrightarrow> fst (fail s ip now) \<noteq> Untracked \<Longrightarrow>
      fst (fail s ip now) = fst (fail_spec config now (view s now (key ip))) \<and>
      view (snd (fail s ip now)) now k =
        (if k = key ip then snd (fail_spec config now (view s now (key ip))) else view s now k)"
    and view_bound: "valid s \<Longrightarrow> length (fst (view s now k)) < max_failures config"
begin

lemma fail_other: "valid s \<Longrightarrow> k \<noteq> key ip \<Longrightarrow> view (snd (fail s ip now)) now k = view s now k"
  using fail_tracked fail_untracked by (cases "fst (fail s ip now) = Untracked") auto

lemma fail_counted:
  assumes "valid s" and "fst (fail s ip now) = Counted n"
  shows "view (snd (fail s ip now)) now (key ip) = (fst (view s now (key ip)) @ [now], None)"
  using fail_tracked [OF assms(1), of ip now "key ip"] assms(2)
  by (auto simp: fail_spec_def split: if_splits)

lemma recent_survive:
  assumes "valid s" and "t \<le> now" and "now - t0 < ban_window config"
  shows "filter (\<lambda>at. t0 \<le> at) (fst (view s now k)) = filter (\<lambda>at. t0 \<le> at) (fst (view s t k))"
  using view_age [OF assms(1,2), of k] assms(3)
  by (auto simp: age_view_def intro!: filter_cong)

lemma failures_in_window:
  assumes "valid s" and "sorted (t # map event_time es)" and "t0 \<le> t"
    and "\<forall>e \<in> set es. event_time e - t0 < ban_window config"
    and "\<forall>(ip, v) \<in> set (run_verdicts fail forget s es). key ip = k \<longrightarrow> (\<exists>n. v = Counted n)"
    and "m \<le> length (filter (\<lambda>at. t0 \<le> at) (fst (view s t k)))"
  shows "m + length (filter (failure_of key k) es) < max_failures config"
  using assms
proof (induction es arbitrary: s t m)
  case Nil
  from Nil.prems(6) have "m \<le> length (fst (view s t k))"
    by (rule order_trans) (rule length_filter_le)
  with Nil.prems(1) view_bound [of s t k] show ?case by simp
next
  case (Cons e es)
  define now where "now = event_time e"
  have now: "t \<le> now" "t0 \<le> now" "now - t0 < ban_window config" "sorted (now # map event_time es)"
    using Cons.prems by (auto simp: now_def)
  have same: "filter (\<lambda>at. t0 \<le> at) (fst (view s now k)) = filter (\<lambda>at. t0 \<le> at) (fst (view s t k))"
    using Cons.prems(1) now by (intro recent_survive) auto
  show ?case
  proof (cases e)
    case (Purge t')
    then have "t' = now" by (simp add: now_def)
    then show ?thesis
      using Cons.prems now same Purge
        Cons.IH [of "forget s now" now m] valid_forget [of s now] view_forget [of s now k] by simp
  next
    case (Failure ip t')
    then have t': "t' = now" by (simp add: now_def)
    let ?s' = "snd (fail s ip now)"
    have v': "valid ?s'" using Cons.prems(1) by (rule valid_fail)
    show ?thesis
    proof (cases "key ip = k")
      case True
      then obtain n where n: "fst (fail s ip now) = Counted n"
        using Cons.prems(5) Failure t' by auto
      have "fst (view ?s' now k) = fst (view s now k) @ [now]"
        using fail_counted [OF Cons.prems(1) n] True by simp
      then have "Suc m \<le> length (filter (\<lambda>at. t0 \<le> at) (fst (view ?s' now k)))"
        using Cons.prems(6) same now by simp
      then show ?thesis
        using Cons.IH [of ?s' now "Suc m"] v' Cons.prems now True Failure t' by simp
    next
      case False
      then show ?thesis
        using Cons.IH [of ?s' now m] v' Cons.prems now same Failure t' fail_other [of s k ip now] by simp
    qed
  qed
qed

lemma ban_persists:
  assumes "valid s" and "sorted (t # map event_time es @ [now])"
    and "snd (view s t k) = Some at" and "now - at < ban_duration config"
  shows "snd (view (run_events fail forget s es) now k) = Some at"
  using assms
proof (induction es arbitrary: s t)
  case Nil
  then show ?case using view_age [of s t now k] by (simp add: age_view_def)
next
  case (Cons e es)
  define t' where "t' = event_time e"
  have t': "t \<le> t'" "t' \<le> now" "sorted (t' # map event_time es @ [now])"
    using Cons.prems(2) by (auto simp: t'_def)
  have held: "snd (view s t' k) = Some at"
    using view_age [OF Cons.prems(1) t'(1), of k] Cons.prems(3,4) t'(2) by (simp add: age_view_def)
  show ?case
  proof (cases e)
    case (Purge u)
    then have "u = t'" by (simp add: t'_def)
    moreover have "snd (view (run_events fail forget (forget s t') es) now k) = Some at"
      using Cons.prems(1,4) t'(3) held view_forget [of s t' k]
      by (intro Cons.IH [where t = t'] valid_forget) simp_all
    ultimately show ?thesis by (simp add: Purge)
  next
    case (Failure ip u)
    then have u: "u = t'" by (simp add: t'_def)
    have "snd (view (snd (fail s ip t')) t' k) = Some at"
    proof (cases "fst (fail s ip t') = Untracked")
      case True
      then show ?thesis using fail_untracked [OF Cons.prems(1) True] held by simp
    next
      case False
      then show ?thesis
        using fail_tracked [OF Cons.prems(1) False, of k] held by (auto simp: fail_spec_def)
    qed
    then have "snd (view (run_events fail forget (snd (fail s ip t')) es) now k) = Some at"
      using Cons.prems(1,4) t'(3) by (intro Cons.IH [where t = t'] valid_fail) simp_all
    then show ?thesis by (simp add: Failure u)
  qed
qed

end

section \<open>The ban list keeps the contract\<close>

definition enabled_config :: "ban_config \<Rightarrow> bool" where
  "enabled_config config \<longleftrightarrow>
     0 < max_failures config \<and> 0 < ban_window config \<and> 0 < ban_duration config"

definition ban_valid :: "ban_config \<Rightarrow> ban_list \<Rightarrow> bool" where
  "ban_valid config bl \<longleftrightarrow> enabled_config config \<and> bl_config bl = config \<and> ban_inv bl"

definition purged :: "ban_list \<Rightarrow> instant \<Rightarrow> ban_list" where
  "purged bl now = snd (purge bl now)"

interpretation ban_table: sliding_ban record_failure purged ban_view ban_key "ban_valid config" config
proof
  fix s ip now now' k
  assume v: "ban_valid config s"
  then have inv: "ban_inv s" "bl_config s = config" "0 < max_failures (bl_config s)"
      "0 < ban_window (bl_config s)" "0 < ban_duration (bl_config s)"
    by (auto simp: ban_valid_def enabled_config_def)
  show "ban_valid config (snd (record_failure s ip now))"
    using v by (simp add: ban_valid_def record_failure_inv ban_simps)
  show "ban_valid config (purged s now)"
    using v by (simp add: ban_valid_def purged_def purge_inv ban_simps)
  show "ban_view (purged s now) now k = ban_view s now k"
    by (simp add: purged_def ban_view_purge inv)
  show "length (fst (ban_view s now k)) < max_failures config"
    using ban_view_bound [OF inv(1,3)] inv(2) by simp
  show "now \<le> now' \<Longrightarrow> ban_view s now' k = age_view config now' (ban_view s now k)"
    using ban_view_age [of now now' s k] inv(2) by simp
  note step = record_failure_view [OF inv(1,3,4,5), of ip now k, unfolded inv(2)]
  show "fst (record_failure s ip now) = Untracked \<Longrightarrow>
      ban_view (snd (record_failure s ip now)) now k = ban_view s now k"
    using step by simp
  show "fst (record_failure s ip now) \<noteq> Untracked \<Longrightarrow>
      fst (record_failure s ip now) = fst (fail_spec config now (ban_view s now (ban_key ip))) \<and>
      ban_view (snd (record_failure s ip now)) now k =
        (if k = ban_key ip then snd (fail_spec config now (ban_view s now (ban_key ip)))
         else ban_view s now k)"
    using step by simp
qed

lemma run_events_inv:
  "ban_inv s \<Longrightarrow> ban_inv (run_events record_failure purged s es) \<and>
     bl_config (run_events record_failure purged s es) = bl_config s"
proof (induction es arbitrary: s)
  case (Cons e es)
  then show ?case
    by (cases e) (simp_all add: purged_def purge_inv record_failure_inv ban_simps)
qed simp

text \<open>\<^bold>\<open>C28.\<close> Every ban table reached from a new one by any sequence of failures and purges, in any
  order of their instants, keeps its invariant: distinct keys, never more than \<open>max_tracked\<close>
  addresses, fewer than \<open>max_failures\<close> stored failures per address and none beside a ban.\<close>

theorem ban_table_bounded:
  fixes config :: ban_config and es :: "ban_event list"
  defines "bl \<equiv> run_events record_failure purged (ban_list_new config) es"
  shows "distinct (map fst (bl_entries bl)) \<and> length (bl_entries bl) \<le> max_tracked config \<and>
    list_all (\<lambda>(_, e). length (failures e) < max_failures config \<and>
                       (banned_at e = None \<or> failures e = [])) (bl_entries bl)"
  using run_events_inv [OF ban_list_new_inv, of config es]
  by (auto simp: bl_def ban_inv_def entry_ok_def ban_list_new_def list_all_iff)

text \<open>The addresses of the table that still matter at \<open>now\<close>.\<close>

definition live_keys :: "ban_list \<Rightarrow> instant \<Rightarrow> ip_addr list" where
  "live_keys bl now = filter (\<lambda>k. ban_view bl now k \<noteq> ([], None)) (map fst (bl_entries bl))"

lemma live_keys_purge:
  assumes "ban_inv bl"
  shows "length (bl_entries (snd (purge bl now))) = length (live_keys bl now)"
proof -
  have live: "ban_view bl now k \<noteq> ([], None) \<longleftrightarrow> entry_live (bl_config bl) now e" if "(k, e) \<in> set (bl_entries bl)" for k e
  proof -
    have "map_of (bl_entries bl) k = Some e" using assms that by (simp add: ban_inv_def)
    then show ?thesis
      by (auto simp: ban_view_def entry_live_iff_view ban_active_def ban_active_at_def split: option.splits)
  qed
  have "map fst (filter (\<lambda>(_, e). entry_live (bl_config bl) now e) (bl_entries bl)) = live_keys bl now"
    unfolding live_keys_def filter_map
    by (intro arg_cong [where f = "map fst"] filter_cong) (auto dest: live)
  from arg_cong [OF this, of length] show ?thesis by (simp add: purge_def Let_def)
qed

lemma count_failure_tracked: "fst (count_failure bl key now) \<noteq> Untracked"
  by (simp add: count_failure_def Let_def)

lemma untracked_iff:
  assumes "ban_valid config bl"
  shows "fst (record_failure bl ip now) = Untracked \<longleftrightarrow>
    ban_key ip \<notin> set (map fst (bl_entries bl)) \<and>
    max_tracked config \<le>
      (if \<forall>at. last_full_purge bl = Some at \<longrightarrow> from_secs 1 \<le> now - at
       then length (live_keys bl now) else length (bl_entries bl))"
proof -
  let ?bl = "bl\<lparr>last_full_purge := Some now\<rparr>"
  have inv: "ban_inv ?bl" "max_failures (bl_config bl) \<noteq> 0" "bl_config bl = config"
    using assms by (auto simp: ban_valid_def enabled_config_def ban_inv_def)
  have "ban_view ?bl now k = ban_view bl now k" for k
    by (simp add: ban_view_def ban_active_def split: option.split)
  then have "live_keys ?bl now = live_keys bl now" by (simp add: live_keys_def)
  with live_keys_purge [OF inv(1)] have len: "length (bl_entries (snd (purge ?bl now))) = length (live_keys bl now)"
    by simp
  have le: "length (live_keys bl now) \<le> length (bl_entries bl)"
    unfolding live_keys_def by (metis length_filter_le length_map)
  have config: "bl_config (snd (purge ?bl now)) = config" using inv(3) by (simp add: purge_def Let_def)
  have "\<not> fst (make_room bl now) \<longleftrightarrow> max_tracked config \<le>
      (if \<forall>at. last_full_purge bl = Some at \<longrightarrow> from_secs 1 \<le> now - at
       then length (live_keys bl now) else length (bl_entries bl))"
    using le len config inv(3)
    by (auto simp: make_room_def Let_def FULL_TABLE_PURGE_INTERVAL_def saturating_duration_since_def split: option.splits)
  moreover have "map_of (bl_entries bl) (ban_key ip) = None \<longleftrightarrow> ban_key ip \<notin> set (map fst (bl_entries bl))"
    by (simp add: map_of_eq_None_iff)
  ultimately show ?thesis
    using inv(2) by (auto simp: record_failure_def count_failure_tracked Let_def split: prod.splits)
qed

text \<open>\<^bold>\<open>C11.\<close> \<open>record_failure\<close> implements the sliding-window specification. On a table with banning
  enabled the verdict is the one the specification gives for the client's recent failures and
  active ban, the client's view changes accordingly, and every other client's view is untouched. The
  verdict is \<open>Untracked\<close>, and no view changes, exactly when the client is not in the table yet and the table is
  full: of addresses with recent failures or a running ban, or, within a second of the last purge of a full
  table, of any. A client in the table is always counted.\<close>

theorem record_failure_refines_window:
  assumes "ban_valid config bl"
  shows "(fst (record_failure bl ip now) = Untracked \<longleftrightarrow>
      ban_key ip \<notin> set (map fst (bl_entries bl)) \<and>
      max_tracked config \<le>
        (if \<forall>at. last_full_purge bl = Some at \<longrightarrow> from_secs 1 \<le> now - at
         then length (live_keys bl now) else length (bl_entries bl))) \<and>
    (if fst (record_failure bl ip now) = Untracked
     then ban_view (snd (record_failure bl ip now)) now k = ban_view bl now k
     else fst (record_failure bl ip now) = fst (fail_spec config now (ban_view bl now (ban_key ip))) \<and>
          ban_view (snd (record_failure bl ip now)) now k =
            (if k = ban_key ip then snd (fail_spec config now (ban_view bl now (ban_key ip)))
             else ban_view bl now k))"
  using untracked_iff [OF assms] ban_table.fail_tracked [OF assms] ban_table.fail_untracked [OF assms] by simp

definition small_ban_config :: ban_config where
  "small_ban_config = \<lparr>max_failures = 2, ban_window = 10, ban_duration = 100, max_tracked = 3\<rparr>"

lemma small_ban_valid: "ban_valid small_ban_config (ban_list_new small_ban_config)"
  by (simp add: ban_valid_def enabled_config_def small_ban_config_def ban_list_new_def ban_inv_def)

theorem record_failure_refines_window_witness:
  "ban_valid small_ban_config (ban_list_new small_ban_config) \<and>
   fst (record_failure (ban_list_new small_ban_config) (V4 7) 1) = Counted 1"
  using small_ban_valid record_failure_refines_window [OF small_ban_valid, of "V4 7" 1 "V4 7"]
  by (simp add: record_failure_def make_room_def count_failure_def entry_or_default_def
        default_entry_def ban_list_new_def small_ban_config_def ban_active_at_def Let_def)

text \<open>Brute force is bounded: in any run of failures and purges in time order that lies within
  one window, if every failure of a client was merely counted (no ban verdict, no untracked one)
  then that client failed fewer than \<open>max_failures\<close> times. Failures of other clients and purges
  in between do not help.\<close>

theorem failures_within_window_bounded:
  assumes "ban_valid config bl"
    and "sorted (t0 # map event_time es)"
    and "\<forall>e \<in> set es. event_time e - t0 < ban_window config"
    and "\<forall>(ip, v) \<in> set (run_verdicts record_failure purged bl es).
           ban_key ip = k \<longrightarrow> (\<exists>n. v = Counted n)"
  shows "length (filter (failure_of ban_key k) es) < max_failures config"
  using ban_table.failures_in_window [OF assms(1,2) order_refl assms(3,4), of 0] by simp

theorem failures_within_window_bounded_witness:
  "length (filter (failure_of ban_key (V4 7)) [Failure (V4 7) 3, Failure (V4 8) 4, Purge 5]) < 2"
  using failures_within_window_bounded
    [OF small_ban_valid, of 3 "[Failure (V4 7) 3, Failure (V4 8) 4, Purge 5]" "V4 7"]
  by (simp add: record_failure_def make_room_def count_failure_def entry_or_default_def
        default_entry_def ban_list_new_def small_ban_config_def ban_active_at_def Let_def
        ban_key_def)

text \<open>A ban never ends early: once a client is banned (at the instant its
  entry records), it is reported banned at every later instant before \<open>ban_duration\<close> has passed,
  whatever failures (its own included) and purges happen meanwhile.\<close>

theorem ban_lasts:
  assumes "ban_valid config bl" and "snd (ban_view bl t (ban_key ip)) = Some at"
    and "sorted (t # map event_time es @ [now])" and "now - at < ban_duration config"
  shows "is_banned (run_events record_failure purged bl es) ip now"
  using ban_table.ban_persists [OF assms(1,3,2,4)] by (simp add: is_banned_view)

definition banned_example :: ban_list where
  "banned_example = \<lparr>bl_config = small_ban_config,
     bl_entries = [(V4 7, \<lparr>failures = [], banned_at = Some 5\<rparr>)], last_full_purge = None\<rparr>"

theorem ban_lasts_witness:
  "is_banned (run_events record_failure purged banned_example [Failure (V4 7) 20, Purge 30]) (V4 7) 104"
proof (rule ban_lasts [where config = small_ban_config and t = 5 and at = 5])
  show "ban_valid small_ban_config banned_example"
    by (simp add: ban_valid_def enabled_config_def banned_example_def small_ban_config_def
        ban_inv_def entry_ok_def)
qed (simp_all add: banned_example_def small_ban_config_def ban_view_def ban_active_def
      ban_active_at_def ban_key_def saturating_duration_since_def)

end
