(* ===== verification/Ban_Lock.thy ===== *)
theory Ban_Lock
  imports Ban_List
begin

text \<open>
  \<open>src/policy/ban_list.rs\<close>: the ban list as threads share it. Each method of \<open>BanList\<close> reads the clock and
  then waits for the mutex, so the operations on the table run one at a time, but not in the order of
  their instants. A call is two steps of the machine \<open>bans_step\<close>; the lock is given to any waiting thread. The
  statements here assume nothing about the order of instants.
\<close>

section \<open>Operations in any order of instants\<close>

lemma map_of_filter_kept: "map_of xs k = Some v \<Longrightarrow> P (k, v) \<Longrightarrow> map_of (filter P xs) k = Some v"
  by (induction xs) (auto split: if_splits)

lemma purge_keeps:
  "map_of (bl_entries bl) k = Some e \<Longrightarrow> entry_live (bl_config bl) now e \<Longrightarrow>
     map_of (bl_entries (snd (purge bl now))) k = Some e"
  by (simp add: purge_def Let_def map_of_filter_kept)

lemma make_room_keeps:
  "map_of (bl_entries bl) k = Some e \<Longrightarrow> entry_live (bl_config bl) now e \<Longrightarrow>
     map_of (bl_entries (snd (make_room bl now))) k = Some e"
  using purge_keeps [of "bl\<lparr>last_full_purge := Some now\<rparr>" k e now] by (simp add: make_room_def Let_def)

lemma count_failure_other:
  "k \<noteq> key \<Longrightarrow> map_of (bl_entries (snd (count_failure bl key now))) k = map_of (bl_entries bl) k"
  by (simp add: count_failure_def Let_def update_conv)

lemma record_failure_other:
  assumes "k \<noteq> ban_key ip" and "map_of (bl_entries bl) k = Some e" and "entry_live (bl_config bl) now e"
  shows "map_of (bl_entries (snd (record_failure bl ip now))) k = Some e"
  using assms make_room_keeps [OF assms(2,3)]
  by (auto simp: record_failure_def Let_def count_failure_other split: prod.split)

lemma record_failure_tracked:
  assumes "map_of (bl_entries bl) (ban_key ip) = Some e" and "max_failures (bl_config bl) \<noteq> 0"
  shows "record_failure bl ip now = count_failure bl (ban_key ip) now"
  using assms by (simp add: record_failure_def Let_def)

text \<open>An entry that holds a ban keeps it through every operation at an instant before its end, stale ones
  included.\<close>

definition bans_since :: "ban_list \<Rightarrow> ip_addr \<Rightarrow> instant \<Rightarrow> bool" where
  "bans_since bl k at \<longleftrightarrow> (\<exists>e. map_of (bl_entries bl) k = Some e \<and> banned_at e = Some at)"

lemma bans_since_purge:
  "bans_since bl k at \<Longrightarrow> now - at < ban_duration (bl_config bl) \<Longrightarrow> bans_since (snd (purge bl now)) k at"
  unfolding bans_since_def
  by (metis purge_keeps entry_live_def ban_active_at_def option.simps(5) saturating_duration_since_def)

lemma bans_since_failure:
  assumes "bans_since bl k at" and "now - at < ban_duration (bl_config bl)"
  shows "bans_since (snd (record_failure bl ip now)) k at"
    and "ban_key ip = k \<Longrightarrow> max_failures (bl_config bl) \<noteq> 0 \<Longrightarrow> fst (record_failure bl ip now) = Banned"
proof -
  obtain e where e: "map_of (bl_entries bl) k = Some e" "banned_at e = Some at"
    using assms(1) by (auto simp: bans_since_def)
  have act: "ban_active_at (ban_duration (bl_config bl)) (banned_at e) now"
    using e(2) assms(2) by (simp add: ban_active_at_def saturating_duration_since_def)
  have same: "count_failure bl k now = (Banned, bl\<lparr>bl_entries := AList.update k e (bl_entries bl)\<rparr>)"
    using act e(1) by (simp add: count_failure_def entry_or_default_def Let_def)
  show "fst (record_failure bl ip now) = Banned" if "ban_key ip = k" "max_failures (bl_config bl) \<noteq> 0"
    using record_failure_tracked [of bl ip e now] e(1) that same by simp
  show "bans_since (snd (record_failure bl ip now)) k at"
  proof (cases "ban_key ip = k \<and> max_failures (bl_config bl) \<noteq> 0")
    case True
    then show ?thesis
      using record_failure_tracked [of bl ip e now] e same by (simp add: bans_since_def update_conv)
  next
    case False
    have "entry_live (bl_config bl) now e" using act by (simp add: entry_live_def)
    with False e show ?thesis
      using record_failure_other [of k ip bl e now] by (auto simp: bans_since_def record_failure_def)
  qed
qed

lemma bans_since_banned:
  "bans_since bl (ban_key ip) at \<Longrightarrow> now - at < ban_duration (bl_config bl) \<Longrightarrow> is_banned bl ip now"
  by (auto simp: bans_since_def is_banned_def ban_active_def ban_active_at_def saturating_duration_since_def)

lemma bans_since_view: "snd (ban_view bl t k) = Some at \<Longrightarrow> bans_since bl k at"
  by (auto simp: ban_view_def bans_since_def split: option.splits if_splits)

lemma bans_since_run:
  "bans_since bl k at \<Longrightarrow> list_all (\<lambda>e. event_time e - at < ban_duration (bl_config bl)) es \<Longrightarrow>
     bans_since (run_events record_failure purged bl es) k at"
proof (induction es arbitrary: bl)
  case (Cons e es)
  then show ?case
    using bans_since_failure(1) [of bl k at "event_time e"] bans_since_purge [of bl k at "event_time e"]
    by (cases e) (simp_all add: purged_def ban_simps)
qed simp

text \<open>\<open>n\<close> failures since \<open>t0\<close> are on record.\<close>

definition holds_failures :: "ban_list \<Rightarrow> ip_addr \<Rightarrow> instant \<Rightarrow> nat \<Rightarrow> bool" where
  "holds_failures bl k t0 n \<longleftrightarrow> n = 0 \<or>
     (\<exists>e. map_of (bl_entries bl) k = Some e \<and> n \<le> length (filter (\<lambda>t. t0 \<le> t) (failures e)))"

lemma entry_live_failures:
  assumes "0 < length (filter (\<lambda>t. t0 \<le> t) (failures e))" and "now - t0 < ban_window config"
  shows "entry_live config now e"
proof -
  from assms(1) obtain t where "t \<in> set (failures e)" "t0 \<le> t" by (metis filter_False length_greater_0_conv)
  with assms(2) show ?thesis
    by (auto simp: entry_live_def list_ex_iff saturating_duration_since_def intro!: bexI [of _ t])
qed

lemma holds_failures_purge:
  assumes "holds_failures bl k t0 n" and "now - t0 < ban_window (bl_config bl)"
  shows "holds_failures (snd (purge bl now)) k t0 n"
  using assms entry_live_failures [OF _ assms(2)] purge_keeps unfolding holds_failures_def
  by (metis gr_zeroI le_zero_eq)

lemma holds_failures_other:
  assumes "holds_failures bl k t0 n" and "now - t0 < ban_window (bl_config bl)" and "ban_key ip \<noteq> k"
  shows "holds_failures (snd (record_failure bl ip now)) k t0 n"
  using assms entry_live_failures [OF _ assms(2)] record_failure_other [of k ip bl _ now] unfolding holds_failures_def
  by (metis gr_zeroI le_zero_eq)

lemma count_failure_counted:
  assumes "holds_failures bl k t0 n" and window: "now - t0 < ban_window (bl_config bl)"
    and count: "count_failure bl k now = (Counted j, bl')"
  shows "holds_failures bl' k t0 (if t0 \<le> now then Suc n else n) \<and>
    (if t0 \<le> now then Suc n else n) < max_failures (bl_config bl)"
proof -
  let ?e = "entry_or_default bl k"
  let ?recent = "filter (\<lambda>at. saturating_duration_since now at < ban_window (bl_config bl)) (failures ?e) @ [now]"
  let ?since = "filter (\<lambda>t. t0 \<le> t)"
  have bl': "bl' = bl\<lparr>bl_entries := AList.update k \<lparr>failures = ?recent, banned_at = None\<rparr> (bl_entries bl)\<rparr>"
    and few: "length ?recent < max_failures (bl_config bl)"
    using count by (auto simp: count_failure_def Let_def split: if_splits)
  have "n \<le> length (?since (failures ?e))"
    using assms(1) by (auto simp: holds_failures_def entry_or_default_def split: option.split)
  moreover have "saturating_duration_since now at < ban_window (bl_config bl)" if "t0 \<le> at" for at
    using window that by (simp add: saturating_duration_since_def)
  then have "filter (\<lambda>at. t0 \<le> at \<and> saturating_duration_since now at < ban_window (bl_config bl)) xs = ?since xs" for xs
    by (intro filter_cong) auto
  ultimately have le: "(if t0 \<le> now then Suc n else n) \<le> length (?since ?recent)"
    by (simp add: conj_commute)
  have "(if t0 \<le> now then Suc n else n) < max_failures (bl_config bl)"
    using le le_less_trans [OF length_filter_le few] by (rule le_less_trans)
  with le show ?thesis
    by (auto simp: holds_failures_def bl' update_conv simp del: filter_append length_append)
qed

lemma holds_failures_make_room:
  assumes "holds_failures bl k t0 n" and "now - t0 < ban_window (bl_config bl)"
  shows "holds_failures (snd (make_room bl now)) k t0 n"
  using assms entry_live_failures [OF _ assms(2)] make_room_keeps unfolding holds_failures_def
  by (metis gr_zeroI le_zero_eq)

lemma holds_failures_counted:
  assumes "holds_failures bl k t0 n" and "now - t0 < ban_window (bl_config bl)" and "ban_key ip = k"
    and "record_failure bl ip now = (Counted j, bl')"
  shows "holds_failures bl' k t0 (if t0 \<le> now then Suc n else n) \<and>
    (if t0 \<le> now then Suc n else n) < max_failures (bl_config bl)"
proof -
  have "\<exists>b. count_failure b k now = (Counted j, bl') \<and> (b = bl \<or> b = snd (make_room bl now))"
    using assms(3,4) by (auto simp: record_failure_def Let_def split: if_splits prod.splits)
  then obtain b where b: "count_failure b k now = (Counted j, bl')" "b = bl \<or> b = snd (make_room bl now)"
    by blast
  then have "bl_config b = bl_config bl" "holds_failures b k t0 n"
    using assms(1) holds_failures_make_room [OF assms(1,2)] by (auto simp: make_room_config)
  with count_failure_counted [OF this(2) _ b(1)] assms(2) show ?thesis by simp
qed

section \<open>Threads and the lock\<close>

datatype ban_call = CallIsBanned ip_addr | CallRecordFailure ip_addr | CallPurge | CallStats

datatype ban_answer = AnsBanned bool | AnsVerdict failure_verdict | AnsPurged usize | AnsStats ban_list_stats

text \<open>The body of each method from \<open>lock()\<close> on, at the instant that was read before.\<close>

fun locked_call :: "ban_call \<Rightarrow> instant \<Rightarrow> ban_list \<Rightarrow> ban_answer \<times> ban_list" where
  "locked_call (CallIsBanned ip) now inner = (AnsBanned (is_banned inner ip now), inner)"
| "locked_call (CallRecordFailure ip) now inner =
     (case record_failure inner ip now of (verdict, inner) \<Rightarrow> (AnsVerdict verdict, inner))"
| "locked_call CallPurge now inner = (case purge inner now of (n, inner) \<Rightarrow> (AnsPurged n, inner))"
| "locked_call CallStats now inner = (AnsStats (ban_stats inner now), inner)"

record answered_call =
  ac_thread :: nat
  ac_call :: ban_call
  ac_read :: instant
  ac_locked :: instant
  ac_answer :: ban_answer

record shared_bans =
  sb_inner :: ban_list
  sb_clock :: instant
  sb_waiting :: "(nat \<times> ban_call \<times> instant) list"
  sb_answered :: "answered_call list"

definition shared_bans_new :: "instant \<Rightarrow> ban_config \<Rightarrow> shared_bans" where
  "shared_bans_new now config =
     \<lparr>sb_inner = ban_list_new config, sb_clock = now, sb_waiting = [], sb_answered = []\<rparr>"

inductive bans_step :: "shared_bans \<Rightarrow> shared_bans \<Rightarrow> bool" where
  pass: "sb_clock s \<le> t \<Longrightarrow> bans_step s (s\<lparr>sb_clock := t\<rparr>)"
| enter: "thread \<notin> fst ` set (sb_waiting s) \<Longrightarrow>
    bans_step s (s\<lparr>sb_waiting := sb_waiting s @ [(thread, call, sb_clock s)]\<rparr>)"
| lock: "(thread, call, now) \<in> set (sb_waiting s) \<Longrightarrow> locked_call call now (sb_inner s) = (answer, inner) \<Longrightarrow>
    bans_step s (s\<lparr>sb_inner := inner, sb_waiting := remove1 (thread, call, now) (sb_waiting s),
      sb_answered := sb_answered s @
        [\<lparr>ac_thread = thread, ac_call = call, ac_read = now, ac_locked = sb_clock s, ac_answer = answer\<rparr>]\<rparr>)"

inductive bans_run :: "shared_bans \<Rightarrow> shared_bans \<Rightarrow> bool" for s where
  bans_refl: "bans_run s s"
| bans_trans: "bans_run s s' \<Longrightarrow> bans_step s' s'' \<Longrightarrow> bans_run s s''"

text \<open>No thread waits with an instant later than the clock.\<close>

definition waits_ok :: "shared_bans \<Rightarrow> bool" where
  "waits_ok s \<longleftrightarrow> (\<forall>(thread, call, now) \<in> set (sb_waiting s). now \<le> sb_clock s)"

lemma bans_step_waits: "bans_step s s' \<Longrightarrow> waits_ok s \<Longrightarrow> waits_ok s' \<and> sb_clock s \<le> sb_clock s'"
  by (induction rule: bans_step.induct) (fastforce simp: waits_ok_def dest: notin_set_remove1 set_remove1_subset [THEN subsetD])+

lemma bans_run_waits: "bans_run s s' \<Longrightarrow> waits_ok s \<Longrightarrow> waits_ok s' \<and> sb_clock s \<le> sb_clock s'"
  by (induction rule: bans_run.induct) (auto dest: bans_step_waits)

lemma locked_call_table:
  "snd (locked_call (CallRecordFailure ip) now inner) = snd (record_failure inner ip now)"
  "snd (locked_call CallPurge now inner) = snd (purge inner now)"
  "fst (locked_call (CallRecordFailure ip) now inner) = AnsVerdict (fst (record_failure inner ip now))"
  by (simp_all split: prod.split)

lemma locked_call_config: "bl_config (snd (locked_call call now inner)) = bl_config inner"
  by (cases call) (simp_all add: locked_call_table ban_simps del: locked_call.simps(2,3))

text \<open>Invariants of a run: one that every call under the lock keeps, and one on the answers as well. The clock of a
  run only advances, and a call's instant is not later than the clock at which it gets the lock.\<close>

definition new_answers :: "shared_bans \<Rightarrow> shared_bans \<Rightarrow> answered_call list" where
  "new_answers s s' = drop (length (sb_answered s)) (sb_answered s')"

lemma bans_run_induct [consumes 2, case_names start pass lock]:
  assumes "bans_run s s'" and "waits_ok s"
    and start: "J (sb_clock s) (sb_inner s) []"
    and pass: "\<And>c t inner as. J c inner as \<Longrightarrow> c \<le> t \<Longrightarrow> J t inner as"
    and lock: "\<And>c inner as thread call now. J c inner as \<Longrightarrow> now \<le> c \<Longrightarrow>
      J c (snd (locked_call call now inner)) (as @ [\<lparr>ac_thread = thread, ac_call = call, ac_read = now,
        ac_locked = c, ac_answer = fst (locked_call call now inner)\<rparr>])"
  shows "J (sb_clock s') (sb_inner s') (new_answers s s')"
proof -
  have "length (sb_answered s) \<le> length (sb_answered s') \<and> J (sb_clock s') (sb_inner s') (new_answers s s')"
    using assms(1)
  proof (induction rule: bans_run.induct)
    case bans_refl
    then show ?case using start by (simp add: new_answers_def)
  next
    case (bans_trans s1 s2)
    then have w: "waits_ok s1" using bans_run_waits assms(2) by blast
    from bans_trans(2) show ?case
    proof (cases rule: bans_step.cases)
      case (lock thread call now answer inner)
      then have "now \<le> sb_clock s1" using w by (auto simp: waits_ok_def)
      from assms(5) [OF conjunct2 [OF bans_trans.IH] this, of call thread] bans_trans.IH lock
      show ?thesis by (simp add: new_answers_def)
    qed (use bans_trans.IH pass in \<open>auto simp: new_answers_def\<close>)
  qed
  then show ?thesis ..
qed

section \<open>Properties\<close>

text \<open>Two threads that read the clock one after the other and get the lock the other way round.\<close>

definition overtaken :: "ban_call \<Rightarrow> ban_call \<Rightarrow> shared_bans \<Rightarrow> shared_bans" where
  "overtaken first second s =
     (let t = sb_clock s; (a2, inner) = locked_call second (t + 3) (sb_inner s); (a1, inner) = locked_call first t inner
      in s\<lparr>sb_inner := inner, sb_clock := t + 3, sb_waiting := [], sb_answered := sb_answered s @
        [\<lparr>ac_thread = 2, ac_call = second, ac_read = t + 3, ac_locked = t + 3, ac_answer = a2\<rparr>,
         \<lparr>ac_thread = 1, ac_call = first, ac_read = t, ac_locked = t + 3, ac_answer = a1\<rparr>]\<rparr>)"

lemma overtaken_run:
  assumes "sb_waiting s = []"
  shows "bans_run s (overtaken first second s)"
proof -
  obtain inner t hist where s: "s = \<lparr>sb_inner = inner, sb_clock = t, sb_waiting = [], sb_answered = hist\<rparr>"
    using assms by (cases s) auto
  obtain a2 inner2 where two: "locked_call second (t + 3) inner = (a2, inner2)" by fastforce
  obtain a1 inner1 where one: "locked_call first t inner2 = (a1, inner1)" by fastforce
  let ?hist2 = "hist @ [\<lparr>ac_thread = 2, ac_call = second, ac_read = t + 3, ac_locked = t + 3, ac_answer = a2\<rparr>]"
  let ?st = "\<lambda>inner t w hist. \<lparr>sb_inner = inner, sb_clock = t, sb_waiting = w, sb_answered = hist\<rparr>"
  have "bans_step s (?st inner t [(1, first, t)] hist)" using enter [of 1 s first] by (simp add: s)
  moreover have "bans_step (?st inner t [(1, first, t)] hist) (?st inner (t + 3) [(1, first, t)] hist)"
    using pass [of "?st inner t [(1, first, t)] hist" "t + 3"] by simp
  moreover have "bans_step (?st inner (t + 3) [(1, first, t)] hist)
      (?st inner (t + 3) [(1, first, t), (2, second, t + 3)] hist)"
    using enter [of 2 "?st inner (t + 3) [(1, first, t)] hist" second] by simp
  moreover have "bans_step (?st inner (t + 3) [(1, first, t), (2, second, t + 3)] hist)
      (?st inner2 (t + 3) [(1, first, t)] ?hist2)"
    using lock [of 2 second "t + 3" "?st inner (t + 3) [(1, first, t), (2, second, t + 3)] hist" a2 inner2] two by simp
  moreover have "bans_step (?st inner2 (t + 3) [(1, first, t)] ?hist2) (overtaken first second s)"
    using lock [of 1 first t "?st inner2 (t + 3) [(1, first, t)] ?hist2" a1 inner1] one two
    by (simp add: overtaken_def s)
  ultimately show ?thesis by (meson bans_refl bans_trans)
qed

definition told_banned :: "ip_addr \<Rightarrow> answered_call \<Rightarrow> bool" where
  "told_banned k a \<longleftrightarrow> (case ac_call a of
     CallIsBanned ip \<Rightarrow> ban_key ip = k \<longrightarrow> ac_answer a = AnsBanned True
   | CallRecordFailure ip \<Rightarrow> ban_key ip = k \<longrightarrow> ac_answer a = AnsVerdict Banned
   | _ \<Rightarrow> True)"

lemma bans_since_locked:
  assumes "bans_since inner k at" and "now - at < ban_duration (bl_config inner)"
    and "max_failures (bl_config inner) \<noteq> 0"
  shows "bans_since (snd (locked_call call now inner)) k at"
    and "told_banned k \<lparr>ac_thread = thread, ac_call = call, ac_read = now, ac_locked = c,
           ac_answer = fst (locked_call call now inner)\<rparr>"
  using assms bans_since_failure [OF assms(1,2)] bans_since_purge bans_since_banned
  by (cases call; auto simp: told_banned_def locked_call_table simp del: locked_call.simps(2,3))+

text \<open>\<^bold>\<open>C9.\<close> A ban holds under contention: if a client has been banned since \<open>at\<close>, then however calls of other threads
  overtake one another, every question about it that gets the lock before the ban is over is answered "banned" and
  every further failure of it "banned", even when the clock was read before the ban was set.\<close>

theorem ban_holds_under_contention:
  assumes "waits_ok s" and "bans_run s s'" and "max_failures (bl_config (sb_inner s)) \<noteq> 0"
    and "bans_since (sb_inner s) k at" and "a \<in> set (new_answers s s')"
    and "ac_locked a - at < ban_duration (bl_config (sb_inner s))"
  shows "told_banned k a"
proof -
  let ?d = "ban_duration (bl_config (sb_inner s))"
  let ?J = "\<lambda>c inner as. bl_config inner = bl_config (sb_inner s) \<and> (c - at < ?d \<longrightarrow> bans_since inner k at) \<and>
      (\<forall>a \<in> set as. ac_locked a - at < ?d \<longrightarrow> told_banned k a)"
  have "?J (sb_clock s') (sb_inner s') (new_answers s s')"
    using assms(2,1)
  proof (induction rule: bans_run_induct)
    case start
    show ?case using assms(4) by simp
  next
    case (pass c t inner as)
    then show ?case by auto
  next
    case (lock c inner as thread call now)
    have "now - at < ?d" if "c - at < ?d" using that lock(2) by simp
    then show ?case
      using lock bans_since_locked(1) [of inner k at now call]
        bans_since_locked(2) [of inner k at now thread call c] assms(3)
      by (auto simp: locked_call_config)
  qed
  with assms(5,6) show ?thesis by blast
qed

definition banned_bans :: shared_bans where
  "banned_bans = \<lparr>sb_inner = banned_example, sb_clock = 50, sb_waiting = [], sb_answered = []\<rparr>"

theorem ban_holds_under_contention_witness:
  "let s' = overtaken (CallIsBanned (V4 7)) CallPurge banned_bans
   in length (new_answers banned_bans s') = 2 \<and> (\<forall>a \<in> set (new_answers banned_bans s'). told_banned (V4 7) a)"
proof -
  let ?s' = "overtaken (CallIsBanned (V4 7)) CallPurge banned_bans"
  have run: "bans_run banned_bans ?s'" by (rule overtaken_run) (simp add: banned_bans_def)
  have w: "waits_ok banned_bans" by (simp add: waits_ok_def banned_bans_def)
  have c: "max_failures (bl_config (sb_inner banned_bans)) \<noteq> 0"
    "ban_duration (bl_config (sb_inner banned_bans)) = 100" "bans_since (sb_inner banned_bans) (V4 7) 5"
    by (simp_all add: banned_bans_def banned_example_def small_ban_config_def bans_since_def)
  have "ac_locked a = 53" if "a \<in> set (new_answers banned_bans ?s')" for a
    using that by (auto simp: new_answers_def overtaken_def banned_bans_def Let_def split: prod.splits)
  then have "\<forall>a \<in> set (new_answers banned_bans ?s'). told_banned (V4 7) a"
    using ban_holds_under_contention [OF w run c(1,3)] c(2) by simp
  moreover have "length (new_answers banned_bans ?s') = 2"
    by (simp add: new_answers_def overtaken_def banned_bans_def Let_def split: prod.split)
  ultimately show ?thesis by simp
qed

definition failed_since :: "ip_addr \<Rightarrow> instant \<Rightarrow> answered_call \<Rightarrow> bool" where
  "failed_since k t0 a \<longleftrightarrow> t0 \<le> ac_read a \<and> (\<exists>ip. ac_call a = CallRecordFailure ip \<and> ban_key ip = k)"

definition merely_counted :: "ip_addr \<Rightarrow> answered_call \<Rightarrow> bool" where
  "merely_counted k a \<longleftrightarrow> (\<forall>ip. ac_call a = CallRecordFailure ip \<longrightarrow> ban_key ip = k \<longrightarrow>
     (\<exists>n. ac_answer a = AnsVerdict (Counted n)))"

lemma holds_failures_locked:
  fixes thread :: nat and c now :: instant and call :: ban_call
  assumes "holds_failures inner k t0 n" and "now - t0 < ban_window (bl_config inner)"
    and "n < max_failures (bl_config inner)"
  defines "a \<equiv> \<lparr>ac_thread = thread, ac_call = call, ac_read = now, ac_locked = c,
           ac_answer = fst (locked_call call now inner)\<rparr>"
  assumes "merely_counted k a"
  shows "holds_failures (snd (locked_call call now inner)) k t0 (n + (if failed_since k t0 a then 1 else 0)) \<and>
    n + (if failed_since k t0 a then 1 else 0) < max_failures (bl_config inner)"
proof (cases call)
  case (CallRecordFailure ip)
  obtain v inner' where r: "record_failure inner ip now = (v, inner')" by fastforce
  show ?thesis
  proof (cases "ban_key ip = k")
    case True
    with assms(4,5) CallRecordFailure r obtain j where "v = Counted j" by (auto simp: merely_counted_def)
    from holds_failures_counted [OF assms(1,2) True, of j inner'] this r CallRecordFailure True
    show ?thesis by (simp add: a_def failed_since_def split: if_splits)
  next
    case False
    from holds_failures_other [OF assms(1,2) this] r CallRecordFailure False assms(3)
    show ?thesis by (simp add: a_def failed_since_def)
  qed
next
  case CallPurge
  with holds_failures_purge [OF assms(1,2)] assms(3) show ?thesis
    by (auto simp: a_def failed_since_def split: prod.split)
qed (use assms(1,3) in \<open>simp_all add: a_def failed_since_def\<close>)

text \<open>\<^bold>\<open>C13.\<close> Brute force is bounded under contention: within one window from \<open>t0\<close>, if every failure of a client was merely
  counted, then fewer than \<open>max_failures\<close> of them were made since \<open>t0\<close>, however the calls of all threads interleave.\<close>

theorem failures_bounded_under_contention:
  assumes "waits_ok s" and "bans_run s s'" and "0 < max_failures (bl_config (sb_inner s))"
    and "sb_clock s' - t0 < ban_window (bl_config (sb_inner s))"
    and "\<forall>a \<in> set (new_answers s s'). merely_counted k a"
  shows "length (filter (failed_since k t0) (new_answers s s')) < max_failures (bl_config (sb_inner s))"
proof -
  let ?config = "bl_config (sb_inner s)"
  let ?J = "\<lambda>c inner as. bl_config inner = ?config \<and>
      (c - t0 < ban_window ?config \<longrightarrow> (\<forall>a \<in> set as. merely_counted k a) \<longrightarrow>
        holds_failures inner k t0 (length (filter (failed_since k t0) as)) \<and>
        length (filter (failed_since k t0) as) < max_failures ?config)"
  have "?J (sb_clock s') (sb_inner s') (new_answers s s')"
    using assms(2,1)
  proof (induction rule: bans_run_induct)
    case start
    show ?case using assms(3) by (simp add: holds_failures_def)
  next
    case (pass c t inner as)
    then show ?case by auto
  next
    case (lock c inner as thread call now)
    have "now - t0 < ban_window ?config" if "c - t0 < ban_window ?config" using that lock(2) by simp
    then show ?case
      using lock holds_failures_locked [of inner k t0 "length (filter (failed_since k t0) as)" now thread call c]
      by (auto simp: locked_call_config)
  qed
  with assms(4,5) show ?thesis by blast
qed

theorem failures_bounded_under_contention_witness:
  "let s = shared_bans_new 5 small_ban_config; s' = overtaken (CallRecordFailure (V4 7)) (CallRecordFailure (V4 8)) s
   in length (filter (failed_since (V4 7) 5) (new_answers s s')) = 1 \<and>
      length (filter (failed_since (V4 7) 5) (new_answers s s')) < 2"
proof -
  let ?s = "shared_bans_new 5 small_ban_config"
  let ?s' = "overtaken (CallRecordFailure (V4 7)) (CallRecordFailure (V4 8)) ?s"
  have run: "bans_run ?s ?s'" by (rule overtaken_run) (simp add: shared_bans_new_def)
  have w: "waits_ok ?s" by (simp add: waits_ok_def shared_bans_new_def)
  have answers: "new_answers ?s ?s' =
      [\<lparr>ac_thread = 2, ac_call = CallRecordFailure (V4 8), ac_read = 8, ac_locked = 8, ac_answer = AnsVerdict (Counted 1)\<rparr>,
       \<lparr>ac_thread = 1, ac_call = CallRecordFailure (V4 7), ac_read = 5, ac_locked = 8, ac_answer = AnsVerdict (Counted 1)\<rparr>]"
    by (simp add: new_answers_def overtaken_def shared_bans_new_def Let_def record_failure_def make_room_def
        count_failure_def entry_or_default_def default_entry_def ban_list_new_def small_ban_config_def
        ban_active_at_def ban_key_def)
  have "length (filter (failed_since (V4 7) 5) (new_answers ?s ?s')) < max_failures (bl_config (sb_inner ?s))"
    by (rule failures_bounded_under_contention [OF w run])
      (simp_all add: answers merely_counted_def, simp_all add: shared_bans_new_def small_ban_config_def
        ban_list_new_def overtaken_def Let_def split: prod.splits)
  then show ?thesis
    by (simp add: answers) (simp add: failed_since_def ban_key_def shared_bans_new_def ban_list_new_def small_ban_config_def)
qed

end
