(* ===== verification/Rust_Str.thy ===== *)
theory Rust_Str
  imports Net_Addr "HOL-Library.Char_ord"
begin

text \<open>
  Text as the sources use it. A Rust \<open>str\<close> is its UTF-8 byte sequence, here a \<open>string\<close> (HOL
  characters are bytes). Modelled: \<open>as_bytes\<close>, \<open>trim\<close>, \<open>split_once\<close>, \<open>strip_prefix\<close>,
  integer parsing and printing, and the address parser and printer of \<open>core::net\<close>.
\<close>

section \<open>Bytes and characters\<close>

definition byte_of_char :: "char \<Rightarrow> u8" where
  "byte_of_char c = of_nat (of_char c)"

definition char_of_byte :: "u8 \<Rightarrow> char" where
  "char_of_byte b = char_of (unat b)"

definition as_bytes :: "string \<Rightarrow> u8 list" where
  "as_bytes s = map byte_of_char s"

definition string_of_bytes :: "u8 list \<Rightarrow> string" where
  "string_of_bytes bs = map char_of_byte bs"

lemma of_char_lt_256: "(of_char c :: nat) < 256"
  by (simp add: of_char_def of_bool_def split: bool.split char.split) 

lemma char_of_byte_of_char [simp]: "char_of_byte (byte_of_char c) = c"
  by (simp add: char_of_byte_def byte_of_char_def unat_of_nat of_char_lt_256)

lemma byte_of_char_of_byte [simp]: "byte_of_char (char_of_byte b) = b"
proof -
  have "unat b < 256" using unsigned_less [of b] by simp
  then show ?thesis by (simp add: char_of_byte_def byte_of_char_def)
qed

lemma string_of_as_bytes [simp]: "string_of_bytes (as_bytes s) = s"
  by (simp add: string_of_bytes_def as_bytes_def comp_def)

lemma as_bytes_string_of [simp]: "as_bytes (string_of_bytes bs) = bs"
  by (simp add: string_of_bytes_def as_bytes_def comp_def)

lemma as_bytes_inject [simp]: "as_bytes s = as_bytes t \<longleftrightarrow> s = t"
  by (metis string_of_as_bytes)

lemma length_as_bytes [simp]: "length (as_bytes s) = length s"
  by (simp add: as_bytes_def)

lemma length_string_of_bytes [simp]: "length (string_of_bytes bs) = length bs"
  by (simp add: string_of_bytes_def)

lemma string_of_bytes_eq_Nil [simp]: "string_of_bytes bs = [] \<longleftrightarrow> bs = []"
  by (simp add: string_of_bytes_def)

lemma as_bytes_eq_Nil [simp]: "as_bytes s = [] \<longleftrightarrow> s = []"
  by (simp add: as_bytes_def)

section \<open>UTF-8\<close>

text \<open>\<open>String::from_utf8\<close> accepts the well-formed byte sequences of the Unicode standard
  (its table 3-7): shortest forms, no surrogates, nothing above \<open>U+10FFFF\<close>.\<close>

definition between :: "u8 \<Rightarrow> u8 \<Rightarrow> u8 \<Rightarrow> bool" where
  "between lo b hi \<longleftrightarrow> lo \<le> b \<and> b \<le> hi"

abbreviation continuation :: "u8 \<Rightarrow> bool" where
  "continuation b \<equiv> between 0x80 b 0xBF"

definition utf8_pair :: "u8 \<Rightarrow> u8 \<Rightarrow> bool" where
  "utf8_pair a b \<longleftrightarrow> between 0xC2 a 0xDF \<and> continuation b"

definition utf8_triple :: "u8 \<Rightarrow> u8 \<Rightarrow> u8 \<Rightarrow> bool" where
  "utf8_triple a b c \<longleftrightarrow> continuation c \<and>
     (a = 0xE0 \<and> between 0xA0 b 0xBF \<or> a = 0xED \<and> between 0x80 b 0x9F \<or>
      (between 0xE1 a 0xEC \<or> between 0xEE a 0xEF) \<and> continuation b)"

definition utf8_quad :: "u8 \<Rightarrow> u8 \<Rightarrow> u8 \<Rightarrow> u8 \<Rightarrow> bool" where
  "utf8_quad a b c d \<longleftrightarrow> continuation c \<and> continuation d \<and>
     (a = 0xF0 \<and> between 0x90 b 0xBF \<or> a = 0xF4 \<and> between 0x80 b 0x8F \<or>
      between 0xF1 a 0xF3 \<and> continuation b)"

fun utf8_valid :: "u8 list \<Rightarrow> bool" where
  "utf8_valid [] = True"
| "utf8_valid (a # bs) =
     (if a \<le> 0x7F then utf8_valid bs
      else case bs of
        b # c # d # rest \<Rightarrow>
          (if utf8_pair a b then utf8_valid (c # d # rest)
           else if utf8_triple a b c then utf8_valid (d # rest)
           else utf8_quad a b c d \<and> utf8_valid rest)
      | [b, c] \<Rightarrow> (if utf8_pair a b then utf8_valid [c] else utf8_triple a b c)
      | [b] \<Rightarrow> utf8_pair a b
      | [] \<Rightarrow> False)"

definition from_utf8 :: "u8 list \<Rightarrow> string option" where
  "from_utf8 bs = (if utf8_valid bs then Some (string_of_bytes bs) else None)"

lemma utf8_valid_ascii: "list_all (\<lambda>b. b \<le> 0x7F) bs \<Longrightarrow> utf8_valid bs"
  by (induction bs) auto

section \<open>Slicing\<close>

text \<open>\<open>str::trim\<close> removes Unicode white space on both sides; \<open>white_space\<close> lists the UTF-8 encodings
  of the code points with that property. On valid UTF-8 no encoding is a proper suffix of
  another character's, so matching bytes from the end is matching characters.\<close>

definition white_space :: "string list" where
  "white_space =
     [[CHR 0x09], [CHR 0x0A], [CHR 0x0B], [CHR 0x0C], [CHR 0x0D], [CHR 0x20],
      [CHR 0xC2, CHR 0x85], [CHR 0xC2, CHR 0xA0], [CHR 0xE1, CHR 0x9A, CHR 0x80],
      [CHR 0xE2, CHR 0x80, CHR 0x80], [CHR 0xE2, CHR 0x80, CHR 0x81], [CHR 0xE2, CHR 0x80, CHR 0x82],
      [CHR 0xE2, CHR 0x80, CHR 0x83], [CHR 0xE2, CHR 0x80, CHR 0x84], [CHR 0xE2, CHR 0x80, CHR 0x85],
      [CHR 0xE2, CHR 0x80, CHR 0x86], [CHR 0xE2, CHR 0x80, CHR 0x87], [CHR 0xE2, CHR 0x80, CHR 0x88],
      [CHR 0xE2, CHR 0x80, CHR 0x89], [CHR 0xE2, CHR 0x80, CHR 0x8A], [CHR 0xE2, CHR 0x80, CHR 0xA8],
      [CHR 0xE2, CHR 0x80, CHR 0xA9], [CHR 0xE2, CHR 0x80, CHR 0xAF], [CHR 0xE2, CHR 0x81, CHR 0x9F],
      [CHR 0xE3, CHR 0x80, CHR 0x80]]"

fun drop_first_prefix :: "string list \<Rightarrow> string \<Rightarrow> string option" where
  "drop_first_prefix [] s = None"
| "drop_first_prefix (w # ws) s =
     (if w \<noteq> [] \<and> take (length w) s = w then Some (drop (length w) s) else drop_first_prefix ws s)"

lemma drop_first_prefix_shorter:
  "drop_first_prefix ws s = Some t \<Longrightarrow> length t < length s"
proof (induction ws)
  case (Cons w ws)
  show ?case
  proof (cases "w \<noteq> [] \<and> take (length w) s = w")
    case True
    then have "s \<noteq> []" by auto
    with True Cons.prems show ?thesis by auto
  next
    case False
    with Cons show ?thesis by simp
  qed
qed simp

function trim_with :: "string list \<Rightarrow> string \<Rightarrow> string" where
  "trim_with ws s = (case drop_first_prefix ws s of None \<Rightarrow> s | Some t \<Rightarrow> trim_with ws t)"
  by pat_completeness auto
termination
  by (relation "measure (\<lambda>(ws, s). length s)") (auto dest: drop_first_prefix_shorter)

declare trim_with.simps [simp del]

definition trim :: "string \<Rightarrow> string" where
  "trim s = rev (trim_with (map rev white_space) (rev (trim_with white_space s)))"

text \<open>\<open>str::split_once\<close> on a one-byte delimiter.\<close>

fun split_once :: "char \<Rightarrow> string \<Rightarrow> (string \<times> string) option" where
  "split_once c [] = None"
| "split_once c (x # xs) =
     (if x = c then Some ([], xs)
      else map_option (\<lambda>(a, b). (x # a, b)) (split_once c xs))"

fun strip_prefix_char :: "char \<Rightarrow> string \<Rightarrow> string option" where
  "strip_prefix_char c [] = None"
| "strip_prefix_char c (x # xs) = (if x = c then Some xs else None)"

lemma split_once_Some_iff:
  "split_once c s = Some (a, b) \<longleftrightarrow> s = a @ c # b \<and> c \<notin> set a"
proof (induction s arbitrary: a)
  case (Cons x s)
  then show ?case by (cases a) auto
qed simp

lemma split_once_None_iff: "split_once c s = None \<longleftrightarrow> c \<notin> set s"
  by (induction s) auto

lemma trim_with_id: "drop_first_prefix ws s = None \<Longrightarrow> trim_with ws s = s"
  by (simp add: trim_with.simps)

end
