(* ===== verification/User_Store.thy ===== *)
theory User_Store
  imports Rust_Str
begin

text \<open>
  \<open>src/auth\<close>: proxy users and the check of username/password pairs. The comparison
  \<open>subtle::ConstantTimeEq::ct_eq\<close> is third-party code and a parameter; \<open>ct_eq_spec\<close> is its
  documented result (a \<open>Choice\<close>, here a truth value) on slices.
\<close>

section \<open>Data\<close>

record user_credentials =
  uc_username :: string
  uc_password :: string

datatype credential_error =
    NoUsers
  | InvalidUsername nat
  | InvalidPassword string
  | DuplicateUsername string

definition MAX_CREDENTIAL_LEN :: nat where
  "MAX_CREDENTIAL_LEN = 255"

definition BLOCK_LEN :: nat where
  "BLOCK_LEN = MAX_CREDENTIAL_LEN + 1"

record stored_user =
  su_name :: string
  su_username :: "u8 list"
  su_password :: "u8 list"

record user_store =
  us_users :: "stored_user list"

section \<open>Operations\<close>

definition to_block :: "u8 list \<Rightarrow> u8 list option" where
  "to_block value =
     (if length value \<le> 255 \<and> 0 < length value
      then Some (of_nat (length value) # value @ replicate (BLOCK_LEN - 1 - length value) 0)
      else None)"

fun add_users :: "nat \<Rightarrow> stored_user list \<Rightarrow> user_credentials list \<Rightarrow>
    credential_error + stored_user list" where
  "add_users index users [] = Ok users"
| "add_users index users (credential # rest) =
     try_bind (ok_or (InvalidUsername index) (to_block (as_bytes (uc_username credential)))) (\<lambda>username.
     try_bind (ok_or (InvalidPassword (uc_username credential))
                     (to_block (as_bytes (uc_password credential)))) (\<lambda>password.
     if list_ex (\<lambda>user. su_name user = uc_username credential) users
     then Err (DuplicateUsername (uc_username credential))
     else add_users (index + 1)
            (users @ [\<lparr>su_name = uc_username credential, su_username = username,
                       su_password = password\<rparr>]) rest))"

definition user_store_new :: "user_credentials list \<Rightarrow> credential_error + user_store" where
  "user_store_new credentials =
     (if credentials = [] then Err NoUsers
      else try_bind (add_users 0 [] credentials) (\<lambda>users. Ok \<lparr>us_users = users\<rparr>))"

text \<open>\<open>verify\<close> with the comparisons it makes, in their order. A call of \<open>ct_eq\<close> gives a \<open>Choice\<close>; \<open>&\<close> on two of
  them evaluates both, and the loop goes over all users.\<close>

definition compare :: "(u8 list \<Rightarrow> u8 list \<Rightarrow> bool) \<Rightarrow> u8 list \<Rightarrow> u8 list \<Rightarrow> bool \<times> (u8 list \<times> u8 list) list" where
  "compare ct_eq a b = (ct_eq a b, [(a, b)])"

fun verify_users :: "(u8 list \<Rightarrow> u8 list \<Rightarrow> bool) \<Rightarrow> u8 list \<Rightarrow> u8 list \<Rightarrow> string option \<Rightarrow> stored_user list \<Rightarrow>
    string option \<times> (u8 list \<times> u8 list) list" where
  "verify_users ct_eq username password matched [] = (matched, [])"
| "verify_users ct_eq username password matched (user # users) =
     (let (name_eq, work1) = compare ct_eq (su_username user) username;
          (password_eq, work2) = compare ct_eq (su_password user) password;
          is_match = (name_eq \<and> password_eq);
          matched = (if is_match then Some (su_name user) else matched);
          (matched, work) = verify_users ct_eq username password matched users
      in (matched, work1 @ work2 @ work))"

definition verify_work :: "(u8 list \<Rightarrow> u8 list \<Rightarrow> bool) \<Rightarrow> user_store \<Rightarrow> u8 list \<Rightarrow> u8 list \<Rightarrow>
    string option \<times> (u8 list \<times> u8 list) list" where
  "verify_work ct_eq store username password =
     (let username = (case to_block username of None \<Rightarrow> replicate BLOCK_LEN 0 | Some b \<Rightarrow> b);
          password = (case to_block password of None \<Rightarrow> replicate BLOCK_LEN 0 | Some b \<Rightarrow> b)
      in verify_users ct_eq username password None (us_users store))"

definition verify :: "(u8 list \<Rightarrow> u8 list \<Rightarrow> bool) \<Rightarrow> user_store \<Rightarrow> u8 list \<Rightarrow> u8 list \<Rightarrow> string option" where
  "verify ct_eq store username password = fst (verify_work ct_eq store username password)"

definition usernames :: "user_store \<Rightarrow> string list" where
  "usernames store = map su_name (us_users store)"

section \<open>Blocks\<close>

definition ct_eq_spec :: "(u8 list \<Rightarrow> u8 list \<Rightarrow> bool) \<Rightarrow> bool" where
  "ct_eq_spec ct_eq \<longleftrightarrow> (\<forall>a b. ct_eq a b \<longleftrightarrow> a = b)"

lemma to_block_length: "to_block v = Some b \<Longrightarrow> length b = BLOCK_LEN"
  by (auto simp: to_block_def BLOCK_LEN_def MAX_CREDENTIAL_LEN_def split: if_splits)

lemma to_block_None_iff: "to_block v = None \<longleftrightarrow> v = [] \<or> 255 < length v"
  by (auto simp: to_block_def)

lemma to_block_inject:
  assumes "to_block v = Some b" and "to_block w = Some b"
  shows "v = w"
proof -
  from assms have len: "length v \<le> 255" "length w \<le> 255"
    and hd: "(of_nat (length v) :: u8) = of_nat (length w)"
    and tl: "v @ replicate (255 - length v) 0 = w @ replicate (255 - length w) 0"
    by (auto simp: to_block_def BLOCK_LEN_def MAX_CREDENTIAL_LEN_def split: if_splits)
  from hd have "length v mod 256 = length w mod 256"
    by (simp add: word_unat_eq_iff unat_of_nat)
  with len have "length v = length w" by simp
  with tl show ?thesis by simp
qed

lemma to_block_not_zero: "to_block v = Some b \<Longrightarrow> b \<noteq> replicate BLOCK_LEN 0"
proof
  assume b: "to_block v = Some b" and z: "b = replicate BLOCK_LEN 0"
  have "hd (replicate BLOCK_LEN (0 :: u8)) = 0" by (simp add: BLOCK_LEN_def hd_replicate)
  with b z have "(of_nat (length v) :: u8) = 0" and "0 < length v" and "length v \<le> 255"
    by (auto simp: to_block_def split: if_splits) (metis list.sel(1))
  then have "length v mod 256 = 0" by (simp add: word_unat_eq_iff unat_of_nat)
  with \<open>0 < length v\<close> \<open>length v \<le> 255\<close> show False by simp
qed

text \<open>The padded input equals a stored block exactly when the values are equal.\<close>

definition block_or_zero :: "u8 list \<Rightarrow> u8 list" where
  "block_or_zero v = (case to_block v of None \<Rightarrow> replicate BLOCK_LEN 0 | Some b \<Rightarrow> b)"

lemma length_block_or_zero [simp]: "length (block_or_zero v) = BLOCK_LEN"
  by (auto simp: block_or_zero_def to_block_length split: option.split)

lemma stored_block_eq_iff:
  assumes "to_block v = Some b"
  shows "b = block_or_zero w \<longleftrightarrow> v = w"
  using assms to_block_inject [OF assms, of w] to_block_not_zero [OF assms]
  by (auto simp: block_or_zero_def split: option.splits)

section \<open>The store\<close>

definition stored_of :: "user_credentials \<Rightarrow> stored_user" where
  "stored_of c = \<lparr>su_name = uc_username c, su_username = block_or_zero (as_bytes (uc_username c)),
     su_password = block_or_zero (as_bytes (uc_password c))\<rparr>"

definition credential_ok :: "user_credentials \<Rightarrow> bool" where
  "credential_ok c \<longleftrightarrow> 0 < length (uc_username c) \<and> length (uc_username c) \<le> 255 \<and>
     0 < length (uc_password c) \<and> length (uc_password c) \<le> 255"

lemma to_block_as_bytes:
  "to_block (as_bytes s) = (if 0 < length s \<and> length s \<le> 255
     then Some (block_or_zero (as_bytes s)) else None)"
  by (auto simp: block_or_zero_def to_block_def)

lemma name_taken: "list_ex (\<lambda>user. su_name user = n) users \<longleftrightarrow> n \<in> su_name ` set users"
  by (auto simp: list_ex_iff)

lemma su_name_stored_of [simp]: "su_name (stored_of c) = uc_username c"
  by (simp add: stored_of_def)

lemma add_users_Ok_iff:
  "add_users i users cs = Ok us \<longleftrightarrow>
     us = users @ map stored_of cs \<and> list_all credential_ok cs \<and>
     distinct (map uc_username cs) \<and> set (map uc_username cs) \<inter> su_name ` set users = {}"
proof (induction cs arbitrary: i users)
  case (Cons c cs)
  have "add_users i users (c # cs) = Ok us \<longleftrightarrow> credential_ok c \<and> uc_username c \<notin> su_name ` set users \<and>
      add_users (i + 1) (users @ [stored_of c]) cs = Ok us"
    by (simp add: to_block_as_bytes credential_ok_def name_taken stored_of_def)
  then show ?case by (auto simp: Cons.IH)
qed auto

lemma user_store_new_Ok_iff:
  "user_store_new cs = Ok st \<longleftrightarrow>
     us_users st = map stored_of cs \<and> cs \<noteq> [] \<and> list_all credential_ok cs \<and>
     distinct (map uc_username cs)"
  by (cases st) (auto simp: user_store_new_def try_bind_Ok_iff add_users_Ok_iff)

lemma foldl_last_match:
  "foldl (\<lambda>m x. if P x then Some (f x) else m) z xs =
     (case find P (rev xs) of None \<Rightarrow> z | Some x \<Rightarrow> Some (f x))"
  by (induction xs arbitrary: z rule: rev_induct) auto

lemma find_map: "find P (map f xs) = map_option f (find (\<lambda>x. P (f x)) xs)"
  by (induction xs) auto

lemma verify_users_eq:
  "verify_users ct_eq u p z users =
     (foldl (\<lambda>m x. if ct_eq (su_username x) u \<and> ct_eq (su_password x) p then Some (su_name x) else m) z users,
      concat (map (\<lambda>x. [(su_username x, u), (su_password x, p)]) users))"
  by (induction users arbitrary: z) (simp_all add: compare_def)

lemma verify_fold:
  "verify ct_eq st u p =
     foldl (\<lambda>m x. if ct_eq (su_username x) (block_or_zero u) \<and> ct_eq (su_password x) (block_or_zero p)
                  then Some (su_name x) else m) None (us_users st)"
  by (simp add: verify_def verify_work_def verify_users_eq block_or_zero_def Let_def)

lemma verify_Some_iff:
  assumes "ct_eq_spec ct_eq" and "user_store_new cs = Ok st"
  shows "verify ct_eq st u p = Some n \<longleftrightarrow>
    (\<exists>c \<in> set cs. uc_username c = n \<and> as_bytes (uc_username c) = u \<and> as_bytes (uc_password c) = p)"
proof -
  let ?P = "\<lambda>x. su_username x = block_or_zero u \<and> su_password x = block_or_zero p"
  let ?Q = "\<lambda>c. as_bytes (uc_username c) = u \<and> as_bytes (uc_password c) = p"
  have st: "us_users st = map stored_of cs" and ok: "list_all credential_ok cs"
    using assms(2) by (auto simp: user_store_new_Ok_iff)
  have PQ: "?P (stored_of c) \<longleftrightarrow> ?Q c" if "c \<in> set cs" for c
  proof -
    have c: "credential_ok c" using ok that by (simp add: list_all_iff)
    then have "to_block (as_bytes (uc_username c)) = Some (block_or_zero (as_bytes (uc_username c)))"
      and "to_block (as_bytes (uc_password c)) = Some (block_or_zero (as_bytes (uc_password c)))"
      by (simp_all add: to_block_as_bytes credential_ok_def)
    then show ?thesis by (simp add: stored_of_def stored_block_eq_iff)
  qed
  have v: "verify ct_eq st u p = map_option su_name (find ?P (rev (map stored_of cs)))"
    using assms(1)
    by (simp add: verify_fold ct_eq_spec_def st foldl_last_match split: option.split)
  show ?thesis
  proof
    assume "verify ct_eq st u p = Some n"
    then obtain x where "find ?P (rev (map stored_of cs)) = Some x" and n: "n = su_name x"
      by (auto simp: v)
    then obtain c where "c \<in> set cs" "x = stored_of c" "?P x"
      by (auto dest!: find_SomeD)
    with n show "\<exists>c \<in> set cs. uc_username c = n \<and> ?Q c" using PQ by auto
  next
    assume "\<exists>c \<in> set cs. uc_username c = n \<and> ?Q c"
    then obtain c where c: "c \<in> set cs" "uc_username c = n" "?Q c" by blast
    then have "find ?P (rev (map stored_of cs)) \<noteq> None"
      using PQ by (auto simp: find_None_iff)
    then obtain x where x: "find ?P (rev (map stored_of cs)) = Some x" by blast
    then obtain d where d: "d \<in> set cs" "x = stored_of d" "?P x"
      by (auto dest!: find_SomeD)
    with PQ c have "uc_username d = n" by (metis as_bytes_inject)
    with x d show "verify ct_eq st u p = Some n" by (simp add: v)
  qed
qed

section \<open>Properties\<close>

text \<open>A store is built exactly from a non-empty list of users whose names and passwords are all
  1 to 255 bytes long and whose names are distinct, and it then lists exactly those names.\<close>

theorem user_store_new_accepts_iff:
  "(\<exists>st. user_store_new cs = Ok st \<and> usernames st = map uc_username cs) \<longleftrightarrow>
     cs \<noteq> [] \<and> distinct (map uc_username cs) \<and>
     list_all (\<lambda>c. length (uc_username c) \<in> {1..255} \<and> length (uc_password c) \<in> {1..255}) cs"
proof -
  have "list_all credential_ok cs \<longleftrightarrow>
      list_all (\<lambda>c. length (uc_username c) \<in> {1..255} \<and> length (uc_password c) \<in> {1..255}) cs"
    by (auto simp: list_all_iff credential_ok_def Suc_le_eq)
  moreover have "(\<exists>st. user_store_new cs = Ok st \<and> usernames st = map uc_username cs) \<longleftrightarrow>
      cs \<noteq> [] \<and> list_all credential_ok cs \<and> distinct (map uc_username cs)" (is "?L \<longleftrightarrow> ?R")
  proof
    assume ?R
    then have "user_store_new cs = Ok \<lparr>us_users = map stored_of cs\<rparr>"
      by (simp add: user_store_new_Ok_iff)
    then show ?L by (auto simp: usernames_def comp_def)
  qed (auto simp: user_store_new_Ok_iff)
  ultimately show ?thesis by blast
qed

text \<open>\<^bold>\<open>C15.\<close> Authentication is exact: with a comparison that decides equality, \<open>verify\<close> returns a name
  precisely when some configured user has that name and its name and password are, byte for byte,
  the ones presented. Empty and over-long inputs never match.\<close>

theorem verify_exact:
  assumes "ct_eq_spec ct_eq" and "user_store_new cs = Ok st"
  shows "verify ct_eq st u p = Some n \<longleftrightarrow>
    (\<exists>c \<in> set cs. uc_username c = n \<and> as_bytes n = u \<and> as_bytes (uc_password c) = p)"
  using verify_Some_iff [OF assms] by auto

definition alice :: user_credentials where
  "alice = \<lparr>uc_username = ''alice'', uc_password = ''pw''\<rparr>"

lemma alice_store: "user_store_new [alice] = Ok \<lparr>us_users = [stored_of alice]\<rparr>"
  by (simp add: user_store_new_Ok_iff credential_ok_def alice_def)

theorem verify_exact_witness:
  "verify (=) \<lparr>us_users = [stored_of alice]\<rparr> (as_bytes ''alice'') (as_bytes ''pw'') = Some ''alice''
   \<and> verify (=) \<lparr>us_users = [stored_of alice]\<rparr> (as_bytes ''alice'') (as_bytes ''pwd'') = None"
proof -
  have ct: "ct_eq_spec (=)" by (simp add: ct_eq_spec_def)
  note ex = verify_exact [OF ct alice_store]
  have "verify (=) \<lparr>us_users = [stored_of alice]\<rparr> (as_bytes ''alice'') (as_bytes ''pwd'') \<noteq> Some n" for n
    unfolding ex by (simp add: alice_def)
  then have "verify (=) \<lparr>us_users = [stored_of alice]\<rparr> (as_bytes ''alice'') (as_bytes ''pwd'') = None"
    by blast
  moreover have "verify (=) \<lparr>us_users = [stored_of alice]\<rparr> (as_bytes ''alice'') (as_bytes ''pw'') = Some ''alice''"
    unfolding ex by (simp add: alice_def)
  ultimately show ?thesis by blast
qed

text \<open>\<^bold>\<open>C40.\<close> The work of \<open>verify\<close> does not depend on what is presented or on what matches: it makes exactly two calls of
  the comparison per configured user, name and password, for all users in their order, each on two
  256-byte blocks, whatever the lengths of the values and whatever the comparisons answer. And the
  presented values reach the result through the answers to these calls only, whatever comparison is used.\<close>

theorem verify_work_fixed:
  assumes "user_store_new cs = Ok st"
  shows "snd (verify_work ct_eq st u p) =
      concat (map (\<lambda>c. [(block_or_zero (as_bytes (uc_username c)), block_or_zero u),
                        (block_or_zero (as_bytes (uc_password c)), block_or_zero p)]) cs) \<and>
    map (\<lambda>(a, b). (length a, length b)) (snd (verify_work ct_eq st u p)) = replicate (2 * length cs) (256, 256) \<and>
    verify ct_eq st u p = map_option uc_username (find (\<lambda>c.
      ct_eq (block_or_zero (as_bytes (uc_username c))) (block_or_zero u) \<and>
      ct_eq (block_or_zero (as_bytes (uc_password c))) (block_or_zero p)) (rev cs))"
proof -
  have st: "us_users st = map stored_of cs" using assms by (simp add: user_store_new_Ok_iff)
  have work: "snd (verify_work ct_eq st u p) =
      concat (map (\<lambda>c. [(block_or_zero (as_bytes (uc_username c)), block_or_zero u),
                        (block_or_zero (as_bytes (uc_password c)), block_or_zero p)]) cs)"
    by (simp add: verify_work_def verify_users_eq block_or_zero_def st stored_of_def comp_def Let_def)
  have "map (\<lambda>(a, b). (length a, length b)) (snd (verify_work ct_eq st u p)) = replicate (2 * length cs) (256, 256)"
    unfolding work by (induction cs) (simp_all add: BLOCK_LEN_def MAX_CREDENTIAL_LEN_def)
  moreover have "verify ct_eq st u p = map_option uc_username (find (\<lambda>c.
      ct_eq (block_or_zero (as_bytes (uc_username c))) (block_or_zero u) \<and>
      ct_eq (block_or_zero (as_bytes (uc_password c))) (block_or_zero p)) (rev cs))"
    by (simp add: verify_fold st foldl_last_match rev_map find_map stored_of_def option.map_comp comp_def
        split: option.split)
  ultimately show ?thesis using work by blast
qed

theorem verify_work_fixed_witness:
  "map (\<lambda>(a, b). (length a, length b)) (snd (verify_work (=) \<lparr>us_users = [stored_of alice]\<rparr> (as_bytes ''x'') [])) =
     [(256, 256), (256, 256)] \<and>
   verify (\<lambda>_ _. True) \<lparr>us_users = [stored_of alice]\<rparr> (as_bytes ''x'') [] = Some ''alice''"
  using verify_work_fixed [OF alice_store, of "(=)" "as_bytes ''x''" "[]"]
    verify_work_fixed [OF alice_store, of "\<lambda>_ _. True" "as_bytes ''x''" "[]"]
  by (simp add: numeral_2_eq_2 alice_def BLOCK_LEN_def MAX_CREDENTIAL_LEN_def)

end
