(* ===== verification/Net_Text.thy ===== *)
theory Net_Text
  imports Rust_Str
begin

text \<open>
  Textual numbers and addresses of the core library: \<open>str::parse\<close> for unsigned integers, the parser
  of \<open>core::net\<close> for \<open>IpAddr\<close> and \<open>SocketAddr\<close>, and their \<open>Display\<close> output. A parser takes the
  input and returns the value with the input left, or nothing, in which case the input is restored
  (\<open>read_atomically\<close>). The sources use them for the settings file and the log.
\<close>

section \<open>Digits\<close>

definition digit_value :: "char \<Rightarrow> nat" where
  "digit_value c =
     (let n = of_char c :: nat in
      if 48 \<le> n \<and> n \<le> 57 then n - 48
      else if 97 \<le> n \<and> n \<le> 122 then n - 87
      else if 65 \<le> n \<and> n \<le> 90 then n - 55
      else 36)"

text \<open>\<open>char::to_digit\<close> succeeds when the value is below the radix (at most 36).\<close>

definition is_digit :: "nat \<Rightarrow> char \<Rightarrow> bool" where
  "is_digit radix c \<longleftrightarrow> digit_value c < radix"

definition digits_value :: "nat \<Rightarrow> string \<Rightarrow> nat" where
  "digits_value radix ds = foldl (\<lambda>acc c. acc * radix + digit_value c) 0 ds"

definition digit_char :: "nat \<Rightarrow> char" where
  "digit_char d = (if d < 10 then char_of (48 + d) else char_of (87 + d))"

fun to_radix :: "nat \<Rightarrow> nat \<Rightarrow> string" where
  "to_radix radix n =
     (if radix < 2 \<or> n < radix then [digit_char n]
      else to_radix radix (n div radix) @ [digit_char (n mod radix)])"

declare to_radix.simps [simp del]

abbreviation decimal :: "nat \<Rightarrow> string" where
  "decimal \<equiv> to_radix 10"

text \<open>\<open>{:#04x}\<close> of a byte.\<close>

definition hex_byte :: "u8 \<Rightarrow> string" where
  "hex_byte b = ''0x'' @ [digit_char (unat b div 16), digit_char (unat b mod 16)]"

section \<open>Integers\<close>

text \<open>\<open>str::parse\<close> of an unsigned integer: an optional \<open>+\<close>, at least one decimal digit, a value that
  fits.\<close>

definition parse_uint :: "nat \<Rightarrow> string \<Rightarrow> nat option" where
  "parse_uint max_value s =
     (let ds = (case s of c # cs \<Rightarrow> if c = CHR ''+'' then cs else s | [] \<Rightarrow> [])
      in if ds \<noteq> [] \<and> list_all (is_digit 10) ds \<and> digits_value 10 ds \<le> max_value
         then Some (digits_value 10 ds) else None)"

definition parse_u8 :: "string \<Rightarrow> u8 option" where
  "parse_u8 s = map_option of_nat (parse_uint 255 s)"

definition parse_u16 :: "string \<Rightarrow> u16 option" where
  "parse_u16 s = map_option of_nat (parse_uint 65535 s)"

section \<open>Parser\<close>

type_synonym 'a parser = "string \<Rightarrow> ('a \<times> string) option"

fun read_given_char :: "char \<Rightarrow> unit parser" where
  "read_given_char c [] = None"
| "read_given_char c (x # xs) = (if x = c then Some ((), xs) else None)"

definition p_bind :: "'a parser \<Rightarrow> ('a \<Rightarrow> 'b parser) \<Rightarrow> 'b parser" where
  "p_bind p f = (\<lambda>s. case p s of None \<Rightarrow> None | Some (a, t) \<Rightarrow> f a t)"

definition p_return :: "'a \<Rightarrow> 'a parser" where
  "p_return a = (\<lambda>s. Some (a, s))"

definition read_separator :: "char \<Rightarrow> nat \<Rightarrow> 'a parser \<Rightarrow> 'a parser" where
  "read_separator sep index inner =
     (if index > 0 then p_bind (read_given_char sep) (\<lambda>_. inner) else inner)"

definition read_number :: "nat \<Rightarrow> nat option \<Rightarrow> bool \<Rightarrow> nat \<Rightarrow> nat parser" where
  "read_number radix max_digits allow_zero_prefix max_value s =
     (let ds = takeWhile (is_digit radix) s; count = length ds in
      if ds = [] \<or> (case max_digits of None \<Rightarrow> False | Some m \<Rightarrow> m < count)
         \<or> (\<not> allow_zero_prefix \<and> hd ds = CHR ''0'' \<and> 1 < count)
         \<or> max_value < digits_value radix ds
      then None
      else Some (digits_value radix ds, drop count s))"

definition read_octet :: "nat \<Rightarrow> nat parser" where
  "read_octet i = read_separator (CHR ''.'') i (read_number 10 (Some 3) False 255)"

definition read_ipv4_addr :: "u32 parser" where
  "read_ipv4_addr =
     p_bind (read_octet 0) (\<lambda>a. p_bind (read_octet 1) (\<lambda>b.
     p_bind (read_octet 2) (\<lambda>c. p_bind (read_octet 3) (\<lambda>d.
     p_return (v4_new (of_nat a) (of_nat b) (of_nat c) (of_nat d))))))"

text \<open>\<open>read_groups\<close>: the groups read into a slice of \<open>limit\<close> places from index \<open>i\<close> on, whether they end
  in an embedded IPv4 address, and the input left.\<close>

function read_groups :: "nat \<Rightarrow> nat \<Rightarrow> string \<Rightarrow> u16 list \<times> bool \<times> string" where
  "read_groups limit i s =
     (if limit \<le> i then ([], False, s)
      else
        case (if i < limit - 1 then read_separator (CHR '':'') i read_ipv4_addr s else None) of
          Some (v4, rest) \<Rightarrow> ([ucast (drop_bit 16 v4), ucast v4], True, rest)
        | None \<Rightarrow>
            (case read_separator (CHR '':'') i (read_number 16 (Some 4) True 65535) s of
               Some (g, rest) \<Rightarrow>
                 (let (gs, v4, rest') = read_groups limit (i + 1) rest in (of_nat g # gs, v4, rest'))
             | None \<Rightarrow> ([], False, s)))"
  by pat_completeness auto
termination
  by (relation "measure (\<lambda>(limit, i, s). limit - i)") auto

declare read_groups.simps [simp del]

text \<open>The address with the given eight groups.\<close>

definition of_segments :: "u16 list \<Rightarrow> u128" where
  "of_segments gs = foldl (\<lambda>acc g. push_bit 16 acc OR ucast g) 0 gs"

definition read_ipv6_addr :: "u128 parser" where
  "read_ipv6_addr s =
     (let (head, head_ipv4, rest) = read_groups 8 0 s in
      if length head = 8 then Some (of_segments head, rest)
      else if head_ipv4 then None
      else
        p_bind (read_given_char (CHR '':'')) (\<lambda>_. p_bind (read_given_char (CHR '':'')) (\<lambda>_ s'.
          let (tail, _, rest') = read_groups (8 - (length head + 1)) 0 s' in
          Some (of_segments (head @ replicate (8 - length head - length tail) 0 @ tail), rest'))) rest)"

definition read_ip_addr :: "ip_addr parser" where
  "read_ip_addr s =
     (case read_ipv4_addr s of
        Some (v4, rest) \<Rightarrow> Some (V4 v4, rest)
      | None \<Rightarrow> map_option (\<lambda>(v6, rest). (V6 v6, rest)) (read_ipv6_addr s))"

definition read_port :: "u16 parser" where
  "read_port = p_bind (read_given_char (CHR '':'')) (\<lambda>_.
     p_bind (read_number 10 None True 65535) (\<lambda>n. p_return (of_nat n)))"

definition read_scope_id :: "u32 parser" where
  "read_scope_id = p_bind (read_given_char (CHR ''%'')) (\<lambda>_.
     p_bind (read_number 10 None True 4294967295) (\<lambda>n. p_return (of_nat n)))"

definition read_socket_addr_v4 :: "socket_addr parser" where
  "read_socket_addr_v4 = p_bind read_ipv4_addr (\<lambda>ip. p_bind read_port (\<lambda>port.
     p_return (SockV4 ip port)))"

definition read_socket_addr_v6 :: "socket_addr parser" where
  "read_socket_addr_v6 =
     p_bind (read_given_char (CHR ''['')) (\<lambda>_. p_bind read_ipv6_addr (\<lambda>ip.
     p_bind (\<lambda>s. case read_scope_id s of None \<Rightarrow> Some (0, s) | Some r \<Rightarrow> Some r) (\<lambda>scope.
     p_bind (read_given_char (CHR '']'')) (\<lambda>_. p_bind read_port (\<lambda>port.
     p_return (SockV6 ip port 0 scope))))))"

definition read_socket_addr :: "socket_addr parser" where
  "read_socket_addr s =
     (case read_socket_addr_v4 s of Some r \<Rightarrow> Some r | None \<Rightarrow> read_socket_addr_v6 s)"

definition parse_with :: "'a parser \<Rightarrow> string \<Rightarrow> 'a option" where
  "parse_with p s = (case p s of Some (a, []) \<Rightarrow> Some a | _ \<Rightarrow> None)"

definition parse_ip_addr :: "string \<Rightarrow> ip_addr option" where
  "parse_ip_addr = parse_with read_ip_addr"

definition parse_socket_addr :: "string \<Rightarrow> socket_addr option" where
  "parse_socket_addr = parse_with read_socket_addr"

section \<open>Display\<close>

definition show_v4 :: "u32 \<Rightarrow> string" where
  "show_v4 ip =
     decimal (unat (v4_octet 0 ip)) @ ''.'' @ decimal (unat (v4_octet 1 ip)) @ ''.'' @
     decimal (unat (v4_octet 2 ip)) @ ''.'' @ decimal (unat (v4_octet 3 ip))"

text \<open>The longest run of zero groups, the first of several, as start and length.\<close>

fun longest_zero_run :: "nat \<Rightarrow> nat \<times> nat \<Rightarrow> nat \<times> nat \<Rightarrow> u16 list \<Rightarrow> nat \<times> nat" where
  "longest_zero_run i longest current [] = longest"
| "longest_zero_run i longest current (g # gs) =
     (if g = 0 then
        let current = (if snd current = 0 then (i, 1) else (fst current, snd current + 1));
            longest = (if snd longest < snd current then current else longest)
        in longest_zero_run (i + 1) longest current gs
      else longest_zero_run (i + 1) longest (0, 0) gs)"

fun show_groups :: "u16 list \<Rightarrow> string" where
  "show_groups [] = []"
| "show_groups [g] = to_radix 16 (unat g)"
| "show_groups (g # gs) = to_radix 16 (unat g) @ '':'' @ show_groups gs"

definition show_v6 :: "u128 \<Rightarrow> string" where
  "show_v6 ip =
     (case to_ipv4_mapped ip of
        Some v4 \<Rightarrow> ''::ffff:'' @ show_v4 v4
      | None \<Rightarrow>
          let segments = v6_segments ip;
              (start, len) = longest_zero_run 0 (0, 0) (0, 0) segments
          in if 1 < len
             then show_groups (take start segments) @ ''::'' @ show_groups (drop (start + len) segments)
             else show_groups segments)"

fun show_ip :: "ip_addr \<Rightarrow> string" where
  "show_ip (V4 ip) = show_v4 ip"
| "show_ip (V6 ip) = show_v6 ip"

fun show_socket_addr :: "socket_addr \<Rightarrow> string" where
  "show_socket_addr (SockV4 ip port) = show_v4 ip @ '':'' @ decimal (unat port)"
| "show_socket_addr (SockV6 ip port flow scope) =
     (if scope = 0 then ''['' @ show_v6 ip @ '']:'' @ decimal (unat port)
      else ''['' @ show_v6 ip @ ''%'' @ decimal (unat scope) @ '']:'' @ decimal (unat port))"

end
