(* ===== verification/Net_Text_Roundtrip.thy ===== *)
theory Net_Text_Roundtrip
  imports Net_Text
begin

text \<open>
  Reading back what \<open>Display\<close> prints: numbers, IPv4 and IPv6 addresses (zero compression and
  IPv4-mapped addresses included).
\<close>

section \<open>Numbers\<close>

lemma digit_value_char [simp]:
  assumes "d < 36"
  shows "digit_value (digit_char d) = d"
  using assms by (auto simp: digit_value_def digit_char_def Let_def)

lemma to_radix_not_Nil [simp]: "to_radix r n \<noteq> []"
  by (subst to_radix.simps) simp

lemma digits_value_snoc [simp]: "digits_value r (ds @ [c]) = digits_value r ds * r + digit_value c"
  by (simp add: digits_value_def)

lemma to_radix_digits:
  assumes "2 \<le> r" "r \<le> 36"
  shows "list_all (is_digit r) (to_radix r n)"
  using assms
proof (induction r n rule: to_radix.induct)
  case (1 r n)
  have digit: "is_digit r (digit_char d)" if "d < r" for d
    using that 1 by (simp add: is_digit_def)
  show ?case
    using 1 by (subst to_radix.simps) (auto intro: digit)
qed

lemma digits_value_to_radix:
  assumes "2 \<le> r" "r \<le> 36"
  shows "digits_value r (to_radix r n) = n"
  using assms
proof (induction r n rule: to_radix.induct)
  case (1 r n)
  show ?case
  proof (cases "n < r")
    case True
    with 1 show ?thesis by (subst to_radix.simps) (simp add: digits_value_def)
  next
    case False
    with 1 have "digits_value r (to_radix r (n div r)) = n div r" by simp
    moreover have "digit_value (digit_char (n mod r)) = n mod r"
      using 1 by (intro digit_value_char) (metis mod_less_divisor less_le_trans zero_less_numeral)
    ultimately show ?thesis using False 1 by (subst to_radix.simps) simp
  qed
qed

lemma length_to_radix:
  assumes "2 \<le> r" "n < r ^ k" "0 < k"
  shows "length (to_radix r n) \<le> k"
  using assms
proof (induction r n arbitrary: k rule: to_radix.induct)
  case (1 r n)
  show ?case
  proof (cases "n < r")
    case True
    with 1 show ?thesis by (subst to_radix.simps) simp
  next
    case False
    with 1 obtain k' where k: "k = Suc k'" and "0 < k'" by (cases k; cases "k - 1") auto
    have "n div r < r ^ k'"
      using 1 k by (simp add: less_mult_imp_div_less mult.commute)
    with 1 False \<open>0 < k'\<close> have "length (to_radix r (n div r)) \<le> k'" by simp
    with False 1 k show ?thesis by (subst to_radix.simps) simp
  qed
qed

lemma to_radix_leading_zero:
  assumes "2 \<le> r" "r \<le> 36" "hd (to_radix r n) = CHR ''0''"
  shows "length (to_radix r n) = 1"
  using assms
proof (induction r n rule: to_radix.induct)
  case (1 r n)
  show ?case
  proof (cases "n < r")
    case True
    with 1 show ?thesis by (subst to_radix.simps) simp
  next
    case False
    then have *: "to_radix r n = to_radix r (n div r) @ [digit_char (n mod r)]"
      using 1 by (subst to_radix.simps) simp
    with 1 False have one: "length (to_radix r (n div r)) = 1" by simp
    then have "to_radix r (n div r) = [CHR ''0'']"
      using 1(4) * by (cases "to_radix r (n div r)") auto
    then have "digits_value r (to_radix r (n div r)) = 0"
      by (simp add: digits_value_def digit_value_def)
    then have "n div r = 0" using 1 by (simp add: digits_value_to_radix)
    then have "n < r" using 1 by (simp add: div_eq_0_iff)
    with False show ?thesis by simp
  qed
qed

lemma takeWhile_digits:
  assumes "list_all P ds" and "\<not> (rest \<noteq> [] \<and> P (hd rest))"
  shows "takeWhile P (ds @ rest) = ds"
  using assms by (cases rest) (auto simp: list_all_iff takeWhile_append2)

text \<open>Input that does not go on with a digit.\<close>

definition stops :: "nat \<Rightarrow> string \<Rightarrow> bool" where
  "stops r s \<longleftrightarrow> s = [] \<or> \<not> is_digit r (hd s)"

lemma read_number_to_radix:
  assumes "2 \<le> r" "r \<le> 36" "n \<le> max_value" "stops r rest"
    and "\<And>m. md = Some m \<Longrightarrow> 0 < m \<and> n < r ^ m"
  shows "read_number r md z max_value (to_radix r n @ rest) = Some (n, rest)"
proof -
  have "takeWhile (is_digit r) (to_radix r n @ rest) = to_radix r n"
    using assms(1,2,4) to_radix_digits by (intro takeWhile_digits) (auto simp: stops_def)
  moreover have "\<not> m < length (to_radix r n)" if "md = Some m" for m
    using assms(5) [OF that] length_to_radix [OF assms(1), of n m] by simp
  moreover have "hd (to_radix r n) = CHR ''0'' \<Longrightarrow> \<not> 1 < length (to_radix r n)"
    using to_radix_leading_zero [OF assms(1,2)] by fastforce
  ultimately show ?thesis
    using assms by (auto simp: read_number_def Let_def digits_value_to_radix split: option.split)
qed

lemma parse_uint_decimal:
  assumes "n \<le> max_value"
  shows "parse_uint max_value (decimal n) = Some n"
proof -
  obtain c cs where d: "decimal n = c # cs" by (cases "decimal n") auto
  have "list_all (is_digit 10) (decimal n)" by (rule to_radix_digits) simp_all
  with d have "is_digit 10 c" by simp
  then have "c \<noteq> CHR ''+''" by (auto simp: is_digit_def digit_value_def)
  with d assms show ?thesis
    using to_radix_digits [of 10 n] digits_value_to_radix [of 10 n]
    by (simp add: parse_uint_def Let_def)
qed

lemma parse_u16_decimal: "parse_u16 (decimal (unat p)) = Some p"
proof -
  have "unat p \<le> 65535" using unsigned_less [of p, where ?'a = nat] by simp
  then show ?thesis by (simp add: parse_u16_def parse_uint_decimal)
qed

lemma parse_u8_decimal: "parse_u8 (decimal (unat p)) = Some p"
proof -
  have "unat p \<le> 255" using unsigned_less [of p, where ?'a = nat] by simp
  then show ?thesis by (simp add: parse_u8_def parse_uint_decimal)
qed

section \<open>IPv4\<close>

lemma p_bind_Some [simp]: "p s = Some (a, t) \<Longrightarrow> p_bind p f s = f a t"
  by (simp add: p_bind_def)

lemma p_bind_None [simp]: "p s = None \<Longrightarrow> p_bind p f s = None"
  by (simp add: p_bind_def)

lemma unat_octet_le: "unat (b :: u8) \<le> 255"
  using unsigned_less [of b, where ?'a = nat] by simp

lemma read_octet_decimal:
  fixes b :: u8
  assumes "stops 10 rest"
  shows "read_octet 0 (decimal (unat b) @ rest) = Some (unat b, rest)"
    and "0 < i \<Longrightarrow> read_octet i (CHR ''.'' # decimal (unat b) @ rest) = Some (unat b, rest)"
proof -
  have n: "read_number 10 (Some 3) False 255 (decimal (unat b) @ rest) = Some (unat b, rest)"
    using assms unat_octet_le [of b] by (intro read_number_to_radix) auto
  then show "read_octet 0 (decimal (unat b) @ rest) = Some (unat b, rest)"
    by (simp add: read_octet_def read_separator_def)
  show "read_octet i (CHR ''.'' # decimal (unat b) @ rest) = Some (unat b, rest)" if "0 < i"
    using n that by (simp add: read_octet_def read_separator_def)
qed

lemma stops_dot [simp]: "stops 10 (CHR ''.'' # s)"
  by (simp add: stops_def is_digit_def digit_value_def)

lemma v4_new_octets: "v4_new (v4_octet 0 ip) (v4_octet (Suc 0) ip) (v4_octet 2 ip) (v4_octet 3 ip) = ip"
  using v4_octets_split [of ip, symmetric] by (simp add: v4_new_def)

lemma read_ipv4_show:
  assumes "stops 10 rest"
  shows "read_ipv4_addr (show_v4 ip @ rest) = Some (ip, rest)"
  using assms
  by (simp add: read_ipv4_addr_def show_v4_def read_octet_decimal p_return_def v4_new_octets)

section \<open>Segments\<close>

lemma of_segments_snoc: "of_segments (gs @ [g]) = push_bit 16 (of_segments gs) OR ucast g"
  by (simp add: of_segments_def)

lemma of_segments_zeros: "of_segments (replicate n 0 @ gs) = of_segments gs"
  by (induction n) (simp_all add: of_segments_def)

lemma of_segments_prefix:
  assumes "n \<le> 8"
  shows "of_segments (map (\<lambda>i. segment i ip) [0..<n]) = drop_bit (16 * (8 - n)) ip"
  using assms
proof (induction n)
  case 0
  have "drop_bit 128 ip = 0" by (rule bit_word_eqI) (auto simp: bit_simps dest: bit_imp_le_length)
  then show ?case by (simp add: of_segments_def)
next
  case (Suc n)
  then have IH: "of_segments (map (\<lambda>i. segment i ip) [0..<n]) = drop_bit (16 * (8 - n)) ip" by simp
  let ?k = "16 * (8 - Suc n)"
  have k: "16 * (8 - n) = 16 + ?k" "112 - 16 * n = ?k" using Suc.prems by simp_all
  have "of_segments (map (\<lambda>i. segment i ip) [0..<Suc n]) =
      push_bit 16 (drop_bit (16 * (8 - n)) ip) OR ucast (segment n ip)"
    by (simp add: of_segments_snoc IH)
  also have "\<dots> = push_bit 16 (drop_bit (16 + ?k) ip) OR ucast (ucast (drop_bit ?k ip) :: u16)"
    unfolding segment_def k ..
  also have "\<dots> = drop_bit ?k ip"
    by (rule bit_word_eqI) (auto simp: bit_simps dest: bit_imp_le_length)
  finally show ?case .
qed

lemma v6_segments_map: "v6_segments ip = map (\<lambda>i. segment i ip) [0..<8]"
  by (simp add: v6_segments_def upt_rec eval_nat_numeral)

lemma of_segments_v6_segments [simp]: "of_segments (v6_segments ip) = ip"
  using of_segments_prefix [of 8 ip] by (simp add: v6_segments_map)

lemma length_v6_segments [simp]: "length (v6_segments ip) = 8"
  by (simp add: v6_segments_def)

lemma of_segments_mapped: "of_segments [0xFFFF, ucast (drop_bit 16 v4), ucast v4] = mapped_of_v4 v4"
proof -
  have "push_bit 16 (ucast (ucast (drop_bit 16 v4) :: u16) :: u128) OR ucast (ucast v4 :: u16) = ucast v4"
    by (rule bit_word_eqI) (auto simp: bit_simps dest: bit_imp_le_length)
  then show ?thesis
    by (simp add: of_segments_def mapped_of_v4_def push_bit_or or.assoc)
qed

section \<open>Runs of zero groups\<close>

text \<open>A run \<open>(start, len)\<close> inside the first \<open>i\<close> groups: all of them are zero.\<close>

definition zero_run :: "u16 list \<Rightarrow> nat \<Rightarrow> nat \<times> nat \<Rightarrow> bool" where
  "zero_run gs i r \<longleftrightarrow> snd r = 0 \<or>
     fst r + snd r \<le> i \<and> (\<forall>j. fst r \<le> j \<and> j < fst r + snd r \<longrightarrow> gs ! j = 0)"

lemma longest_zero_run_sound:
  assumes "zero_run gs i longest" and "zero_run gs i current"
    and "snd current = 0 \<or> fst current + snd current = i" and "i + length rest = length gs"
    and "drop i gs = rest"
  shows "zero_run gs (length gs) (longest_zero_run i longest current rest)"
  using assms
proof (induction i longest current rest rule: longest_zero_run.induct)
  case (1 i longest current)
  then show ?case by simp
next
  case (2 i longest current g rest)
  have g: "gs ! i = g" and rest: "drop (Suc i) gs = rest"
    using 2(7) by (simp add: nth_via_drop, metis drop_Suc list.sel(3) tl_drop)
  have mono: "zero_run gs (Suc i) r" if "zero_run gs i r" for r
    using that by (auto simp: zero_run_def)
  let ?c = "if snd current = 0 then (i, 1) else (fst current, snd current + 1)"
  show ?case
  proof (cases "g = 0")
    case True
    have c: "zero_run gs (Suc i) ?c"
      using 2(4,5) True g by (auto simp: zero_run_def less_Suc_eq)
    show ?thesis
      using 2(1) [OF True refl refl] 2(3,5,6) True c mono [OF 2(3)] rest by (auto simp: Let_def)
  next
    case False
    with 2(2) [OF False] 2(3,5,6,7) mono rest show ?thesis by (simp add: zero_run_def)
  qed
qed

lemma zero_run_split:
  assumes "zero_run gs (length gs) (start, len)" and "0 < len"
  shows "take start gs @ replicate len 0 @ drop (start + len) gs = gs" and "start + len \<le> length gs"
proof -
  show len: "start + len \<le> length gs" using assms by (auto simp: zero_run_def)
  have "take len (drop start gs) = replicate len 0"
    using assms len by (intro nth_equalityI) (auto simp: zero_run_def)
  then have "gs = take start gs @ replicate len 0 @ drop len (drop start gs)"
    by (metis append_take_drop_id)
  then show "take start gs @ replicate len 0 @ drop (start + len) gs = gs"
    by (simp add: add.commute)
qed

section \<open>IPv6\<close>

lemma read_ipv4_needs_dot: "CHR ''.'' \<notin> set s \<Longrightarrow> read_ipv4_addr s = None"
proof -
  assume dot: "CHR ''.'' \<notin> set s"
  show ?thesis
  proof (cases "read_octet 0 s")
    case (Some r)
    then obtain a k where r: "read_octet 0 s = Some (a, drop k s)"
      by (auto simp: read_octet_def read_separator_def read_number_def Let_def split: if_splits)
    have "CHR ''.'' \<notin> set (drop k s)" using dot by (meson in_set_dropD)
    then have "read_octet 1 (drop k s) = None"
      by (cases "drop k s") (auto simp: read_octet_def read_separator_def)
    with r show ?thesis by (simp add: read_ipv4_addr_def)
  qed (simp add: read_ipv4_addr_def)
qed

lemma read_ipv4_sep_needs_dot: "CHR ''.'' \<notin> set s \<Longrightarrow> read_separator c i read_ipv4_addr s = None"
  by (cases s) (auto simp: read_separator_def read_ipv4_needs_dot p_bind_def)

definition hex_tail :: "u16 list \<Rightarrow> string" where
  "hex_tail gs = concat (map (\<lambda>g. CHR '':'' # to_radix 16 (unat g)) gs)"

lemma hex_tail_simps [simp]:
  "hex_tail [] = []" "hex_tail (g # gs) = CHR '':'' # to_radix 16 (unat g) @ hex_tail gs"
  by (simp_all add: hex_tail_def)

lemma show_groups_Cons: "show_groups (g # gs) = to_radix 16 (unat g) @ hex_tail gs"
  by (induction gs arbitrary: g) simp_all

lemma stops_colon [simp]: "stops 16 (CHR '':'' # s)"
  by (simp add: stops_def is_digit_def digit_value_def)

text \<open>Input at which no further group can be read.\<close>

definition no_group :: "string \<Rightarrow> bool" where
  "no_group s \<longleftrightarrow> stops 16 s \<and> (s = [] \<or> hd s \<noteq> CHR '':'' \<or> stops 16 (tl s))"

lemma read_number_stops: "stops r s \<Longrightarrow> read_number r md z mv s = None"
  by (cases s) (auto simp: stops_def read_number_def)

lemma read_group_stops:
  "no_group s \<Longrightarrow> read_separator (CHR '':'') i (read_number 16 md z mv) s = None"
  by (cases s) (auto simp: no_group_def read_separator_def p_bind_def read_number_stops)

lemma read_hex_group:
  fixes g :: u16
  assumes "stops 16 rest"
  shows "read_number 16 (Some 4) True 65535 (to_radix 16 (unat g) @ rest) = Some (unat g, rest)"
proof -
  have "unat g < 65536" using unsigned_less [of g, where ?'a = nat] by simp
  then show ?thesis using assms by (intro read_number_to_radix) auto
qed

lemma stops_hex_tail: "no_group rest \<Longrightarrow> stops 16 (hex_tail gs @ rest)"
  by (cases gs) (auto simp: no_group_def)

lemma read_groups_tail:
  assumes "CHR ''.'' \<notin> set (hex_tail gs @ rest)" and "0 < i" and "i + length gs \<le> limit"
    and "no_group rest"
  shows "read_groups limit i (hex_tail gs @ rest) = (gs, False, rest)"
  using assms
proof (induction gs arbitrary: i)
  case Nil
  then show ?case
    by (subst read_groups.simps) (simp add: read_ipv4_sep_needs_dot read_group_stops)
next
  case (Cons g gs)
  have v4: "read_separator (CHR '':'') i read_ipv4_addr (hex_tail (g # gs) @ rest) = None"
    using Cons.prems(1) by (rule read_ipv4_sep_needs_dot)
  have "read_separator (CHR '':'') i (read_number 16 (Some 4) True 65535) (hex_tail (g # gs) @ rest) =
      Some (unat g, hex_tail gs @ rest)"
    using Cons.prems by (simp add: read_separator_def read_hex_group stops_hex_tail)
  then show ?case
    using Cons v4 by (subst read_groups.simps) simp
qed

lemma read_groups_show:
  assumes "CHR ''.'' \<notin> set (show_groups gs @ rest)" and "length gs \<le> limit" and "no_group rest"
  shows "read_groups limit 0 (show_groups gs @ rest) = (gs, False, rest)"
proof (cases gs)
  case Nil
  with assms show ?thesis
    by (subst read_groups.simps) (simp add: read_ipv4_sep_needs_dot read_group_stops)
next
  case (Cons g hs)
  have v4: "read_separator (CHR '':'') 0 read_ipv4_addr (show_groups gs @ rest) = None"
    using assms(1) by (rule read_ipv4_sep_needs_dot)
  have "read_separator (CHR '':'') 0 (read_number 16 (Some 4) True 65535) (show_groups gs @ rest) =
      Some (unat g, hex_tail hs @ rest)"
    using assms Cons by (simp add: read_separator_def read_hex_group stops_hex_tail show_groups_Cons)
  moreover have "read_groups limit 1 (hex_tail hs @ rest) = (hs, False, rest)"
    using assms Cons by (intro read_groups_tail) (auto simp: show_groups_Cons)
  ultimately show ?thesis
    using assms(2) Cons v4 by (subst read_groups.simps) simp
qed

lemma hex_no_dot: "c \<in> set (to_radix 16 n) \<Longrightarrow> is_digit 16 c"
  using to_radix_digits [of 16 n] by (simp add: list_all_iff)

lemma show_groups_chars: "c \<in> set (show_groups gs) \<Longrightarrow> is_digit 16 c \<or> c = CHR '':''"
  by (induction gs rule: show_groups.induct) (auto dest: hex_no_dot)

lemma dot_not_hex [simp]: "\<not> is_digit 16 (CHR ''.'')"
  by (simp add: is_digit_def digit_value_def)

lemma show_groups_no_dot [simp]: "CHR ''.'' \<notin> set (show_groups gs)"
  using show_groups_chars by fastforce

text \<open>What may follow an address: nothing, or a character that is neither a hexadecimal digit, a colon
  nor a dot.\<close>

definition delimited :: "string \<Rightarrow> bool" where
  "delimited s \<longleftrightarrow> CHR ''.'' \<notin> set s \<and> (s = [] \<or> \<not> is_digit 16 (hd s) \<and> hd s \<noteq> CHR '':'')"

lemma delimited_no_group: "delimited s \<Longrightarrow> no_group s"
  by (auto simp: delimited_def no_group_def stops_def)

lemma is_digit_mono: "is_digit r c \<Longrightarrow> r \<le> q \<Longrightarrow> is_digit q c"
  by (simp add: is_digit_def)

lemma delimited_stops: "delimited s \<Longrightarrow> stops 10 s"
  using is_digit_mono [of 10 _ 16] by (auto simp: delimited_def stops_def)

lemma read_ipv6_compressed:
  assumes segs: "length segs = 8" "zero_run segs 8 (start, len)" "1 < len" and rest: "delimited rest"
  shows "read_ipv6_addr (show_groups (take start segs) @ ''::'' @ show_groups (drop (start + len) segs) @ rest)
    = Some (of_segments segs, rest)"
proof -
  let ?tail = "show_groups (drop (start + len) segs) @ rest"
  have bound: "start + len \<le> 8" and split: "take start segs @ replicate len 0 @ drop (start + len) segs = segs"
    using zero_run_split [of segs start len] segs by simp_all
  have dots: "CHR ''.'' \<notin> set ?tail" using rest by (simp add: delimited_def)
  have "no_group (''::'' @ ?tail)" by (simp add: no_group_def)
  then have head: "read_groups 8 0 (show_groups (take start segs) @ ''::'' @ ?tail) =
      (take start segs, False, ''::'' @ ?tail)"
    using dots segs by (intro read_groups_show) auto
  have tail: "read_groups (8 - (start + 1)) 0 ?tail = (drop (start + len) segs, False, rest)"
    using dots rest segs bound by (intro read_groups_show) (auto intro: delimited_no_group)
  have "8 - start - length (drop (start + len) segs) = len" using segs bound by simp
  then show ?thesis
    unfolding read_ipv6_addr_def head using segs bound tail split
    by (simp add: min_def)
qed

lemma read_ipv6_mapped:
  assumes "delimited rest"
  shows "read_ipv6_addr (''::ffff:'' @ show_v4 v4 @ rest) = Some (mapped_of_v4 v4, rest)"
proof -
  let ?s = "''ffff:'' @ show_v4 v4 @ rest"
  have nondec: "read_octet 0 (CHR ''f'' # s) = None" "read_octet 0 (CHR '':'' # s) = None" for s
    by (simp_all add: read_octet_def read_separator_def read_number_def is_digit_def digit_value_def)
  have head: "read_groups 8 0 (''::'' @ ?s) = ([], False, ''::'' @ ?s)"
    by (subst read_groups.simps)
       (simp add: read_separator_def read_ipv4_addr_def nondec read_number_stops)
  have ffff: "read_number 16 (Some 4) True 65535 ?s = Some (0xFFFF, CHR '':'' # show_v4 v4 @ rest)"
    by (simp add: read_number_def is_digit_def digit_value_def digits_value_def)
  have v4: "read_groups 7 1 (CHR '':'' # show_v4 v4 @ rest) =
      ([ucast (drop_bit 16 v4), ucast v4], True, rest)"
    using read_ipv4_show [OF delimited_stops [OF assms], of v4]
    by (subst read_groups.simps) (simp add: read_separator_def)
  have tail: "read_groups 7 0 ?s = ([0xFFFF, ucast (drop_bit 16 v4), ucast v4], True, rest)"
    using ffff v4
    by (subst read_groups.simps) (simp add: read_separator_def read_ipv4_addr_def nondec)
  show ?thesis
    unfolding read_ipv6_addr_def using head tail
    by (simp add: of_segments_zeros of_segments_mapped)
qed

lemma read_ipv6_show:
  assumes "delimited rest"
  shows "read_ipv6_addr (show_v6 ip @ rest) = Some (ip, rest)"
proof (cases "to_ipv4_mapped ip")
  case (Some v4)
  then show ?thesis
    using read_ipv6_mapped [OF assms, of v4] by (simp add: show_v6_def to_ipv4_mapped_Some_iff)
next
  case None
  obtain start len where run: "longest_zero_run 0 (0, 0) (0, 0) (v6_segments ip) = (start, len)"
    by (cases "longest_zero_run 0 (0, 0) (0, 0) (v6_segments ip)")
  have "zero_run (v6_segments ip) 8 (start, len)"
    using longest_zero_run_sound [of "v6_segments ip" 0 "(0, 0)" "(0, 0)" "v6_segments ip"] run
    by (simp add: zero_run_def)
  then have "read_ipv6_addr (show_v6 ip @ rest) = Some (of_segments (v6_segments ip), rest)" if "1 < len"
    using read_ipv6_compressed [OF _ _ that assms] None run that by (simp add: show_v6_def Let_def)
  moreover have "read_groups 8 0 (show_groups (v6_segments ip) @ rest) = (v6_segments ip, False, rest)"
    using assms by (intro read_groups_show) (auto intro: delimited_no_group simp: delimited_def)
  then have "read_ipv6_addr (show_v6 ip @ rest) = Some (of_segments (v6_segments ip), rest)" if "\<not> 1 < len"
    using None run that by (simp add: show_v6_def read_ipv6_addr_def Let_def)
  ultimately show ?thesis by (cases "1 < len") simp_all
qed

section \<open>Addresses\<close>

lemma read_octet_colon: "read_octet 0 (CHR '':'' # s) = None"
  by (simp add: read_octet_def read_separator_def read_number_def is_digit_def digit_value_def)

lemma read_ipv4_show_v6:
  assumes "delimited rest"
  shows "read_ipv4_addr (show_v6 ip @ rest) = None"
proof (cases "to_ipv4_mapped ip")
  case None
  then have "CHR ''.'' \<notin> set (show_v6 ip @ rest)"
    using assms by (auto simp: show_v6_def delimited_def Let_def split: prod.split)
  then show ?thesis by (rule read_ipv4_needs_dot)
qed (simp add: show_v6_def read_ipv4_addr_def read_octet_colon)

lemma read_ip_show: "delimited rest \<Longrightarrow> read_ip_addr (show_ip ip @ rest) = Some (ip, rest)"
  by (cases ip)
     (simp_all add: read_ip_addr_def read_ipv4_show delimited_stops read_ipv4_show_v6 read_ipv6_show)

lemma parse_ip_show [simp]: "parse_ip_addr (show_ip ip) = Some ip"
  using read_ip_show [of "[]" ip] by (simp add: parse_ip_addr_def parse_with_def delimited_def)

text \<open>The characters of printed addresses.\<close>

definition addr_char :: "char \<Rightarrow> bool" where
  "addr_char c \<longleftrightarrow> is_digit 16 c \<or> c = CHR '':'' \<or> c = CHR ''.''"

lemma decimal_chars: "c \<in> set (decimal n) \<Longrightarrow> is_digit 10 c"
  using to_radix_digits [of 10 n] by (simp add: list_all_iff)

lemma show_v4_chars: "c \<in> set (show_v4 ip) \<Longrightarrow> is_digit 10 c \<or> c = CHR ''.''"
  by (auto simp: show_v4_def dest: decimal_chars)

lemma show_v6_chars: "c \<in> set (show_v6 ip) \<Longrightarrow> addr_char c"
proof -
  have "is_digit 16 (CHR ''f'')" by (simp add: is_digit_def digit_value_def)
  then show "c \<in> set (show_v6 ip) \<Longrightarrow> addr_char c"
    using show_groups_chars show_v4_chars is_digit_mono [of 10 c 16]
    by (auto simp: show_v6_def Let_def addr_char_def split: option.splits prod.splits if_splits)
qed

lemma show_ip_chars: "c \<in> set (show_ip ip) \<Longrightarrow> addr_char c"
  using show_v4_chars show_v6_chars is_digit_mono [of 10 c 16]
  by (cases ip) (auto simp: addr_char_def)

lemma show_v4_no_colon: "CHR '':'' \<notin> set (show_v4 ip)"
  using show_v4_chars [of "CHR '':''" ip] by (auto simp: is_digit_def digit_value_def)

text \<open>An IPv6 address is printed with at least two colons.\<close>

lemma show_groups_colons: "length (filter ((=) (CHR '':'')) (show_groups gs)) = length gs - 1"
proof (induction gs rule: show_groups.induct)
  case (2 g)
  have "CHR '':'' \<notin> set (to_radix 16 (unat g))"
    using hex_no_dot [of "CHR '':''"] by (auto simp: is_digit_def digit_value_def)
  then show ?case by (auto simp: filter_empty_conv)
next
  case (3 g h gs)
  have "CHR '':'' \<notin> set (to_radix 16 (unat g))"
    using hex_no_dot [of "CHR '':''"] by (auto simp: is_digit_def digit_value_def)
  then have "filter ((=) (CHR '':'')) (to_radix 16 (unat g)) = []" by (auto simp: filter_empty_conv)
  with 3 show ?case by simp
qed simp

lemma show_v6_colons: "2 \<le> length (filter ((=) (CHR '':'')) (show_v6 ip))"
  by (auto simp: show_v6_def Let_def show_groups_colons split: option.split prod.split)

end
