(* ===== verification/Policy_Text.thy ===== *)
theory Policy_Text
  imports Dest_Policy Net_Text_Roundtrip
begin

text \<open>
  The text forms of \<open>src/policy\<close>: \<open>FromStr\<close> and \<open>Display\<close> of \<open>Cidr\<close>, \<open>PortRange\<close> and
  \<open>InternalWhitelistEntry\<close>, \<open>PolicyParseError\<close>, and \<open>Display\<close> of \<open>DenyReason\<close>.
\<close>

section \<open>Definitions\<close>

record policy_parse_error =
  ppe_input :: string
  ppe_reason :: string

definition policy_parse_error_new :: "string \<Rightarrow> string \<Rightarrow> policy_parse_error" where
  "policy_parse_error_new input reason = \<lparr>ppe_input = input, ppe_reason = reason\<rparr>"

definition policy_parse_error_show :: "policy_parse_error \<Rightarrow> string" where
  "policy_parse_error_show e = [CHR 0x27] @ ppe_input e @ [CHR 0x27] @ '': '' @ ppe_reason e"

definition option_filter :: "('a \<Rightarrow> bool) \<Rightarrow> 'a option \<Rightarrow> 'a option" where
  "option_filter P x = (case x of None \<Rightarrow> None | Some a \<Rightarrow> if P a then Some a else None)"

definition cidr_from_str :: "string \<Rightarrow> policy_parse_error + cidr" where
  "cidr_from_str input =
     (let trimmed = trim input;
          (addr, prefix) = (case split_once (CHR ''/'') trimmed of
             Some (addr, prefix) \<Rightarrow> (addr, Some prefix)
           | None \<Rightarrow> (trimmed, None))
      in try_bind (ok_or (policy_parse_error_new input ''expected an IP address or CIDR'')
                         (parse_ip_addr addr)) (\<lambda>addr.
         let max_prefix = (if is_ipv4 addr then 32 else 128) in
         try_bind (case prefix of
             None \<Rightarrow> Ok max_prefix
           | Some prefix \<Rightarrow> ok_or (policy_parse_error_new input ''invalid prefix length'')
                              (option_filter (\<lambda>prefix. prefix \<le> max_prefix) (parse_u8 prefix)))
         (\<lambda>prefix_len. ok_or (policy_parse_error_new input ''invalid prefix length'')
                         (cidr_new addr prefix_len))))"

definition cidr_show :: "cidr \<Rightarrow> string" where
  "cidr_show c = show_ip (cidr_network c) @ ''/'' @ decimal (unat (cidr_prefix_len c))"

definition parse_port :: "string \<Rightarrow> u16 option" where
  "parse_port value = option_filter (\<lambda>port. port \<noteq> 0) (parse_u16 (trim value))"

definition port_range_from_str :: "string \<Rightarrow> policy_parse_error + port_range" where
  "port_range_from_str input =
     (let (first_port, last_port) = (case split_once (CHR ''-'') input of
            Some (first_port, last_port) \<Rightarrow> (parse_port first_port, parse_port last_port)
          | None \<Rightarrow> (parse_port input, parse_port input));
          failure = Err (policy_parse_error_new input ''expected a port 1-65535 or a range like 8000-8100'')
      in case (first_port, last_port) of
           (Some first_port, Some last_port) \<Rightarrow>
             if first_port \<le> last_port then Ok \<lparr>pr_first = first_port, pr_last = last_port\<rparr> else failure
         | _ \<Rightarrow> failure)"

definition port_range_show :: "port_range \<Rightarrow> string" where
  "port_range_show r =
     (if pr_first r = pr_last r then decimal (unat (pr_first r))
      else decimal (unat (pr_first r)) @ ''-'' @ decimal (unat (pr_last r)))"

definition EXPECTED_FORMAT :: string where
  "EXPECTED_FORMAT =
     ''expected IP or CIDR with an optional :port or :port-range ([ipv6]:port for IPv6)''"

text \<open>The network and port parts of an entry.\<close>

definition split_entry :: "string \<Rightarrow> string \<Rightarrow> policy_parse_error + (string \<times> string option)" where
  "split_entry input trimmed =
     (let format_error = policy_parse_error_new input EXPECTED_FORMAT in
      case strip_prefix_char (CHR ''['') trimmed of
        Some bracketed \<Rightarrow>
          try_bind (ok_or format_error (split_once (CHR '']'') bracketed)) (\<lambda>(network, rest).
          try_bind (if rest = [] then Ok None
                    else map_ok Some (ok_or format_error (strip_prefix_char (CHR '':'') rest)))
          (\<lambda>ports. Ok (network, ports)))
      | None \<Rightarrow>
          Ok (case split_once (CHR '':'') trimmed of
                Some (network, ports) \<Rightarrow>
                  if CHR '':'' \<notin> set ports then (network, Some ports) else (trimmed, None)
              | None \<Rightarrow> (trimmed, None)))"

definition entry_from_str :: "string \<Rightarrow> policy_parse_error + whitelist_entry" where
  "entry_from_str input =
     (let trimmed = trim input in
      try_bind (split_entry input trimmed) (\<lambda>(network, ports).
      try_bind (map_err (\<lambda>error. policy_parse_error_new input (ppe_reason error))
                        (cidr_from_str network)) (\<lambda>network.
      try_bind (case ports of
                  None \<Rightarrow> Ok None
                | Some p \<Rightarrow> map_ok Some
                    (map_err (\<lambda>error. policy_parse_error_new input (ppe_reason error))
                             (port_range_from_str p))) (\<lambda>ports.
      Ok \<lparr>wl_network = network, wl_ports = ports\<rparr>))))"

definition entry_show :: "whitelist_entry \<Rightarrow> string" where
  "entry_show e =
     (case wl_ports e of
        None \<Rightarrow> cidr_show (wl_network e)
      | Some ports \<Rightarrow>
          if is_ipv6 (cidr_network (wl_network e))
          then ''['' @ cidr_show (wl_network e) @ '']:'' @ port_range_show ports
          else cidr_show (wl_network e) @ '':'' @ port_range_show ports)"

fun deny_reason_show :: "deny_reason \<Rightarrow> string" where
  "deny_reason_show (BlockedPort port) = ''port '' @ decimal (unat port) @ '' is blocked''"
| "deny_reason_show ReservedAddress = ''reserved address''"
| "deny_reason_show (InternalAddress Private) =
     ''private address (allow_internal or internal_whitelist opens it)''"
| "deny_reason_show (InternalAddress class) =
     ip_class_as_str class @ '' address (only an internal_whitelist entry opens it)''"

section \<open>Trimming\<close>

definition graphic :: "char \<Rightarrow> bool" where
  "graphic c \<longleftrightarrow> 32 < (of_char c :: nat) \<and> (of_char c :: nat) < 127"

lemma drop_first_prefix_None:
  "\<forall>w \<in> set ws. w \<noteq> [] \<and> hd w \<noteq> c \<Longrightarrow> drop_first_prefix ws (c # s) = None"
proof (induction ws)
  case (Cons w ws)
  then have "take (length w) (c # s) \<noteq> w" by (cases w) auto
  with Cons show ?case by simp
qed simp

lemma white_space_ends: "list_all (\<lambda>w. w \<noteq> [] \<and> \<not> graphic (hd w) \<and> \<not> graphic (last w)) white_space"
  by (simp add: white_space_def graphic_def)

lemma drop_first_prefix_white:
  assumes "graphic c"
  shows "drop_first_prefix white_space (c # s) = None"
    and "drop_first_prefix (map rev white_space) (c # s) = None"
  using white_space_ends assms
  by (auto intro!: drop_first_prefix_None simp: list_all_iff hd_rev)

lemma drop_first_prefix_Nil: "drop_first_prefix ws [] = None"
  by (induction ws) auto

lemma trim_graphic:
  assumes "s \<noteq> []" "graphic (hd s)" "graphic (last s)"
  shows "trim s = s"
proof -
  obtain c cs where "s = c # cs" using assms by (cases s) auto
  then have "trim_with white_space s = s"
    using assms by (simp add: trim_with_id drop_first_prefix_white)
  moreover obtain d ds where d: "rev s = d # ds" using assms by (cases "rev s") auto
  then have "graphic d" using assms by (metis hd_rev list.sel(1))
  then have "trim_with (map rev white_space) (rev s) = rev s"
    using d by (simp add: trim_with_id drop_first_prefix_white)
  ultimately show ?thesis by (simp add: trim_def)
qed

lemma trim_all_graphic: "list_all graphic s \<Longrightarrow> trim s = s"
proof (cases "s = []")
  case True
  then show ?thesis by (simp add: trim_def trim_with_id drop_first_prefix_Nil)
next
  case False
  assume "list_all graphic s"
  with False show ?thesis by (intro trim_graphic) (auto simp: list_all_iff)
qed

lemma digit_graphic: "is_digit r c \<Longrightarrow> r \<le> 36 \<Longrightarrow> graphic c"
  by (auto simp: is_digit_def digit_value_def graphic_def Let_def split: if_splits)

lemma addr_char_graphic: "addr_char c \<Longrightarrow> graphic c"
  by (auto simp: addr_char_def dest: digit_graphic) (simp_all add: graphic_def)

section \<open>Round trips\<close>

definition port_range_wf :: "port_range \<Rightarrow> bool" where
  "port_range_wf r \<longleftrightarrow> 0 < pr_first r \<and> pr_first r \<le> pr_last r"

definition entry_wf :: "whitelist_entry \<Rightarrow> bool" where
  "entry_wf e \<longleftrightarrow> cidr_wf (wl_network e) \<and> pred_option port_range_wf (wl_ports e)"

lemma decimal_graphic: "list_all graphic (decimal n)"
  using decimal_chars [of _ n] digit_graphic [of 10] by (auto simp: list_all_iff)

lemma cidr_show_graphic: "list_all graphic (cidr_show c)"
  using decimal_graphic show_ip_chars addr_char_graphic
  by (auto simp: cidr_show_def list_all_iff) (simp add: graphic_def)

lemma slash_not_addr: "CHR ''/'' \<notin> set (show_ip ip)"
  using show_ip_chars [of "CHR ''/''" ip] by (auto simp: addr_char_def is_digit_def digit_value_def)

lemma cidr_new_wf_id:
  assumes "cidr_wf c"
  shows "cidr_new (cidr_network c) (cidr_prefix_len c) = Some c"
  using assms by (cases c; cases "cidr_network c") (auto simp: cidr_wf_def)

lemma cidr_wf_prefix:
  "cidr_wf c \<Longrightarrow> cidr_prefix_len c \<le> (if is_ipv4 (cidr_network c) then 32 else 128)"
  by (cases "cidr_network c") (auto simp: cidr_wf_def)

lemma cidr_roundtrip: "cidr_wf c \<Longrightarrow> cidr_from_str (cidr_show c) = Ok c"
proof -
  assume wf: "cidr_wf c"
  have "split_once (CHR ''/'') (cidr_show c) =
      Some (show_ip (cidr_network c), decimal (unat (cidr_prefix_len c)))"
    by (simp add: cidr_show_def split_once_Some_iff slash_not_addr)
  then show ?thesis
    using cidr_wf_prefix [OF wf] cidr_new_wf_id [OF wf]
    by (simp add: cidr_from_str_def trim_all_graphic cidr_show_graphic parse_u8_decimal option_filter_def)
qed

lemma minus_not_decimal: "CHR ''-'' \<notin> set (decimal n)"
  using decimal_chars [of "CHR ''-''" n] by (auto simp: is_digit_def digit_value_def)

lemma parse_port_decimal: "p \<noteq> 0 \<Longrightarrow> parse_port (decimal (unat p)) = Some p"
  by (simp add: parse_port_def trim_all_graphic decimal_graphic parse_u16_decimal option_filter_def)

lemma port_range_roundtrip:
  assumes "port_range_wf r"
  shows "port_range_from_str (port_range_show r) = Ok r"
proof -
  have ports: "pr_first r \<noteq> 0" "pr_last r \<noteq> 0" "pr_first r \<le> pr_last r"
    using assms by (auto simp: port_range_wf_def)
  have "split_once (CHR ''-'') (decimal n) = None" for n
    by (simp add: split_once_None_iff minus_not_decimal)
  moreover have "split_once (CHR ''-'') (decimal n @ CHR ''-'' # decimal m) = Some (decimal n, decimal m)" for n m
    by (simp add: split_once_Some_iff minus_not_decimal)
  ultimately show ?thesis
    using ports by (simp add: port_range_from_str_def port_range_show_def parse_port_decimal)
qed

lemma colon_not_range: "CHR '':'' \<notin> set (port_range_show r)"
  using decimal_chars [of "CHR '':''"]
  by (auto simp: port_range_show_def is_digit_def digit_value_def split: if_splits)

lemma range_graphic: "list_all graphic (port_range_show r)"
  using decimal_graphic by (auto simp: port_range_show_def list_all_iff graphic_def)

lemma entry_show_graphic: "list_all graphic (entry_show e)"
  using cidr_show_graphic range_graphic
  by (auto simp: entry_show_def graphic_def split: option.split)

lemma cidr_show_chars: "c \<in> set (cidr_show n) \<Longrightarrow> addr_char c \<or> c = CHR ''/''"
  using show_ip_chars decimal_chars is_digit_mono [of 10 c 16]
  by (auto simp: cidr_show_def addr_char_def)

lemma cidr_show_no_bracket [simp]: "CHR ''['' \<notin> set (cidr_show c)" "CHR '']'' \<notin> set (cidr_show c)"
  using cidr_show_chars [of _ c] by (auto simp: addr_char_def is_digit_def digit_value_def dest!: cidr_show_chars)

lemma strip_no_bracket: "CHR ''['' \<notin> set s \<Longrightarrow> strip_prefix_char (CHR ''['') s = None"
  by (cases s) auto

lemma cidr_show_colons:
  "is_ipv4 (cidr_network c) \<Longrightarrow> CHR '':'' \<notin> set (cidr_show c)"
  "is_ipv6 (cidr_network c) \<Longrightarrow> 2 \<le> length (filter ((=) (CHR '':'')) (cidr_show c))"
  using show_v4_no_colon decimal_chars [of "CHR '':''"] show_v6_colons
  by (cases "cidr_network c"; force simp: cidr_show_def is_digit_def digit_value_def intro: trans_le_add1)+

lemma split_entry_plain:
  "split_entry input (cidr_show c) = Ok (cidr_show c, None)"
proof (cases "split_once (CHR '':'') (cidr_show c)")
  case (Some nr)
  then obtain n r where s: "split_once (CHR '':'') (cidr_show c) = Some (n, r)" by (cases nr) auto
  then have c: "cidr_show c = n @ CHR '':'' # r" and n: "CHR '':'' \<notin> set n"
    by (simp_all add: split_once_Some_iff)
  then have "is_ipv6 (cidr_network c)" using cidr_show_colons(1) by fastforce
  then have "2 \<le> length (filter ((=) (CHR '':'')) (n @ CHR '':'' # r))"
    using cidr_show_colons(2) by (simp add: c [symmetric])
  moreover have "filter ((=) (CHR '':'')) n = []" using n by (auto simp: filter_empty_conv)
  ultimately have "filter ((=) (CHR '':'')) r \<noteq> []" by auto
  then have "CHR '':'' \<in> set r" by (auto simp: filter_empty_conv)
  with s show ?thesis by (simp add: split_entry_def strip_no_bracket)
qed (simp add: split_entry_def strip_no_bracket)

lemma split_entry_v4_ports:
  assumes "is_ipv4 (cidr_network c)"
  shows "split_entry input (cidr_show c @ '':'' @ port_range_show r) = Ok (cidr_show c, Some (port_range_show r))"
proof -
  have "split_once (CHR '':'') (cidr_show c @ CHR '':'' # port_range_show r) = Some (cidr_show c, port_range_show r)"
    using cidr_show_colons(1) [OF assms] by (simp add: split_once_Some_iff)
  moreover have "strip_prefix_char (CHR ''['') (cidr_show c @ CHR '':'' # port_range_show r) = None"
    using cidr_show_no_bracket(1) [of c] by (cases "cidr_show c") auto
  ultimately show ?thesis by (simp add: split_entry_def colon_not_range)
qed

lemma split_entry_v6_ports:
  "split_entry input (''['' @ cidr_show c @ '']:'' @ port_range_show r) = Ok (cidr_show c, Some (port_range_show r))"
proof -
  have "split_once (CHR '']'') (cidr_show c @ CHR '']'' # CHR '':'' # port_range_show r) =
      Some (cidr_show c, CHR '':'' # port_range_show r)"
    by (simp add: split_once_Some_iff)
  then show ?thesis by (simp add: split_entry_def)
qed

lemma entry_roundtrip:
  assumes "entry_wf e"
  shows "entry_from_str (entry_show e) = Ok e"
proof -
  have net: "cidr_from_str (cidr_show (wl_network e)) = Ok (wl_network e)"
    using assms by (simp add: entry_wf_def cidr_roundtrip)
  have "split_entry (entry_show e) (entry_show e) =
      Ok (cidr_show (wl_network e), map_option port_range_show (wl_ports e))"
    using split_entry_plain split_entry_v4_ports split_entry_v6_ports
    by (auto simp: entry_show_def split: option.split)
  then show ?thesis
    using assms net port_range_roundtrip
    by (cases "wl_ports e")
       (auto simp: entry_from_str_def trim_all_graphic entry_show_graphic entry_wf_def)
qed

lemma cidr_from_str_wf: "cidr_from_str s = Ok c \<Longrightarrow> cidr_wf c"
  by (auto simp: cidr_from_str_def Let_def try_bind_Ok_iff dest: cidr_new_wf split: prod.splits)

lemma port_range_from_str_wf: "port_range_from_str s = Ok r \<Longrightarrow> port_range_wf r"
  by (auto simp: port_range_from_str_def parse_port_def option_filter_def port_range_wf_def Let_def
      word_neq_0_conv split: option.splits if_splits prod.splits)

section \<open>Properties\<close>

text \<open>\<^bold>\<open>C34.\<close> A whitelist entry survives its text form: an entry whose network has no host bits and no
  IPv4-mapped host, and whose ports are an ordered range without 0, is printed as a text that parses
  back to the same entry, for IPv4 and IPv6 (zero compression included), with and without ports.\<close>

theorem whitelist_entry_roundtrip:
  assumes "entry_wf e"
  shows "entry_from_str (entry_show e) = Ok e"
  using assms by (rule entry_roundtrip)

theorem whitelist_entry_roundtrip_witness:
  "entry_from_str (entry_show \<lparr>wl_network = \<lparr>cidr_network = V6 0xFD000000000000000000000000000001,
      cidr_prefix_len = 128\<rparr>, wl_ports = Some \<lparr>pr_first = 8000, pr_last = 8100\<rparr>\<rparr>) =
   Ok \<lparr>wl_network = \<lparr>cidr_network = V6 0xFD000000000000000000000000000001, cidr_prefix_len = 128\<rparr>,
       wl_ports = Some \<lparr>pr_first = 8000, pr_last = 8100\<rparr>\<rparr>"
  by (rule whitelist_entry_roundtrip)
     (simp add: entry_wf_def cidr_wf_def port_range_wf_def v6_mask_def to_ipv4_mapped_def)

text \<open>\<^bold>\<open>C35.\<close> Whatever the settings say, an entry that parses is well formed: its network has its host
  bits cleared, a prefix that fits its family and no IPv4-mapped host left in IPv6 form, and its
  ports are an ordered range that excludes port 0.\<close>

theorem parsed_entry_wf:
  assumes "entry_from_str s = Ok e"
  shows "cidr_wf (wl_network e) \<and> (\<forall>r. wl_ports e = Some r \<longrightarrow> 0 < pr_first r \<and> pr_first r \<le> pr_last r)"
  using assms cidr_from_str_wf port_range_from_str_wf
  by (auto simp: entry_from_str_def Let_def try_bind_Ok_iff map_ok_Ok_iff port_range_wf_def
      split: option.splits)

theorem parsed_entry_wf_witness:
  "entry_from_str ''10.0.0.5/24:8000-8100'' = Ok \<lparr>wl_network = \<lparr>cidr_network = V4 0x0A000000,
     cidr_prefix_len = 24\<rparr>, wl_ports = Some \<lparr>pr_first = 8000, pr_last = 8100\<rparr>\<rparr> \<and>
   cidr_wf \<lparr>cidr_network = V4 0x0A000000, cidr_prefix_len = 24\<rparr>"
proof -
  have e: "entry_from_str ''10.0.0.5/24:8000-8100'' = Ok \<lparr>wl_network = \<lparr>cidr_network = V4 0x0A000000,
     cidr_prefix_len = 24\<rparr>, wl_ports = Some \<lparr>pr_first = 8000, pr_last = 8100\<rparr>\<rparr>"
    by (simp add: entry_from_str_def split_entry_def cidr_from_str_def trim_all_graphic graphic_def
        parse_ip_addr_def parse_with_def read_ip_addr_def read_ipv4_addr_def read_octet_def
        read_separator_def read_number_def is_digit_def digit_value_def digits_value_def p_return_def
        p_bind_def v4_new_def be_word_def parse_u8_def parse_uint_def option_filter_def v4_mask_def
        port_range_from_str_def parse_port_def parse_u16_def mask_eq_exp_minus_1)
  show ?thesis using parsed_entry_wf [OF e] e by simp
qed

end
