(* ===== verification/Config.thy ===== *)
theory Config
  imports Policy_Text Ban_List User_Store
begin

text \<open>
  \<open>src/config\<close>: the settings file, its validation and the defaults. The YAML decoder
  (\<open>serde_yaml\<close>) and the file system are parameters. Durations and limits are checked while they
  are still machine integers, as in the source.
\<close>

section \<open>Settings\<close>

record user_settings_model =
  usm_username :: string
  usm_password :: string

record settings_model =
  s_listen_address :: "string option"
  s_users :: "user_settings_model list"
  s_max_connections :: "u32 option"
  s_handshake_timeout_sec :: "u64 option"
  s_connect_timeout_sec :: "u64 option"
  s_idle_timeout_sec :: "u64 option"
  s_shutdown_grace_sec :: "u64 option"
  s_stats_interval_sec :: "u64 option"
  s_client_whitelist :: "string list option"
  s_blocked_ports :: "u16 list option"
  s_allow_internal :: "bool option"
  s_internal_whitelist :: "string list option"
  s_ban_max_failures :: "u32 option"
  s_ban_window_sec :: "u64 option"
  s_ban_duration_sec :: "u64 option"

text \<open>\<open>ConfigError\<close>; \<open>'y\<close> is the error type of the YAML decoder, paths are strings.\<close>

datatype 'y config_error =
    HomeNotSet
  | ReadError string io_error
  | ParseError string 'y
  | Invalid (invalid_key: string) (invalid_reason: string)

section \<open>Configuration\<close>

definition DEFAULT_LISTEN_ADDRESS :: string where "DEFAULT_LISTEN_ADDRESS = ''0.0.0.0:1080''"
definition DEFAULT_MAX_CONNECTIONS :: u32 where "DEFAULT_MAX_CONNECTIONS = 4096"
definition MAX_CONNECTIONS_LIMIT :: u32 where "MAX_CONNECTIONS_LIMIT = 1000000"
definition DEFAULT_HANDSHAKE_TIMEOUT_SEC :: u64 where "DEFAULT_HANDSHAKE_TIMEOUT_SEC = 10"
definition DEFAULT_CONNECT_TIMEOUT_SEC :: u64 where "DEFAULT_CONNECT_TIMEOUT_SEC = 15"
definition DEFAULT_IDLE_TIMEOUT_SEC :: u64 where "DEFAULT_IDLE_TIMEOUT_SEC = 300"
definition DEFAULT_SHUTDOWN_GRACE_SEC :: u64 where "DEFAULT_SHUTDOWN_GRACE_SEC = 10"
definition DEFAULT_STATS_INTERVAL_SEC :: u64 where "DEFAULT_STATS_INTERVAL_SEC = 60"
definition DEFAULT_BLOCKED_PORTS :: "u16 list" where "DEFAULT_BLOCKED_PORTS = [25]"
definition DEFAULT_BAN_MAX_FAILURES :: u32 where "DEFAULT_BAN_MAX_FAILURES = 5"
definition DEFAULT_BAN_WINDOW_SEC :: u64 where "DEFAULT_BAN_WINDOW_SEC = 600"
definition DEFAULT_BAN_DURATION_SEC :: u64 where "DEFAULT_BAN_DURATION_SEC = 3600"
definition BAN_MAX_TRACKED :: usize where "BAN_MAX_TRACKED = 100000"
definition MAX_DURATION_SEC :: u64 where "MAX_DURATION_SEC = 365 * 24 * 60 * 60"

record timeouts =
  t_handshake :: duration
  t_connect :: duration
  t_idle :: duration
  t_shutdown_grace :: duration

record server_config =
  listen_address :: socket_addr
  users :: user_store
  max_connections :: u32
  config_timeouts :: timeouts
  stats_interval :: duration
  config_client_acl :: client_acl
  config_policy :: destination_policy
  ban :: ban_config

definition unwrap_or :: "'a option \<Rightarrow> 'a \<Rightarrow> 'a" where
  "unwrap_or x d = (case x of None \<Rightarrow> d | Some a \<Rightarrow> a)"

definition invalid :: "string \<Rightarrow> string \<Rightarrow> 'y config_error" where
  "invalid key reason = Invalid key reason"

definition seconds :: "string \<Rightarrow> u64 option \<Rightarrow> u64 \<Rightarrow> 'y config_error + duration" where
  "seconds key value dflt =
     (let v = unwrap_or value dflt in
      if v = 0 \<or> MAX_DURATION_SEC < v
      then Err (invalid key (''must be 1..='' @ decimal (unat MAX_DURATION_SEC) @ '' seconds''))
      else Ok (from_secs (unat v)))"

text \<open>\<open>iter().map(parse).collect()\<close> stops at the first error.\<close>

fun parse_all :: "(string \<Rightarrow> 'e + 'a) \<Rightarrow> string list \<Rightarrow> 'e + 'a list" where
  "parse_all parse [] = Ok []"
| "parse_all parse (value # values) =
     try_bind (parse value) (\<lambda>x. try_bind (parse_all parse values) (\<lambda>xs. Ok (x # xs)))"

definition parse_list :: "(string \<Rightarrow> policy_parse_error + 'a) \<Rightarrow> string \<Rightarrow> string list option \<Rightarrow>
    'y config_error + 'a list" where
  "parse_list parse key values =
     parse_all (\<lambda>value. map_err (\<lambda>error. invalid key (policy_parse_error_show error)) (parse value))
       (unwrap_or values [])"

fun credential_error_show :: "credential_error \<Rightarrow> string" where
  "credential_error_show NoUsers = ''at least one user is required''"
| "credential_error_show (InvalidUsername index) =
     ''user #'' @ decimal index @ '': username must be 1..=255 bytes''"
| "credential_error_show (InvalidPassword username) =
     ''user '' @ [CHR 0x27] @ username @ [CHR 0x27] @ '': password must be 1..=255 bytes''"
| "credential_error_show (DuplicateUsername name) =
     ''username '' @ [CHR 0x27] @ name @ [CHR 0x27] @ '' is listed more than once''"

definition from_settings :: "settings_model \<Rightarrow> 'y config_error + server_config" where
  "from_settings settings =
     try_bind (ok_or (invalid ''listen_address'' ''expected ip:port, e.g. 0.0.0.0:1080'')
        (parse_socket_addr (unwrap_or (s_listen_address settings) DEFAULT_LISTEN_ADDRESS))) (\<lambda>listen.
     let credentials = map (\<lambda>user. \<lparr>uc_username = usm_username user, uc_password = usm_password user\<rparr>)
           (s_users settings) in
     try_bind (map_err (\<lambda>error. invalid ''users'' (credential_error_show error))
        (user_store_new credentials)) (\<lambda>store.
     let max_conns = unwrap_or (s_max_connections settings) DEFAULT_MAX_CONNECTIONS in
     if \<not> (1 \<le> max_conns \<and> max_conns \<le> MAX_CONNECTIONS_LIMIT)
     then Err (invalid ''max_connections'' (''must be 1..='' @ decimal (unat MAX_CONNECTIONS_LIMIT)))
     else
     try_bind (seconds ''handshake_timeout_sec'' (s_handshake_timeout_sec settings)
        DEFAULT_HANDSHAKE_TIMEOUT_SEC) (\<lambda>handshake.
     try_bind (seconds ''connect_timeout_sec'' (s_connect_timeout_sec settings)
        DEFAULT_CONNECT_TIMEOUT_SEC) (\<lambda>connect.
     try_bind (seconds ''idle_timeout_sec'' (s_idle_timeout_sec settings)
        DEFAULT_IDLE_TIMEOUT_SEC) (\<lambda>idle.
     try_bind (seconds ''shutdown_grace_sec'' (s_shutdown_grace_sec settings)
        DEFAULT_SHUTDOWN_GRACE_SEC) (\<lambda>grace.
     try_bind (seconds ''stats_interval_sec'' (s_stats_interval_sec settings)
        DEFAULT_STATS_INTERVAL_SEC) (\<lambda>interval.
     try_bind (parse_list cidr_from_str ''client_whitelist'' (s_client_whitelist settings)) (\<lambda>networks.
     let blocked = unwrap_or (s_blocked_ports settings) DEFAULT_BLOCKED_PORTS in
     if 0 \<in> set blocked then Err (invalid ''blocked_ports'' ''0 is not a port'')
     else
     try_bind (parse_list entry_from_str ''internal_whitelist'' (s_internal_whitelist settings)) (\<lambda>whitelist.
     try_bind (seconds ''ban_window_sec'' (s_ban_window_sec settings) DEFAULT_BAN_WINDOW_SEC) (\<lambda>window.
     try_bind (seconds ''ban_duration_sec'' (s_ban_duration_sec settings) DEFAULT_BAN_DURATION_SEC) (\<lambda>dur.
     Ok \<lparr>listen_address = listen, users = store, max_connections = max_conns,
         config_timeouts = \<lparr>t_handshake = handshake, t_connect = connect, t_idle = idle,
                            t_shutdown_grace = grace\<rparr>,
         stats_interval = interval,
         config_client_acl = \<lparr>acl_networks = networks\<rparr>,
         config_policy = \<lparr>blocked_ports = blocked,
                          allow_internal = unwrap_or (s_allow_internal settings) False,
                          internal_whitelist = whitelist\<rparr>,
         ban = \<lparr>max_failures = unat (unwrap_or (s_ban_max_failures settings) DEFAULT_BAN_MAX_FAILURES),
                ban_window = window, ban_duration = dur, max_tracked = BAN_MAX_TRACKED\<rparr>\<rparr>)))))))))))"

section \<open>Reading the file\<close>

definition SETTINGS_FILE_NAME :: string where
  "SETTINGS_FILE_NAME = ''.mysocksserver''"

text \<open>\<open>PathBuf::join\<close> with a relative name.\<close>

definition path_join :: "string \<Rightarrow> string \<Rightarrow> string" where
  "path_join base name = (if base \<noteq> [] \<and> last base = CHR ''/'' then base @ name else base @ ''/'' @ name)"

definition settings_file_path :: "string option \<Rightarrow> 'y config_error + string" where
  "settings_file_path home =
     try_bind (ok_or HomeNotSet (option_filter (\<lambda>home. home \<noteq> []) home)) (\<lambda>home.
     Ok (path_join home SETTINGS_FILE_NAME))"

definition read_settings :: "(string \<Rightarrow> io_error + u8 list) \<Rightarrow> (u8 list \<Rightarrow> 'y + settings_model) \<Rightarrow>
    string \<Rightarrow> 'y config_error + settings_model" where
  "read_settings fs_read from_yaml path =
     try_bind (map_err (ReadError path) (fs_read path)) (\<lambda>content.
     map_err (ParseError path) (from_yaml content))"

definition load :: "(string \<Rightarrow> io_error + u8 list) \<Rightarrow> (u8 list \<Rightarrow> 'y + settings_model) \<Rightarrow>
    string \<Rightarrow> 'y config_error + server_config" where
  "load fs_read from_yaml path = try_bind (read_settings fs_read from_yaml path) from_settings"

text \<open>The mode bits come from the file system; the answer is no if they cannot be read.\<close>

definition is_readable_by_others :: "(string \<Rightarrow> io_error + u32) \<Rightarrow> string \<Rightarrow> bool" where
  "is_readable_by_others mode path =
     (case mode path of Inl _ \<Rightarrow> False | Inr m \<Rightarrow> m AND 0x3F \<noteq> 0)"

section \<open>Which settings are accepted\<close>

text \<open>The requirement on each key, in the order in which they are checked.\<close>

definition sec_ok :: "u64 option \<Rightarrow> u64 \<Rightarrow> bool" where
  "sec_ok value dflt \<longleftrightarrow> unat (unwrap_or value dflt) \<in> {1..31536000}"

definition users_ok :: "user_settings_model list \<Rightarrow> bool" where
  "users_ok us \<longleftrightarrow> us \<noteq> [] \<and> distinct (map usm_username us) \<and>
     list_all (\<lambda>u. length (usm_username u) \<in> {1..255} \<and> length (usm_password u) \<in> {1..255}) us"

definition setting_checks :: "settings_model \<Rightarrow> (string \<times> bool) list" where
  "setting_checks s =
     [(''listen_address'', parse_socket_addr (unwrap_or (s_listen_address s) ''0.0.0.0:1080'') \<noteq> None),
      (''users'', users_ok (s_users s)),
      (''max_connections'', unat (unwrap_or (s_max_connections s) 4096) \<in> {1..1000000}),
      (''handshake_timeout_sec'', sec_ok (s_handshake_timeout_sec s) 10),
      (''connect_timeout_sec'', sec_ok (s_connect_timeout_sec s) 15),
      (''idle_timeout_sec'', sec_ok (s_idle_timeout_sec s) 300),
      (''shutdown_grace_sec'', sec_ok (s_shutdown_grace_sec s) 10),
      (''stats_interval_sec'', sec_ok (s_stats_interval_sec s) 60),
      (''client_whitelist'', list_all (\<lambda>v. is_ok (cidr_from_str v)) (unwrap_or (s_client_whitelist s) [])),
      (''blocked_ports'', 0 \<notin> set (unwrap_or (s_blocked_ports s) [25])),
      (''internal_whitelist'', list_all (\<lambda>v. is_ok (entry_from_str v)) (unwrap_or (s_internal_whitelist s) [])),
      (''ban_window_sec'', sec_ok (s_ban_window_sec s) 600),
      (''ban_duration_sec'', sec_ok (s_ban_duration_sec s) 3600)]"

fun first_failed :: "(string \<times> bool) list \<Rightarrow> string option" where
  "first_failed [] = None"
| "first_failed ((key, ok) # checks) = (if ok then first_failed checks else Some key)"

definition checked :: "string \<Rightarrow> bool \<Rightarrow> 'y config_error + 'a \<Rightarrow> bool" where
  "checked key ok r \<longleftrightarrow> (if ok then is_ok r else \<exists>reason. r = Err (Invalid key reason))"

definition validates_to :: "'y config_error + 'a \<Rightarrow> string option \<Rightarrow> bool" where
  "validates_to r bad \<longleftrightarrow> (case bad of None \<Rightarrow> is_ok r | Some key \<Rightarrow> \<exists>reason. r = Err (Invalid key reason))"

lemma verdict_bind:
  assumes "checked key ok r" and "\<And>a. r = Ok a \<Longrightarrow> validates_to (f a) (first_failed checks)"
  shows "validates_to (try_bind r f) (first_failed ((key, ok) # checks))"
  using assms by (cases r) (auto simp: checked_def validates_to_def split: if_splits)

lemma verdict_if:
  assumes "bad_key = (\<not> ok)" and "validates_to r (first_failed checks)"
  shows "validates_to (if bad_key then Err (invalid key reason) else r) (first_failed ((key, ok) # checks))"
  using assms by (simp add: validates_to_def invalid_def)

lemma unat_MAX_DURATION: "unat MAX_DURATION_SEC = 31536000"
  by (simp add: MAX_DURATION_SEC_def)

lemma sec_ok_iff: "sec_ok v d \<longleftrightarrow> \<not> (unwrap_or v d = 0 \<or> MAX_DURATION_SEC < unwrap_or v d)"
  by (auto simp: sec_ok_def word_less_nat_alt unat_MAX_DURATION Suc_le_eq unat_gt_0)

lemma seconds_checked: "checked key (sec_ok v d) (seconds key v d)"
  unfolding sec_ok_iff by (simp add: checked_def seconds_def Let_def invalid_def)

lemma parse_all_checked:
  "(\<And>v. v \<in> set vs \<Longrightarrow> checked key (good v) (parse v)) \<Longrightarrow>
     checked key (list_all good vs) (parse_all parse vs)"
proof (induction vs)
  case (Cons v vs)
  have v: "checked key (good v) (parse v)" and vs: "checked key (list_all good vs) (parse_all parse vs)"
    using Cons by simp_all
  show ?case
  proof (cases "parse v")
    case (Inr x)
    with v have "good v" by (auto simp: checked_def split: if_splits)
    with Inr vs show ?thesis by (cases "parse_all parse vs") (auto simp: checked_def split: if_splits)
  qed (use v in \<open>auto simp: checked_def split: if_splits\<close>)
qed (simp add: checked_def)

lemma parse_list_checked:
  "checked key (list_all (\<lambda>v. is_ok (parse v)) (unwrap_or vs [])) (parse_list parse key vs)"
  unfolding parse_list_def
  by (rule parse_all_checked) (auto simp: checked_def invalid_def is_ok_def split: sum.split)

lemma users_checked:
  "checked ''users'' (users_ok us)
     (map_err (\<lambda>error. invalid ''users'' (credential_error_show error))
       (user_store_new (map (\<lambda>user. \<lparr>uc_username = usm_username user, uc_password = usm_password user\<rparr>) us)))"
proof -
  let ?cs = "map (\<lambda>user. \<lparr>uc_username = usm_username user, uc_password = usm_password user\<rparr>) us"
  have "is_ok (user_store_new ?cs) \<longleftrightarrow> (\<exists>st. user_store_new ?cs = Ok st)"
    by (cases "user_store_new ?cs") auto
  also have "\<dots> \<longleftrightarrow> ?cs \<noteq> [] \<and> list_all credential_ok ?cs \<and> distinct (map uc_username ?cs)"
    by (auto simp: user_store_new_Ok_iff intro: exI [of _ "\<lparr>us_users = map stored_of ?cs\<rparr>"])
  also have "\<dots> \<longleftrightarrow> users_ok us"
    by (auto simp: users_ok_def credential_ok_def list_all_iff comp_def Suc_le_eq)
  finally show ?thesis
    by (cases "user_store_new ?cs") (auto simp: checked_def invalid_def)
qed

lemma listen_checked:
  "checked ''listen_address'' (parse_socket_addr s \<noteq> None)
     (ok_or (invalid ''listen_address'' reason) (parse_socket_addr s))"
  by (cases "parse_socket_addr s") (simp_all add: checked_def invalid_def)

lemma max_connections_bad:
  "(\<not> (1 \<le> (m :: u32) \<and> m \<le> MAX_CONNECTIONS_LIMIT)) = (\<not> unat m \<in> {1..1000000})"
  by (auto simp: word_le_nat_alt MAX_CONNECTIONS_LIMIT_def)

lemmas default_defs = DEFAULT_LISTEN_ADDRESS_def DEFAULT_MAX_CONNECTIONS_def
  DEFAULT_HANDSHAKE_TIMEOUT_SEC_def DEFAULT_CONNECT_TIMEOUT_SEC_def DEFAULT_IDLE_TIMEOUT_SEC_def
  DEFAULT_SHUTDOWN_GRACE_SEC_def DEFAULT_STATS_INTERVAL_SEC_def DEFAULT_BLOCKED_PORTS_def
  DEFAULT_BAN_MAX_FAILURES_def DEFAULT_BAN_WINDOW_SEC_def DEFAULT_BAN_DURATION_SEC_def

lemma from_settings_verdict: "validates_to (from_settings s) (first_failed (setting_checks s))"
  unfolding from_settings_def Let_def default_defs setting_checks_def
  by (intro verdict_bind verdict_if listen_checked users_checked max_connections_bad seconds_checked
      parse_list_checked) (simp_all add: validates_to_def)

section \<open>Properties\<close>

text \<open>\<^bold>\<open>C31.\<close> Settings are accepted exactly when every key meets its documented requirement, and otherwise
  the error is \<open>Invalid\<close> and names the first key, in the order of checking, that does not.\<close>

theorem from_settings_first_bad_key:
  "case first_failed (setting_checks s) of
     None \<Rightarrow> \<exists>c. from_settings s = (Ok c :: 'y config_error + server_config)
   | Some key \<Rightarrow> \<exists>reason. from_settings s = (Err (Invalid key reason) :: 'y config_error + server_config)"
  using from_settings_verdict [of s, where 'a = 'y]
  by (cases "from_settings s :: 'y config_error + server_config")
     (auto simp: validates_to_def split: option.splits)

text \<open>What the rest of the server may rely on: bounded, positive durations, a positive bounded number
  of connections, well-formed networks and entries, no blocked port 0, a store built from a valid user
  list, room in the ban table.\<close>

definition second_range :: "duration set" where
  "second_range = from_secs ` {1..31536000}"

definition config_valid :: "server_config \<Rightarrow> bool" where
  "config_valid c \<longleftrightarrow>
     unat (max_connections c) \<in> {1..1000000} \<and>
     {t_handshake (config_timeouts c), t_connect (config_timeouts c), t_idle (config_timeouts c),
      t_shutdown_grace (config_timeouts c), stats_interval c, ban_window (ban c), ban_duration (ban c)}
       \<subseteq> second_range \<and>
     (\<exists>cs. user_store_new cs = Ok (users c)) \<and>
     list_all cidr_wf (acl_networks (config_client_acl c)) \<and>
     0 \<notin> set (blocked_ports (config_policy c)) \<and>
     list_all entry_wf (internal_whitelist (config_policy c)) \<and>
     max_tracked (ban c) = 100000"

lemma seconds_OkD: "seconds key v d = Ok t \<Longrightarrow> t \<in> second_range"
  using sec_ok_iff [of v d]
  by (auto simp: seconds_def second_range_def Let_def sec_ok_def split: if_splits)

lemma parse_all_OkD: "parse_all parse vs = Ok xs \<Longrightarrow> x \<in> set xs \<Longrightarrow> \<exists>v. parse v = Ok x"
  by (induction vs arbitrary: xs) (auto simp: try_bind_Ok_iff)

lemma parse_list_OkD:
  assumes "parse_list parse key vs = Ok xs" and "\<And>v x. parse v = Ok x \<Longrightarrow> P x"
  shows "list_all P xs"
  using assms by (fastforce simp: parse_list_def list_all_iff dest: parse_all_OkD)

lemma entry_from_str_wf: "entry_from_str s = Ok e \<Longrightarrow> entry_wf e"
  using cidr_from_str_wf port_range_from_str_wf
  by (auto simp: entry_from_str_def entry_wf_def Let_def try_bind_Ok_iff map_ok_Ok_iff split: option.splits)

lemma parsed_networks_wf: "parse_list cidr_from_str key vs = Ok xs \<Longrightarrow> list_all cidr_wf xs"
  by (erule parse_list_OkD) (rule cidr_from_str_wf)

lemma parsed_entries_wf: "parse_list entry_from_str key vs = Ok xs \<Longrightarrow> list_all entry_wf xs"
  by (erule parse_list_OkD) (rule entry_from_str_wf)

text \<open>\<^bold>\<open>C32.\<close> A server never starts from a configuration that violates its own documentation: every
  accepted configuration has all timeouts, intervals and ban durations between one second and one
  year, between 1 and 1000000 connections, a user store built from valid users, networks and
  whitelist entries in normal form, and no blocked port 0.\<close>

theorem from_settings_valid:
  assumes "from_settings s = Ok c"
  shows "config_valid c"
proof -
  have m: "unat m \<in> {1..1000000}" if "1 \<le> m" "m \<le> MAX_CONNECTIONS_LIMIT" for m
    using that max_connections_bad [of m] by blast
  show ?thesis
    using assms m
    by (auto simp: from_settings_def config_valid_def Let_def try_bind_Ok_iff BAN_MAX_TRACKED_def
        dest!: seconds_OkD parsed_networks_wf parsed_entries_wf split: if_splits)
qed

definition minimal_settings :: settings_model where
  "minimal_settings = \<lparr>s_listen_address = None,
     s_users = [\<lparr>usm_username = ''alice'', usm_password = ''pw''\<rparr>],
     s_max_connections = None, s_handshake_timeout_sec = None, s_connect_timeout_sec = None,
     s_idle_timeout_sec = None, s_shutdown_grace_sec = None, s_stats_interval_sec = None,
     s_client_whitelist = None, s_blocked_ports = None, s_allow_internal = None,
     s_internal_whitelist = None, s_ban_max_failures = None, s_ban_window_sec = None,
     s_ban_duration_sec = None\<rparr>"

definition minimal_config :: server_config where
  "minimal_config = \<lparr>listen_address = SockV4 0 1080, users = \<lparr>us_users = [stored_of alice]\<rparr>,
     max_connections = 4096,
     config_timeouts = \<lparr>t_handshake = from_secs 10, t_connect = from_secs 15, t_idle = from_secs 300,
       t_shutdown_grace = from_secs 10\<rparr>,
     stats_interval = from_secs 60, config_client_acl = \<lparr>acl_networks = []\<rparr>,
     config_policy = \<lparr>blocked_ports = [25], allow_internal = False, internal_whitelist = []\<rparr>,
     ban = \<lparr>max_failures = 5, ban_window = from_secs 600, ban_duration = from_secs 3600,
       max_tracked = 100000\<rparr>\<rparr>"

lemma default_listen: "parse_socket_addr ''0.0.0.0:1080'' = Some (SockV4 0 1080)"
  by (simp add: parse_socket_addr_def parse_with_def read_socket_addr_def read_socket_addr_v4_def
      read_port_def read_ipv4_addr_def read_octet_def read_separator_def read_number_def is_digit_def
      digit_value_def digits_value_def p_return_def p_bind_def v4_new_def be_word_def)

lemma minimal_settings_ok: "from_settings minimal_settings = Ok minimal_config"
  using alice_store [unfolded alice_def]
  by (simp add: from_settings_def minimal_settings_def minimal_config_def unwrap_or_def default_listen
      default_defs seconds_def MAX_DURATION_SEC_def MAX_CONNECTIONS_LIMIT_def parse_list_def
      BAN_MAX_TRACKED_def alice_def)

text \<open>The defaults: a settings file with one user and nothing else.\<close>

theorem from_settings_valid_witness:
  "from_settings minimal_settings = (Ok minimal_config :: string config_error + server_config) \<and>
   config_valid minimal_config"
  using from_settings_valid [OF minimal_settings_ok] minimal_settings_ok by simp

end
