(* ===== verification/Startup.thy ===== *)
theory Startup
  imports Config
begin

text \<open>
  \<open>src/limits/nofile_limit.rs\<close> and \<open>src/main.rs\<close>: the process before it serves. The operating system's
  resource limits are a parameter (\<open>rlimit_ops\<close>, the calls of the \<open>rlimit\<close> crate over a state of the
  system); the locale \<open>rlimits\<close> states what the code relies on.
\<close>

section \<open>File descriptor limit\<close>

record nofile_limit =
  soft :: u64
  hard :: u64

record 'r rlimit_ops =
  rl_get :: "'r \<Rightarrow> (io_error + u64 \<times> u64) \<times> 'r"
  rl_set :: "u64 \<Rightarrow> u64 \<Rightarrow> 'r \<Rightarrow> (io_error + unit) \<times> 'r"
  increase_nofile_limit :: "u64 \<Rightarrow> 'r \<Rightarrow> (io_error + u64) \<times> 'r"

definition current_nofile_limit :: "'r rlimit_ops \<Rightarrow> 'r \<Rightarrow> (io_error + nofile_limit) \<times> 'r" where
  "current_nofile_limit ops r = (case rl_get ops r of
     (Inl error, r) \<Rightarrow> (Err error, r)
   | (Inr (s, h), r) \<Rightarrow> (Ok \<lparr>soft = s, hard = h\<rparr>, r))"

definition raise_nofile_limit :: "'r rlimit_ops \<Rightarrow> 'r \<Rightarrow> (io_error + nofile_limit) \<times> 'r" where
  "raise_nofile_limit ops r = (case current_nofile_limit ops r of
     (Inl error, r) \<Rightarrow> (Err error, r)
   | (Inr before, r) \<Rightarrow>
       if soft before < hard before
       then (case increase_nofile_limit ops (- 1) r of
           (Inl error, r) \<Rightarrow> (Err error, r)
         | (Inr raised, r) \<Rightarrow>
             if raised < soft before
             then (case rl_set ops (soft before) (hard before) r of
                 (Inl error, r) \<Rightarrow> (Err error, r)
               | (Inr _, r) \<Rightarrow> current_nofile_limit ops r)
             else current_nofile_limit ops r)
       else current_nofile_limit ops r)"

locale rlimits =
  fixes ops :: "'r rlimit_ops" and limits :: "'r \<Rightarrow> u64 \<times> u64"
  assumes get_same: "rl_get ops r = (x, r') \<Longrightarrow> r' = r \<and> (\<forall>v. x = Ok v \<longrightarrow> v = limits r)"
    and set_ok: "rl_set ops s h r = (Ok u, r') \<Longrightarrow> limits r' = (s, h)"
    and increase_ok: "increase_nofile_limit ops n r = (Ok raised, r') \<Longrightarrow> limits r' = (raised, snd (limits r))"
    and set_err: "rl_set ops s h r = (Err e, r') \<Longrightarrow> limits r' = limits r"
    and increase_err: "increase_nofile_limit ops n r = (Err e, r') \<Longrightarrow> limits r' = limits r"
begin

lemma current_ok:
  assumes "current_nofile_limit ops r = (Ok l, r')"
  shows "r' = r \<and> soft l = fst (limits r) \<and> hard l = snd (limits r)"
proof -
  obtain x r1 where g: "rl_get ops r = (x, r1)" by fastforce
  with assms obtain a b where "x = Ok (a, b)" by (cases x) (auto simp: current_nofile_limit_def)
  moreover from this get_same [OF g] have "limits r = (a, b)" "r1 = r" by auto
  ultimately show ?thesis using assms g by (auto simp: current_nofile_limit_def)
qed

lemma raise_ok:
  assumes "raise_nofile_limit ops r = (Ok l, r')"
  shows "soft l = fst (limits r') \<and> hard l = snd (limits r') \<and> hard l = snd (limits r) \<and>
    fst (limits r) \<le> soft l"
proof -
  obtain x r1 where b: "current_nofile_limit ops r = (x, r1)" by fastforce
  with assms obtain before where x: "x = Ok before" by (cases x) (auto simp: raise_nofile_limit_def)
  have before: "r1 = r" "soft before = fst (limits r)" "hard before = snd (limits r)" using current_ok b x by auto
  note run = assms [unfolded raise_nofile_limit_def b x prod.case sum.case]
  show ?thesis
  proof (cases "soft before < hard before")
    case False
    then have "current_nofile_limit ops r = (Ok l, r')" using run before(1) by simp
    from current_ok [OF this] show ?thesis by simp
  next
    case True
    obtain y r2 where i: "increase_nofile_limit ops (- 1) r1 = (y, r2)" by fastforce
    with run True obtain raised where y: "y = Ok raised" by (cases y) auto
    have r2: "limits r2 = (raised, hard before)" using increase_ok [of "- 1" r raised r2] i y before by simp
    show ?thesis
    proof (cases "raised < soft before")
      case False
      then have "current_nofile_limit ops r2 = (Ok l, r')" using run True i y by simp
      from current_ok [OF this] show ?thesis using r2 before False by simp
    next
      case lower: True
      obtain z r3 where s: "rl_set ops (soft before) (hard before) r2 = (z, r3)" by fastforce
      with run True i y lower obtain u where z: "z = Ok u" by (cases z) auto
      then have "current_nofile_limit ops r3 = (Ok l, r')" using run True i y lower s by simp
      from current_ok [OF this] show ?thesis using set_ok [of "soft before" "hard before" r2 u r3] s z before by simp
    qed
  qed
qed

lemma current_same: "current_nofile_limit ops r = (x, r') \<Longrightarrow> r' = r"
  using get_same [of r] by (cases "rl_get ops r") (auto simp: current_nofile_limit_def split: sum.splits)

text \<open>A failure leaves the limits as they were or raised, unless the system lowered the soft limit and then
  refused to set it back.\<close>

lemma raise_err:
  assumes "raise_nofile_limit ops r = (Err e, r')"
  shows "snd (limits r') = snd (limits r) \<and> (fst (limits r') < fst (limits r) \<longrightarrow>
    (\<exists>raised r1. increase_nofile_limit ops (- 1) r = (Ok raised, r1) \<and> raised < fst (limits r) \<and>
       rl_set ops (fst (limits r)) (snd (limits r)) r1 = (Err e, r')))"
proof -
  obtain x r1 where b: "current_nofile_limit ops r = (x, r1)" by fastforce
  have r1: "r1 = r" using current_same [OF b] .
  show ?thesis
  proof (cases x)
    case (Inl a)
    then show ?thesis using assms b r1 by (simp add: raise_nofile_limit_def)
  next
    case (Inr before)
    have before: "soft before = fst (limits r)" "hard before = snd (limits r)" using current_ok b Inr by auto
    obtain y r2 where i: "increase_nofile_limit ops (- 1) r = (y, r2)" by fastforce
    obtain z r3 where s: "rl_set ops (fst (limits r)) (snd (limits r)) r2 = (z, r3)" by fastforce
    have kept: "snd (limits r2) = snd (limits r)" "y = Inl e' \<Longrightarrow> limits r2 = limits r"
        "y = Inr raised \<Longrightarrow> fst (limits r2) = raised" for e' raised
      using increase_ok [of "- 1" r _ r2] increase_err [of "- 1" r _ r2] i by (cases y; simp)+
    have set: "z = Inr u \<Longrightarrow> limits r3 = limits r" "z = Inl e' \<Longrightarrow> limits r3 = limits r2" for u e'
      using set_ok [of _ _ r2 _ r3] set_err [of _ _ r2 _ r3] s by auto
    show ?thesis
      using assms before b Inr i s kept set
      by (cases y; cases z) (auto simp: raise_nofile_limit_def r1 dest!: current_same split: if_splits)
  qed
qed

end

text \<open>A system with a cap on the soft limit of its own, as macOS has one: raising goes to the smaller of the
  hard limit and the cap.\<close>

definition capped_system :: "u64 \<Rightarrow> (u64 \<times> u64) rlimit_ops" where
  "capped_system cap = \<lparr>rl_get = (\<lambda>r. (Ok r, r)), rl_set = (\<lambda>s h r. (Ok (), (s, h))),
     increase_nofile_limit = (\<lambda>n (s, h). let s' = min n (min h cap) in (Ok s', (s', h)))\<rparr>"

interpretation capped: rlimits "capped_system cap" id
  by unfold_locales (auto simp: capped_system_def Let_def split: prod.splits)

section \<open>Start of the program\<close>

definition FD_RESERVE :: u64 where "FD_RESERVE = 64"

record settings_line =
  sl_path :: string
  sl_listen :: string
  sl_users :: "string list"
  sl_max_connections :: u32
  sl_timeouts :: "nat list"
  sl_client_whitelist :: "string list"
  sl_blocked_ports :: "u16 list"
  sl_allow_internal :: bool
  sl_internal_whitelist :: "string list"
  sl_ban :: "nat list"

datatype startup_line =
    SettingsLoaded settings_line
  | OpenToAll
  | InternalReachable
  | SettingsReadable string
  | FileLimit u64 u64
  | FileLimitLow u64 u64
  | FileLimitFailed io_error
  | Started socket_addr

definition log_settings :: "(string \<Rightarrow> io_error + u32) \<Rightarrow> string \<Rightarrow> server_config \<Rightarrow> startup_line list" where
  "log_settings mode path config =
     (let policy = config_policy config; t = config_timeouts config; b = ban config in
      [SettingsLoaded \<lparr>sl_path = path, sl_listen = show_socket_addr (listen_address config),
         sl_users = usernames (users config), sl_max_connections = max_connections config,
         sl_timeouts = [as_secs (t_handshake t), as_secs (t_connect t), as_secs (t_idle t),
                        as_secs (t_shutdown_grace t)],
         sl_client_whitelist = map cidr_show (acl_networks (config_client_acl config)),
         sl_blocked_ports = blocked_ports policy, sl_allow_internal = allow_internal policy,
         sl_internal_whitelist = map entry_show (internal_whitelist policy),
         sl_ban = [max_failures b, as_secs (ban_window b), as_secs (ban_duration b)]\<rparr>] @
      (if acl_is_open (config_client_acl config) then [OpenToAll] else []) @
      (if allow_internal policy then [InternalReachable] else []) @
      (if is_readable_by_others mode path then [SettingsReadable path] else []))"

definition raise_file_limit :: "'r rlimit_ops \<Rightarrow> server_config \<Rightarrow> 'r \<Rightarrow> startup_line list \<times> 'r" where
  "raise_file_limit ops config r = (case raise_nofile_limit ops r of
     (Inr limit, r) \<Rightarrow>
       (let needed = (ucast (max_connections config) :: u64) * 2 + FD_RESERVE in
        (FileLimit (soft limit) (hard limit) #
           (if soft limit < needed then [FileLimitLow (soft limit) needed] else []), r))
   | (Inl error, r) \<Rightarrow> ([FileLimitFailed error], r))"

datatype 'y startup_error =
    BadConfig "'y config_error"
  | NoRuntime io_error
  | CannotListen socket_addr io_error
  | NoLocalAddr io_error

text \<open>\<open>main::run\<close> up to the point where the server runs: it gives the configuration to serve with, the lines
  logged so far, and the system's limits as they are then.\<close>

definition run_main :: "string option \<Rightarrow> (string \<Rightarrow> io_error + u8 list) \<Rightarrow> (u8 list \<Rightarrow> 'y + settings_model) \<Rightarrow>
    (string \<Rightarrow> io_error + u32) \<Rightarrow> 'r rlimit_ops \<Rightarrow> (io_error + unit) \<Rightarrow> (socket_addr \<Rightarrow> io_error + unit) \<Rightarrow>
    (io_error + socket_addr) \<Rightarrow> 'r \<Rightarrow> ('y startup_error + server_config) \<times> startup_line list \<times> 'r" where
  "run_main home fs_read from_yaml mode ops build_runtime bind local_addr r =
     (case settings_file_path home of
        Inl error \<Rightarrow> (Err (BadConfig error), [], r)
      | Inr path \<Rightarrow>
     (case load fs_read from_yaml path of
        Inl error \<Rightarrow> (Err (BadConfig error), [], r)
      | Inr config \<Rightarrow>
     (let settings_lines = log_settings mode path config;
          (limit_lines, r) = raise_file_limit ops config r;
          lines = settings_lines @ limit_lines
      in case build_runtime of
        Inl error \<Rightarrow> (Err (NoRuntime error), lines, r)
      | Inr _ \<Rightarrow>
     (case bind (listen_address config) of
        Inl error \<Rightarrow> (Err (CannotListen (listen_address config) error), lines, r)
      | Inr _ \<Rightarrow>
     (case local_addr of
        Inl error \<Rightarrow> (Err (NoLocalAddr error), lines, r)
      | Inr addr \<Rightarrow> (Ok config, lines @ [Started addr], r))))))"

section \<open>Properties\<close>

text \<open>Two descriptors per connection and the reserve fit a 64-bit number.\<close>

lemma needed_exact: "unat ((ucast (m :: u32) :: u64) * 2 + FD_RESERVE) = 2 * unat m + 64"
proof -
  have "unat m < 2 ^ 32" using unsigned_less [of m] by simp
  then show ?thesis
    by (simp add: FD_RESERVE_def unat_word_ariths unsigned_ucast_eq take_bit_nat_eq_self)
qed

text \<open>\<^bold>\<open>C37.\<close> Raising the descriptor limit never touches the hard limit and does not lower the soft one, even on a system
  that caps the soft limit below the one the process had, with one exception: if the system, having lowered
  it, refuses to set it back, it stays lowered, and the failure is logged. When no failure is logged, the operator is
  warned exactly when the resulting soft limit is below two descriptors per allowed connection plus the
  reserve of 64, for every possible \<open>max_connections\<close>: the 64-bit arithmetic does not wrap.\<close>

theorem file_limit_warning:
  assumes "rlimits ops limits" and "raise_file_limit ops config r = (lines, r')"
  shows "snd (limits r') = snd (limits r) \<and>
    (fst (limits r') < fst (limits r) \<longrightarrow>
       (\<exists>raised r1 e. increase_nofile_limit ops (- 1) r = (Ok raised, r1) \<and> raised < fst (limits r) \<and>
          rl_set ops (fst (limits r)) (snd (limits r)) r1 = (Err e, r') \<and> lines = [FileLimitFailed e])) \<and>
    ((\<forall>e. FileLimitFailed e \<notin> set lines) \<longrightarrow>
       ((\<exists>needed. FileLimitLow (fst (limits r')) needed \<in> set lines) \<longleftrightarrow>
          unat (fst (limits r')) < 2 * unat (max_connections config) + 64))"
proof (cases "fst (raise_nofile_limit ops r)")
  case (Inl e)
  then have l: "raise_nofile_limit ops r = (Err e, r')" and lines: "lines = [FileLimitFailed e]"
    using assms(2) by (auto simp: raise_file_limit_def split: prod.splits sum.splits)
  from rlimits.raise_err [OF assms(1) l] show ?thesis using lines by auto
next
  case (Inr l)
  let ?needed = "ucast (max_connections config) * 2 + FD_RESERVE"
  have l: "raise_nofile_limit ops r = (Ok l, r')"
    and lines: "lines = FileLimit (soft l) (hard l) # (if soft l < ?needed then [FileLimitLow (soft l) ?needed] else [])"
    using assms(2) Inr by (auto simp: raise_file_limit_def Let_def split: prod.splits sum.splits)
  from rlimits.raise_ok [OF assms(1) l] show ?thesis
    using lines by (auto simp: word_less_nat_alt word_le_nat_alt needed_exact)
qed

text \<open>The exception on a system that caps the soft limit and does not let it be set.\<close>

definition stubborn_system :: "u64 \<Rightarrow> io_error \<Rightarrow> (u64 \<times> u64) rlimit_ops" where
  "stubborn_system cap error = (capped_system cap)\<lparr>rl_set := (\<lambda>s h r. (Err error, r))\<rparr>"

interpretation stubborn: rlimits "stubborn_system cap error" id
  by unfold_locales (auto simp: stubborn_system_def capped_system_def Let_def split: prod.splits)

theorem limit_stays_lowered:
  "raise_file_limit (stubborn_system 256 error) config (1024, 4096) = ([FileLimitFailed error], (256, 4096))"
  by (simp add: raise_file_limit_def raise_nofile_limit_def current_nofile_limit_def stubborn_system_def
      capped_system_def Let_def)

theorem file_limit_warning_witness:
  "raise_file_limit (capped_system 256) minimal_config (1024, 4096) =
     ([FileLimit 1024 4096, FileLimitLow 1024 8256], (1024, 4096)) \<and>
   unat (1024 :: u64) < 2 * unat (max_connections minimal_config) + 64"
proof -
  have run: "raise_file_limit (capped_system 256) minimal_config (1024, 4096) =
     ([FileLimit 1024 4096, FileLimitLow 1024 8256], (1024, 4096))"
    by (simp add: raise_file_limit_def raise_nofile_limit_def current_nofile_limit_def capped_system_def
        minimal_config_def FD_RESERVE_def Let_def)
  from file_limit_warning [OF capped.rlimits_axioms run] have
    "(\<exists>needed. FileLimitLow 1024 needed \<in> set [FileLimit 1024 4096, FileLimitLow 1024 8256]) \<longleftrightarrow>
       unat (1024 :: u64) < 2 * unat (max_connections minimal_config) + 64"
    by (simp only: id_apply fst_conv) simp
  with run show ?thesis by auto
qed

end
