(* ===== verification/Server_State.thy ===== *)
theory Server_State
  imports Config
begin

text \<open>
  \<open>src/server/server_stats.rs\<close>, \<open>server_state.rs\<close> and \<open>log_throttle.rs\<close>: the state connection tasks
  share. Each operation on an atomic is one step, so operations of different tasks interleave at
  that grain. The semaphore is tokio's: its operations are a parameter (\<open>semaphore_ops\<close>), and the
  locale \<open>semaphore\<close> is what the server relies on.
\<close>

section \<open>Counters\<close>

type_synonym counter = u64

definition counter_add :: "u64 \<Rightarrow> counter \<Rightarrow> counter" where
  "counter_add value c = c + value"

definition counter_increment :: "counter \<Rightarrow> counter" where
  "counter_increment c = counter_add 1 c"

record server_stats =
  accepted :: counter
  rejected_not_whitelisted :: counter
  rejected_banned :: counter
  rejected_over_limit :: counter
  auth_failures :: counter
  denied_by_policy :: counter
  bytes_in :: counter
  bytes_out :: counter

definition stats_default :: server_stats where
  "stats_default = \<lparr>accepted = 0, rejected_not_whitelisted = 0, rejected_banned = 0,
     rejected_over_limit = 0, auth_failures = 0, denied_by_policy = 0, bytes_in = 0, bytes_out = 0\<rparr>"

section \<open>Semaphore\<close>

record 'sem semaphore_ops =
  sem_new :: "nat \<Rightarrow> 'sem"
  available_permits :: "'sem \<Rightarrow> nat"
  try_acquire_owned :: "'sem \<Rightarrow> 'sem option"
  release_permit :: "'sem \<Rightarrow> 'sem"

locale semaphore =
  fixes ops :: "'sem semaphore_ops"
  assumes new_available: "available_permits ops (sem_new ops n) = n"
    and acquire_none: "available_permits ops s = 0 \<Longrightarrow> try_acquire_owned ops s = None"
    and acquire_some: "0 < available_permits ops s \<Longrightarrow> \<exists>s'. try_acquire_owned ops s = Some s' \<and>
          available_permits ops s' = available_permits ops s - 1"
    and release_available: "available_permits ops (release_permit ops s) = available_permits ops s + 1"
begin

lemma acquire_Some_iff: "(\<exists>s'. try_acquire_owned ops s = Some s') \<longleftrightarrow> 0 < available_permits ops s"
  using acquire_none acquire_some by (metis not_gr_zero option.discI)

lemma acquireD:
  "try_acquire_owned ops s = Some s' \<Longrightarrow> available_permits ops s = Suc (available_permits ops s')"
  using acquire_none [of s] acquire_some [of s] by (cases "available_permits ops s") auto

end

text \<open>A counting semaphore.\<close>

definition counting_semaphore :: "nat semaphore_ops" where
  "counting_semaphore = \<lparr>sem_new = id, available_permits = id,
     try_acquire_owned = (\<lambda>n. if n = 0 then None else Some (n - 1)), release_permit = Suc\<rparr>"

interpretation counting: semaphore counting_semaphore
  by unfold_locales (auto simp: counting_semaphore_def)

section \<open>Server state\<close>

text \<open>The part of \<open>ServerState\<close> that connection tasks change during a connection.\<close>

record shared_state =
  ban_list_of :: ban_list
  stats :: server_stats

record 'sem server_state =
  state_config :: server_config
  shared :: shared_state
  connection_permits :: 'sem
  force_close :: bool
  last_connection_id :: u64

definition server_state_new :: "'sem semaphore_ops \<Rightarrow> server_config \<Rightarrow> 'sem server_state" where
  "server_state_new ops config =
     (let permits = unat (max_connections config) in
      \<lparr>state_config = config,
       shared = \<lparr>ban_list_of = ban_list_new (ban config), stats = stats_default\<rparr>,
       connection_permits = sem_new ops permits, force_close = False, last_connection_id = 0\<rparr>)"

definition next_connection_id :: "'sem server_state \<Rightarrow> u64 \<times> 'sem server_state" where
  "next_connection_id s =
     (last_connection_id s + 1, s\<lparr>last_connection_id := last_connection_id s + 1\<rparr>)"

definition active_connections :: "'sem semaphore_ops \<Rightarrow> 'sem server_state \<Rightarrow> usize" where
  "active_connections ops s =
     (let total = unat (max_connections (state_config s))
      in total - available_permits ops (connection_permits s))"

section \<open>Log throttle\<close>

record log_throttle =
  lt_origin :: instant
  period_ms :: nat
  next_allowed_ms :: nat

definition throttle_ms :: "duration \<Rightarrow> nat" where
  "throttle_ms d = u64_try_from_or_max (as_millis_of d)"

definition log_throttle_new :: "instant \<Rightarrow> duration \<Rightarrow> log_throttle" where
  "log_throttle_new now period =
     \<lparr>lt_origin = now, period_ms = throttle_ms period, next_allowed_ms = 0\<rparr>"

text \<open>\<open>allow\<close> is two atomic steps: a load, and a compare-and-exchange when the loaded moment has come.
  The value loaded may be stale by the time of the exchange.\<close>

definition allow_load :: "instant \<Rightarrow> log_throttle \<Rightarrow> nat \<times> nat" where
  "allow_load now t = (throttle_ms (saturating_duration_since now (lt_origin t)), next_allowed_ms t)"

definition allow_exchange :: "nat \<times> nat \<Rightarrow> log_throttle \<Rightarrow> bool \<times> log_throttle" where
  "allow_exchange = (\<lambda>(now_ms, next_allowed) t.
     if next_allowed \<le> now_ms \<and> next_allowed_ms t = next_allowed
     then (True, t\<lparr>next_allowed_ms := u64_saturating_add now_ms (period_ms t)\<rparr>)
     else (False, t))"

definition allow :: "instant \<Rightarrow> log_throttle \<Rightarrow> bool \<times> log_throttle" where
  "allow now t = allow_exchange (allow_load now t) t"

text \<open>Any number of concurrent calls: each loads, and later exchanges what it loaded. The run returns
  the readings of the calls that were allowed, oldest first.\<close>

datatype throttle_step = Load nat instant | Exchange nat

fun throttle_run :: "(nat \<rightharpoonup> nat \<times> nat) \<Rightarrow> log_throttle \<Rightarrow> throttle_step list \<Rightarrow> nat list" where
  "throttle_run calls t [] = []"
| "throttle_run calls t (Load caller now # steps) =
     throttle_run (calls(caller \<mapsto> allow_load now t)) t steps"
| "throttle_run calls t (Exchange caller # steps) =
     (case calls caller of
        None \<Rightarrow> throttle_run calls t steps
      | Some reading \<Rightarrow>
          (let (ok, t') = allow_exchange reading t;
               rest = throttle_run (calls(caller := None)) t' steps
           in if ok then fst reading # rest else rest))"

definition readings_ok :: "(nat \<rightharpoonup> nat \<times> nat) \<Rightarrow> bool" where
  "readings_ok calls \<longleftrightarrow> (\<forall>caller r. calls caller = Some r \<longrightarrow> fst r \<le> u64_max)"

lemma throttle_run_spaced:
  assumes "readings_ok calls"
  shows "sorted_wrt (\<lambda>a b. min (a + period_ms t) u64_max \<le> b) (throttle_run calls t steps) \<and>
    (\<forall>x \<in> set (throttle_run calls t steps). next_allowed_ms t \<le> x)"
  using assms
proof (induction calls t steps rule: throttle_run.induct)
  case (2 calls t caller now steps)
  have "fst (allow_load now t) \<le> u64_max"
    by (simp add: allow_load_def throttle_ms_def u64_try_from_or_max_def)
  then have "readings_ok (calls(caller \<mapsto> allow_load now t))"
    using 2(2) by (auto simp: readings_ok_def)
  from 2(1) [OF this] show ?case unfolding throttle_run.simps .
next
  case (3 calls t caller steps)
  show ?case
  proof (cases "calls caller")
    case (Some r)
    obtain ok t' where e: "allow_exchange r t = (ok, t')" by (cases "allow_exchange r t")
    have r: "readings_ok (calls(caller := None))" and m: "fst r \<le> u64_max"
      using 3(3) Some by (cases r; auto simp: readings_ok_def)+
    note IH = 3(2) [OF Some e [symmetric] refl r]
    show ?thesis
    proof (cases ok)
      case True
      then have t': "period_ms t' = period_ms t" "next_allowed_ms t \<le> fst r"
        "next_allowed_ms t' = min (fst r + period_ms t) u64_max"
        using e by (auto simp: allow_exchange_def u64_saturating_add_def min_def split: prod.splits if_splits)
      have le: "next_allowed_ms t \<le> next_allowed_ms t'" using t' m by simp
      define rest where "rest = throttle_run (calls(caller := None)) t' steps"
      have run: "throttle_run calls t (Exchange caller # steps) = fst r # rest"
        using Some e True by (simp add: rest_def)
      have rest: "\<forall>x \<in> set rest. next_allowed_ms t' \<le> x"
        "sorted_wrt (\<lambda>a b. min (a + period_ms t) u64_max \<le> b) rest"
        using IH [unfolded t'(1)] unfolding rest_def by blast+
      then show ?thesis
        unfolding run using le t'(2,3) by (auto intro: order_trans)
    next
      case False
      then have "t' = t" using e by (auto simp: allow_exchange_def split: prod.splits if_splits)
      then have run: "throttle_run calls t (Exchange caller # steps) = throttle_run (calls(caller := None)) t' steps"
        using Some e False by simp
      show ?thesis unfolding run using IH unfolding \<open>t' = t\<close> .
    qed
  qed (use 3 in simp)
qed simp

section \<open>Property\<close>

text \<open>\<^bold>\<open>C36.\<close> A throttled log line appears at most once per period, however calls from different tasks
  interleave between their load and their exchange: the clock readings of the calls that were let
  through are a period apart, in order (up to the end of the 64-bit range).\<close>

theorem throttle_once_per_period:
  "sorted_wrt (\<lambda>a b. min (a + throttle_ms period) u64_max \<le> b)
     (throttle_run Map.empty (log_throttle_new start period) steps)"
  using throttle_run_spaced [of Map.empty "log_throttle_new start period" steps]
  by (simp add: readings_ok_def log_throttle_new_def)

end
