(* ===== verification/Async.thy ===== *)
theory Async
  imports Rust_Str
begin

text \<open>
  Asynchronous code as state passing. A future over the state \<open>'s\<close> either completes
  (\<open>Ready\<close>) or is dropped at one of its await points (\<open>Interrupted\<close>: a timeout or a
  cancellation), keeping the effects it had until then. Nothing after an interrupted await runs.
  The reading half of a tokio stream is a record of its operations, a parameter of the code
  that reads. \<open>slice_reader\<close> is the reader over a byte slice; the locale \<open>byte_reader\<close> is the
  contract of every reader whose input is a known byte string, and shows that code written
  against the record behaves on it as on the slice.
\<close>

named_theorems async_simps \<open>unfolding rules of futures\<close>

section \<open>Futures\<close>

datatype 'a polled = Ready 'a | Interrupted

type_synonym ('s, 'a) async = "'s \<Rightarrow> 'a polled \<times> 's"

definition ready :: "'a \<Rightarrow> ('s, 'a) async" where
  [async_simps]: "ready a = (\<lambda>s. (Ready a, s))"

definition await :: "('s, 'a) async \<Rightarrow> ('a \<Rightarrow> ('s, 'b) async) \<Rightarrow> ('s, 'b) async" where
  [async_simps]: "await m k = (\<lambda>s. case m s of
     (Ready a, s') \<Rightarrow> k a s'
   | (Interrupted, s') \<Rightarrow> (Interrupted, s'))"

text \<open>\<open>m.await?\<close>: an error is converted by \<open>From\<close> and returned.\<close>

definition try_await :: "('s, 'e + 'a) async \<Rightarrow> ('e \<Rightarrow> 'f) \<Rightarrow> ('a \<Rightarrow> ('s, 'f + 'b) async) \<Rightarrow>
    ('s, 'f + 'b) async" where
  "try_await m conv k = await m (\<lambda>r. case r of Inl e \<Rightarrow> ready (Err (conv e)) | Inr a \<Rightarrow> k a)"

lemma ready_apply [simp]: "ready a s = (Ready a, s)"
  by (simp add: ready_def)

lemma await_cases:
  "await m k s = (case fst (m s) of Ready a \<Rightarrow> k a (snd (m s)) | Interrupted \<Rightarrow> (Interrupted, snd (m s)))"
  by (simp add: await_def split: prod.split polled.split)

lemma await_Ready [simp]: "m s = (Ready a, s') \<Longrightarrow> await m k s = k a s'"
  by (simp add: await_def)

lemma await_Interrupted [simp]: "m s = (Interrupted, s') \<Longrightarrow> await m k s = (Interrupted, s')"
  by (simp add: await_def)

lemma try_await_Ok [simp]: "m s = (Ready (Ok a), s') \<Longrightarrow> try_await m conv k s = k a s'"
  by (simp add: try_await_def)

lemma try_await_Err [simp]: "m s = (Ready (Err e), s') \<Longrightarrow> try_await m conv k s = (Ready (Err (conv e)), s')"
  by (simp add: try_await_def)

lemma try_await_Interrupted [simp]: "m s = (Interrupted, s') \<Longrightarrow> try_await m conv k s = (Interrupted, s')"
  by (simp add: try_await_def)

lemma await_ready_left [simp]: "await (ready a) k = k a"
  by (rule ext) simp

lemma await_assoc: "await (await m k) h = await m (\<lambda>a. await (k a) h)"
  by (rule ext) (simp add: await_def split: prod.split polled.split)

lemma await_ReadyE:
  assumes "await m k s = (Ready b, t)"
  obtains a s' where "m s = (Ready a, s')" and "k a s' = (Ready b, t)"
  using assms by (auto simp: await_def split: prod.splits polled.splits)

lemma try_await_OkE:
  assumes "try_await m conv k s = (Ready (Ok b), t)"
  obtains a s' where "m s = (Ready (Ok a), s')" and "k a s' = (Ready (Ok b), t)"
  using assms by (auto simp: try_await_def elim!: await_ReadyE split: sum.splits)

lemma try_await_ErrE:
  assumes "try_await m conv k s = (Ready (Err e), t)"
  obtains (first) e0 where "m s = (Ready (Err e0), t)" and "e = conv e0"
  | (second) a s' where "m s = (Ready (Ok a), s')" and "k a s' = (Ready (Err e), t)"
  using assms by (auto simp: try_await_def elim!: await_ReadyE split: sum.splits)

text \<open>A relation between the state before and after that is closed under composition holds of a
  composed future when it holds of its parts: how safety properties are carried through code.\<close>

definition keeps :: "('s \<Rightarrow> 's \<Rightarrow> bool) \<Rightarrow> ('s, 'a) async \<Rightarrow> bool" where
  "keeps P m \<longleftrightarrow> (\<forall>s. P s (snd (m s)))"

lemma keepsD: "keeps P m \<Longrightarrow> m s = (r, s') \<Longrightarrow> P s s'"
  by (metis keeps_def snd_conv)

lemma keeps_ready: "(\<And>s. P s s) \<Longrightarrow> keeps P (ready a)"
  by (simp add: keeps_def)

lemma keeps_await:
  assumes "\<And>x y z. P x y \<Longrightarrow> P y z \<Longrightarrow> P x z" and "keeps P m" and "\<And>a. keeps P (k a)"
  shows "keeps P (await m k)"
  unfolding keeps_def
proof
  fix s
  obtain r s' where m: "m s = (r, s')" by (cases "m s")
  then have "P s s'" using assms(2) by (rule keepsD [rotated])
  moreover have "P s' (snd (k a s'))" for a using assms(3) by (simp add: keeps_def)
  ultimately show "P s (snd (await m k s))"
    using assms(1) m by (cases r) auto
qed

lemma keeps_try_await:
  assumes "\<And>x. P x x" and "\<And>x y z. P x y \<Longrightarrow> P y z \<Longrightarrow> P x z"
    and "keeps P m" and "\<And>a. keeps P (k a)"
  shows "keeps P (try_await m conv k)"
  unfolding try_await_def
  by (rule keeps_await [OF assms(2,3)], assumption)
     (auto split: sum.split intro: keeps_ready assms(1,4))

section \<open>Readers\<close>

text \<open>The operations of \<open>tokio::io::AsyncReadExt\<close> that the sources call.\<close>

record 's async_read =
  read_u8 :: "('s, io_error + u8) async"
  read_u16 :: "('s, io_error + u16) async"
  read_exact :: "nat \<Rightarrow> ('s, io_error + u8 list) async"

text \<open>End of input in the middle of a value: \<open>io::ErrorKind::UnexpectedEof\<close>.\<close>

definition eof_error :: io_error where
  "eof_error = IoError UnexpectedEofKind ''unexpected end of file''"

definition slice_read_exact :: "nat \<Rightarrow> (u8 list, io_error + u8 list) async" where
  "slice_read_exact n bs =
     (if n \<le> length bs then (Ready (Ok (take n bs)), drop n bs) else (Ready (Err eof_error), []))"

definition slice_reader :: "u8 list async_read" where
  "slice_reader = \<lparr>
     read_u8 = try_await (slice_read_exact 1) id (\<lambda>bs. ready (Ok (be_word bs))),
     read_u16 = try_await (slice_read_exact 2) id (\<lambda>bs. ready (Ok (be_word bs))),
     read_exact = slice_read_exact\<rparr>"

lemma be_word_single [simp]: "be_word [b] = (b :: u8)"
  by (simp add: be_word_def)

lemma slice_read_exact_append [simp]:
  "length xs = n \<Longrightarrow> slice_read_exact n (xs @ ys) = (Ready (Ok xs), ys)"
  by (simp add: slice_read_exact_def)

lemma slice_read_exact_all [simp]: "length xs = n \<Longrightarrow> slice_read_exact n xs = (Ready (Ok xs), [])"
  by (simp add: slice_read_exact_def)

lemma slice_read_exact_short: "length bs < n \<Longrightarrow> slice_read_exact n bs = (Ready (Err eof_error), [])"
  by (simp add: slice_read_exact_def)

lemma slice_read_u8 [simp]:
  "read_u8 slice_reader [] = (Ready (Err eof_error), [])"
  "read_u8 slice_reader (b # bs) = (Ready (Ok b), bs)"
  using slice_read_exact_append [of "[b]" 1 bs]
  by (simp_all add: slice_reader_def slice_read_exact_short del: slice_read_exact_append)

lemma slice_read_u16 [simp]:
  "read_u16 slice_reader (be_bytes 2 p @ bs) = (Ready (Ok p), bs)"
  "read_u16 slice_reader (be_bytes 2 p) = (Ready (Ok p), [])"
  by (simp_all add: slice_reader_def be_word_be_bytes_full)

lemma slice_read_exact_field [simp]: "read_exact slice_reader = slice_read_exact"
  by (simp add: slice_reader_def)

text \<open>Inversion: what a successful read says about the input.\<close>

lemma slice_read_exact_OkD:
  "slice_read_exact n bs = (Ready (Ok xs), rest) \<Longrightarrow> bs = xs @ rest \<and> length xs = n"
  by (auto simp: slice_read_exact_def split: if_splits)

lemma slice_read_u8_OkD: "read_u8 slice_reader bs = (Ready (Ok b), rest) \<Longrightarrow> bs = b # rest"
  by (cases bs) auto

lemma slice_read_u16_OkD:
  assumes "read_u16 slice_reader bs = (Ready (Ok p), rest)"
  shows "bs = be_bytes 2 p @ rest"
proof -
  from assms obtain xs where "slice_read_exact 2 bs = (Ready (Ok xs), rest)" and p: "p = be_word xs"
    by (auto simp: slice_reader_def elim!: try_await_OkE)
  then have bs: "bs = xs @ rest" and len: "length xs = 2" by (auto dest: slice_read_exact_OkD)
  have "be_bytes (length xs) p = xs"
    unfolding p by (rule be_bytes_be_word) (simp add: len)
  with bs len show ?thesis by simp
qed

lemmas slice_read_OkD = slice_read_exact_OkD slice_read_u8_OkD slice_read_u16_OkD

text \<open>No read on a slice waits.\<close>

lemma slice_reads_ready [simp]:
  "fst (read_u8 slice_reader bs) \<noteq> Interrupted"
  "fst (read_u16 slice_reader bs) \<noteq> Interrupted"
  "fst (slice_read_exact n bs) \<noteq> Interrupted"
  by (cases bs; simp)
     (auto simp: slice_reader_def slice_read_exact_def try_await_def await_def)

section \<open>Readers over a known byte string\<close>

text \<open>\<open>pending s\<close> is the input not yet read. A future on the reader simulates one on the slice when it
  gives the same answer and leaves the same input.\<close>

definition simulates :: "('s \<Rightarrow> u8 list) \<Rightarrow> ('s, 'a) async \<Rightarrow> (u8 list, 'a) async \<Rightarrow> bool" where
  "simulates pending m n \<longleftrightarrow>
     (\<forall>s. fst (m s) = fst (n (pending s)) \<and> pending (snd (m s)) = snd (n (pending s)))"

lemma simulates_ready: "simulates pending (ready a) (ready a)"
  by (simp add: simulates_def)

lemma simulates_await:
  assumes "simulates pending m n" and "\<And>a. simulates pending (k a) (h a)"
  shows "simulates pending (await m k) (await n h)"
  using assms unfolding simulates_def by (simp add: await_cases split: polled.split)

lemma simulates_try_await:
  assumes "simulates pending m n" and "\<And>a. simulates pending (k a) (h a)"
  shows "simulates pending (try_await m conv k) (try_await n conv h)"
  unfolding try_await_def
  by (rule simulates_await [OF assms(1)]) (auto split: sum.split intro: simulates_ready assms(2))

lemma simulates_run:
  assumes "simulates pending m n" and "n (pending s) = (r, rest)"
  obtains s' where "m s = (r, s')" and "pending s' = rest"
  using assms by (metis fst_conv prod.collapse simulates_def snd_conv)

lemmas simulates_intros = simulates_ready simulates_await simulates_try_await

locale byte_reader =
  fixes R :: "'s async_read" and pending :: "'s \<Rightarrow> u8 list"
  assumes read_u8_sim: "simulates pending (read_u8 R) (read_u8 slice_reader)"
    and read_u16_sim: "simulates pending (read_u16 R) (read_u16 slice_reader)"
    and read_exact_sim: "simulates pending (read_exact R n) (slice_read_exact n)"
begin

lemmas read_sims = read_u8_sim read_u16_sim read_exact_sim

end

interpretation slice: byte_reader slice_reader id
  by unfold_locales (simp_all add: simulates_def)

end
