(* ===== verification/Wire.thy ===== *)
theory Wire
  imports Async
begin

text \<open>
  \<open>src/socks/consts.rs\<close>, \<open>protocol_error.rs\<close>, \<open>wire.rs\<close> and \<open>target_addr.rs\<close>: the constants, the
  errors, the length-prefixed fields and the address format of SOCKS5. Encoders append to a byte
  list; decoders are futures over any reader.
\<close>

section \<open>Constants and errors\<close>

definition SOCKS_VERSION :: u8 where "SOCKS_VERSION = 0x05"
definition AUTH_VERSION :: u8 where "AUTH_VERSION = 0x01"
definition METHOD_NO_AUTH :: u8 where "METHOD_NO_AUTH = 0x00"
definition METHOD_USER_PASS :: u8 where "METHOD_USER_PASS = 0x02"
definition METHOD_NO_ACCEPTABLE :: u8 where "METHOD_NO_ACCEPTABLE = 0xFF"
definition CMD_CONNECT :: u8 where "CMD_CONNECT = 0x01"
definition CMD_BIND :: u8 where "CMD_BIND = 0x02"
definition CMD_UDP_ASSOCIATE :: u8 where "CMD_UDP_ASSOCIATE = 0x03"
definition ATYP_IPV4 :: u8 where "ATYP_IPV4 = 0x01"
definition ATYP_DOMAIN :: u8 where "ATYP_DOMAIN = 0x03"
definition ATYP_IPV6 :: u8 where "ATYP_IPV6 = 0x04"
definition AUTH_STATUS_SUCCESS :: u8 where "AUTH_STATUS_SUCCESS = 0x00"
definition AUTH_STATUS_FAILURE :: u8 where "AUTH_STATUS_FAILURE = 0x01"

lemmas socks_consts = SOCKS_VERSION_def AUTH_VERSION_def METHOD_NO_AUTH_def METHOD_USER_PASS_def
  METHOD_NO_ACCEPTABLE_def CMD_CONNECT_def CMD_BIND_def CMD_UDP_ASSOCIATE_def ATYP_IPV4_def
  ATYP_DOMAIN_def ATYP_IPV6_def AUTH_STATUS_SUCCESS_def AUTH_STATUS_FAILURE_def

datatype protocol_error =
    Io io_error
  | UnsupportedVersion u8
  | NoMethods
  | UnsupportedAuthVersion u8
  | UnsupportedAddressType u8
  | InvalidDomain
  | FieldTooLong

section \<open>Fields\<close>

definition read_u8_prefixed :: "'s async_read \<Rightarrow> ('s, protocol_error + u8 list) async" where
  "read_u8_prefixed reader =
     try_await (read_u8 reader) Io (\<lambda>len.
     try_await (read_exact reader (unat len)) Io (\<lambda>field.
     ready (Ok field)))"

text \<open>\<open>u8::try_from(len)\<close>.\<close>

definition u8_try_from :: "nat \<Rightarrow> u8 option" where
  "u8_try_from n = (if n \<le> 255 then Some (of_nat n) else None)"

definition push_u8_prefixed :: "u8 list \<Rightarrow> u8 list \<Rightarrow> protocol_error + u8 list" where
  "push_u8_prefixed out field =
     try_bind (ok_or FieldTooLong (u8_try_from (length field))) (\<lambda>len.
     Ok (out @ [len] @ field))"

fun push_socket_addr :: "u8 list \<Rightarrow> socket_addr \<Rightarrow> u8 list" where
  "push_socket_addr out (SockV4 ip port) = out @ [ATYP_IPV4] @ v4_octets ip @ be_bytes 2 port"
| "push_socket_addr out (SockV6 ip port flow scope) =
     out @ [ATYP_IPV6] @ v6_octets ip @ be_bytes 2 port"

section \<open>Target addresses\<close>

datatype target_addr = Ip socket_addr | DomainHost string u16

definition is_ascii_alphanumeric :: "u8 \<Rightarrow> bool" where
  "is_ascii_alphanumeric b \<longleftrightarrow> between 48 b 57 \<or> between 65 b 90 \<or> between 97 b 122"

text \<open>Letters, digits and the bytes of \<open>-\<close>, \<open>_\<close>, \<open>.\<close> and \<open>:\<close>.\<close>

definition domain_byte :: "u8 \<Rightarrow> bool" where
  "domain_byte b \<longleftrightarrow> is_ascii_alphanumeric b \<or> b \<in> {45, 95, 46, 58}"

definition parse_domain :: "u8 list \<Rightarrow> protocol_error + string" where
  "parse_domain raw =
     (let valid = (raw \<noteq> [] \<and> list_all domain_byte raw) in
      if \<not> valid then Err InvalidDomain
      else ok_or InvalidDomain (from_utf8 raw))"

definition target_read_from :: "'s async_read \<Rightarrow> u8 \<Rightarrow> ('s, protocol_error + target_addr) async" where
  "target_read_from reader address_type =
     (if address_type = ATYP_IPV4 then
        try_await (read_exact reader 4) Io (\<lambda>octets.
        try_await (read_u16 reader) Io (\<lambda>port.
        ready (Ok (Ip (socket_addr_new (V4 (be_word octets)) port)))))
      else if address_type = ATYP_IPV6 then
        try_await (read_exact reader 16) Io (\<lambda>octets.
        try_await (read_u16 reader) Io (\<lambda>port.
        ready (Ok (Ip (socket_addr_new (V6 (be_word octets)) port)))))
      else if address_type = ATYP_DOMAIN then
        try_await (read_u8_prefixed reader) id (\<lambda>raw.
        try_await (read_u16 reader) Io (\<lambda>port.
        ready (try_bind (parse_domain raw) (\<lambda>host. Ok (DomainHost host port)))))
      else ready (Err (UnsupportedAddressType address_type)))"

fun target_port :: "target_addr \<Rightarrow> u16" where
  "target_port (Ip addr) = sock_port addr"
| "target_port (DomainHost host port) = port"

fun target_encode_into :: "target_addr \<Rightarrow> u8 list \<Rightarrow> protocol_error + u8 list" where
  "target_encode_into (Ip addr) out = Ok (push_socket_addr out addr)"
| "target_encode_into (DomainHost host port) out =
     try_bind (push_u8_prefixed (out @ [ATYP_DOMAIN]) (as_bytes host)) (\<lambda>out.
     Ok (out @ be_bytes 2 port))"

section \<open>Lemmas\<close>

lemma u8_try_from_iff: "u8_try_from n = Some b \<longleftrightarrow> n \<le> 255 \<and> b = of_nat n"
  by (auto simp: u8_try_from_def)

lemma unat_of_nat_u8: "n \<le> 255 \<Longrightarrow> unat (of_nat n :: u8) = n"
  by (simp add: unat_of_nat)

lemma unat_u8_le: "unat (b :: u8) \<le> 255"
  using unsigned_less [of b, where ?'a = nat] by simp

lemma push_u8_prefixed_eq:
  "push_u8_prefixed out field =
     (if length field \<le> 255 then Ok (out @ of_nat (length field) # field) else Err FieldTooLong)"
  by (simp add: push_u8_prefixed_def u8_try_from_def)

lemma read_u8_prefixed_slice [simp]:
  "length field \<le> 255 \<Longrightarrow>
     read_u8_prefixed slice_reader (of_nat (length field) # field @ rest) = (Ready (Ok field), rest)"
  by (simp add: read_u8_prefixed_def unat_of_nat_u8)

lemma read_u8_prefixed_OkD:
  "read_u8_prefixed slice_reader bs = (Ready (Ok field), rest) \<Longrightarrow>
     bs = of_nat (length field) # field @ rest \<and> length field \<le> 255"
  by (auto simp: read_u8_prefixed_def elim!: try_await_OkE dest!: slice_read_OkD
      simp: unat_u8_le)

lemma domain_byte_ascii: "domain_byte b \<Longrightarrow> b \<le> 0x7F"
  by (auto simp: domain_byte_def is_ascii_alphanumeric_def between_def)
     (erule order_trans, simp)+

text \<open>The UTF-8 check of \<open>parse_domain\<close> never fails: the bytes let through are ASCII.\<close>

lemma parse_domain_eq:
  "parse_domain raw =
     (if raw \<noteq> [] \<and> list_all domain_byte raw then Ok (string_of_bytes raw) else Err InvalidDomain)"
proof -
  have "list_all domain_byte raw \<Longrightarrow> utf8_valid raw"
    by (rule utf8_valid_ascii) (auto simp: list_all_iff domain_byte_ascii)
  then show ?thesis by (simp add: parse_domain_def from_utf8_def Let_def)
qed

context byte_reader
begin

lemma read_u8_prefixed_sim: "simulates pending (read_u8_prefixed R) (read_u8_prefixed slice_reader)"
  unfolding read_u8_prefixed_def by (intro simulates_intros read_sims) (simp add: read_sims)

lemma target_read_from_sim:
  "simulates pending (target_read_from R atyp) (target_read_from slice_reader atyp)"
  unfolding target_read_from_def
  by (auto intro!: simulates_intros read_sims read_u8_prefixed_sim)

end

text \<open>Well-formed targets: what \<open>target_read_from\<close> can produce. Flow information and scope id are
  zero, a domain is a non-empty string of at most 255 permitted characters.\<close>

fun target_wf :: "target_addr \<Rightarrow> bool" where
  "target_wf (Ip (SockV4 ip port)) = True"
| "target_wf (Ip (SockV6 ip port flow scope)) \<longleftrightarrow> flow = 0 \<and> scope = 0"
| "target_wf (DomainHost host port) \<longleftrightarrow>
     host \<noteq> [] \<and> length host \<le> 255 \<and> list_all domain_byte (as_bytes host)"

text \<open>The encoding of a target: its address type, then its body.\<close>

fun target_atyp :: "target_addr \<Rightarrow> u8" where
  "target_atyp (Ip (SockV4 ip port)) = ATYP_IPV4"
| "target_atyp (Ip (SockV6 ip port flow scope)) = ATYP_IPV6"
| "target_atyp (DomainHost host port) = ATYP_DOMAIN"

fun target_body :: "target_addr \<Rightarrow> u8 list" where
  "target_body (Ip (SockV4 ip port)) = v4_octets ip @ be_bytes 2 port"
| "target_body (Ip (SockV6 ip port flow scope)) = v6_octets ip @ be_bytes 2 port"
| "target_body (DomainHost host port) = of_nat (length host) # as_bytes host @ be_bytes 2 port"

lemma push_socket_addr_eq:
  "push_socket_addr out addr = out @ target_atyp (Ip addr) # target_body (Ip addr)"
  by (cases addr) simp_all

lemma target_encode_wf:
  "target_wf t \<Longrightarrow> target_encode_into t out = Ok (out @ target_atyp t # target_body t)"
  by (cases t) (simp_all add: push_socket_addr_eq push_u8_prefixed_eq)

lemma target_read_slice:
  assumes "target_wf t"
  shows "target_read_from slice_reader (target_atyp t) (target_body t @ rest) = (Ready (Ok t), rest)"
proof (cases t)
  case (Ip addr)
  with assms show ?thesis
    by (cases addr) (simp_all add: target_read_from_def socks_consts)
next
  case (DomainHost host port)
  with assms have "read_u8_prefixed slice_reader (of_nat (length host) # as_bytes host @ be_bytes 2 port @ rest)
      = (Ready (Ok (as_bytes host)), be_bytes 2 port @ rest)"
    using read_u8_prefixed_slice [of "as_bytes host"] by simp
  with assms DomainHost show ?thesis
    by (simp add: target_read_from_def socks_consts parse_domain_eq)
qed

lemma target_read_OkD:
  assumes "target_read_from slice_reader atyp bs = (Ready (Ok t), rest)"
  shows "target_wf t \<and> atyp = target_atyp t \<and> bs = target_body t @ rest"
  using assms
  by (auto simp: target_read_from_def parse_domain_eq v4_octets_be_word v6_octets_be_word
      elim!: try_await_OkE dest!: slice_read_OkD read_u8_prefixed_OkD split: if_splits)

end
