(* ===== verification/Messages.thy ===== *)
theory Messages
  imports Wire
begin

text \<open>
  \<open>src/socks/greeting.rs\<close>, \<open>auth_negotiation.rs\<close>, \<open>request.rs\<close> and \<open>reply.rs\<close>: the six messages of
  the protocol, each with its encoder and its decoder. The locale \<open>wire_codec\<close> is their common
  contract (decoding an encoding gives the message back and leaves what follows untouched), from
  which encodings are injective and self-delimiting; it is interpreted on every message.
\<close>

section \<open>Greeting and method selection\<close>

record greeting =
  methods :: "u8 list"

definition greeting_read_from :: "'s async_read \<Rightarrow> ('s, protocol_error + greeting) async" where
  "greeting_read_from reader =
     try_await (read_u8 reader) Io (\<lambda>version.
     if version \<noteq> SOCKS_VERSION then ready (Err (UnsupportedVersion version))
     else
       try_await (read_u8 reader) Io (\<lambda>count.
       if count = 0 then ready (Err NoMethods)
       else
         try_await (read_exact reader (unat count)) Io (\<lambda>ms.
         ready (Ok \<lparr>methods = ms\<rparr>))))"

definition offers :: "greeting \<Rightarrow> u8 \<Rightarrow> bool" where
  "offers g method \<longleftrightarrow> method \<in> set (methods g)"

definition greeting_encode :: "greeting \<Rightarrow> protocol_error + u8 list" where
  "greeting_encode g =
     try_bind (ok_or FieldTooLong (u8_try_from (length (methods g)))) (\<lambda>count.
     Ok ([SOCKS_VERSION] @ [count] @ methods g))"

record method_selection =
  sel_method :: u8

definition NO_ACCEPTABLE :: method_selection where
  "NO_ACCEPTABLE = \<lparr>sel_method = METHOD_NO_ACCEPTABLE\<rparr>"

definition selection_encode :: "method_selection \<Rightarrow> u8 list" where
  "selection_encode sel = [SOCKS_VERSION, sel_method sel]"

definition selection_read_from :: "'s async_read \<Rightarrow> ('s, protocol_error + method_selection) async" where
  "selection_read_from reader =
     try_await (read_u8 reader) Io (\<lambda>version.
     if version \<noteq> SOCKS_VERSION then ready (Err (UnsupportedVersion version))
     else try_await (read_u8 reader) Io (\<lambda>method. ready (Ok \<lparr>sel_method = method\<rparr>)))"

section \<open>Username/password sub-negotiation\<close>

record user_pass_request =
  upr_username :: "u8 list"
  upr_password :: "u8 list"

definition user_pass_read_from :: "'s async_read \<Rightarrow> ('s, protocol_error + user_pass_request) async" where
  "user_pass_read_from reader =
     try_await (read_u8 reader) Io (\<lambda>version.
     if version \<noteq> AUTH_VERSION then ready (Err (UnsupportedAuthVersion version))
     else
       try_await (read_u8_prefixed reader) id (\<lambda>username.
       try_await (read_u8_prefixed reader) id (\<lambda>password.
       ready (Ok \<lparr>upr_username = username, upr_password = password\<rparr>))))"

definition user_pass_encode :: "user_pass_request \<Rightarrow> protocol_error + u8 list" where
  "user_pass_encode r =
     try_bind (push_u8_prefixed [AUTH_VERSION] (upr_username r)) (\<lambda>out.
     try_bind (push_u8_prefixed out (upr_password r)) (\<lambda>out.
     Ok out))"

record user_pass_response =
  upr_status :: u8

definition SUCCESS :: user_pass_response where
  "SUCCESS = \<lparr>upr_status = AUTH_STATUS_SUCCESS\<rparr>"

definition FAILURE :: user_pass_response where
  "FAILURE = \<lparr>upr_status = AUTH_STATUS_FAILURE\<rparr>"

definition is_success :: "user_pass_response \<Rightarrow> bool" where
  "is_success r \<longleftrightarrow> upr_status r = AUTH_STATUS_SUCCESS"

definition response_encode :: "user_pass_response \<Rightarrow> u8 list" where
  "response_encode r = [AUTH_VERSION, upr_status r]"

definition response_read_from :: "'s async_read \<Rightarrow> ('s, protocol_error + user_pass_response) async" where
  "response_read_from reader =
     try_await (read_u8 reader) Io (\<lambda>version.
     if version \<noteq> AUTH_VERSION then ready (Err (UnsupportedAuthVersion version))
     else try_await (read_u8 reader) Io (\<lambda>status. ready (Ok \<lparr>upr_status = status\<rparr>)))"

section \<open>Request\<close>

datatype command = Connect | Bind | UdpAssociate | Unknown u8

definition command_from_byte :: "u8 \<Rightarrow> command" where
  "command_from_byte value =
     (if value = CMD_CONNECT then Connect
      else if value = CMD_BIND then Bind
      else if value = CMD_UDP_ASSOCIATE then UdpAssociate
      else Unknown value)"

fun command_as_byte :: "command \<Rightarrow> u8" where
  "command_as_byte Connect = CMD_CONNECT"
| "command_as_byte Bind = CMD_BIND"
| "command_as_byte UdpAssociate = CMD_UDP_ASSOCIATE"
| "command_as_byte (Unknown value) = value"

record request =
  req_command :: command
  req_target :: target_addr

text \<open>The array pattern \<open>[version, command, _reserved, address_type]\<close> of a four-byte header.\<close>

definition request_read_from :: "'s async_read \<Rightarrow> ('s, protocol_error + request) async" where
  "request_read_from reader =
     try_await (read_exact reader 4) Io (\<lambda>header.
     let version = header ! 0; command = header ! 1; address_type = header ! 3 in
     if version \<noteq> SOCKS_VERSION then ready (Err (UnsupportedVersion version))
     else
       try_await (target_read_from reader address_type) id (\<lambda>target.
       ready (Ok \<lparr>req_command = command_from_byte command, req_target = target\<rparr>)))"

definition request_encode :: "request \<Rightarrow> protocol_error + u8 list" where
  "request_encode r =
     target_encode_into (req_target r) [SOCKS_VERSION, command_as_byte (req_command r), 0x00]"

section \<open>Reply\<close>

datatype reply_code =
    Succeeded | GeneralFailure | NotAllowed | NetworkUnreachable | HostUnreachable
  | ConnectionRefused | TtlExpired | CommandNotSupported | AddressTypeNotSupported
  | Unassigned u8

definition reply_code_from_byte :: "u8 \<Rightarrow> reply_code" where
  "reply_code_from_byte value =
     (if value = 0x00 then Succeeded
      else if value = 0x01 then GeneralFailure
      else if value = 0x02 then NotAllowed
      else if value = 0x03 then NetworkUnreachable
      else if value = 0x04 then HostUnreachable
      else if value = 0x05 then ConnectionRefused
      else if value = 0x06 then TtlExpired
      else if value = 0x07 then CommandNotSupported
      else if value = 0x08 then AddressTypeNotSupported
      else Unassigned value)"

fun reply_code_as_byte :: "reply_code \<Rightarrow> u8" where
  "reply_code_as_byte Succeeded = 0x00"
| "reply_code_as_byte GeneralFailure = 0x01"
| "reply_code_as_byte NotAllowed = 0x02"
| "reply_code_as_byte NetworkUnreachable = 0x03"
| "reply_code_as_byte HostUnreachable = 0x04"
| "reply_code_as_byte ConnectionRefused = 0x05"
| "reply_code_as_byte TtlExpired = 0x06"
| "reply_code_as_byte CommandNotSupported = 0x07"
| "reply_code_as_byte AddressTypeNotSupported = 0x08"
| "reply_code_as_byte (Unassigned value) = value"

record reply =
  rep_code :: reply_code
  bind_addr :: socket_addr

definition reply_new :: "reply_code \<Rightarrow> reply" where
  "reply_new code = \<lparr>rep_code = code, bind_addr = socket_addr_new (V4 0) 0\<rparr>"

definition reply_encode :: "reply \<Rightarrow> u8 list" where
  "reply_encode r =
     push_socket_addr [SOCKS_VERSION, reply_code_as_byte (rep_code r), 0x00] (bind_addr r)"

definition reply_read_from :: "'s async_read \<Rightarrow> ('s, protocol_error + reply) async" where
  "reply_read_from reader =
     try_await (read_exact reader 4) Io (\<lambda>header.
     let version = header ! 0; code = header ! 1; address_type = header ! 3 in
     if version \<noteq> SOCKS_VERSION then ready (Err (UnsupportedVersion version))
     else
       try_await (target_read_from reader address_type) id (\<lambda>target.
       let addr = (case target of
             Ip addr \<Rightarrow> addr
           | DomainHost host port \<Rightarrow> socket_addr_new (V4 0) port)
       in ready (Ok \<lparr>rep_code = reply_code_from_byte code, bind_addr = addr\<rparr>)))"

section \<open>Codes\<close>

fun command_canonical :: "command \<Rightarrow> bool" where
  "command_canonical (Unknown v) \<longleftrightarrow> v \<notin> {1, 2, 3}"
| "command_canonical _ = True"

fun reply_code_canonical :: "reply_code \<Rightarrow> bool" where
  "reply_code_canonical (Unassigned v) \<longleftrightarrow> v \<notin> {0, 1, 2, 3, 4, 5, 6, 7, 8}"
| "reply_code_canonical _ = True"

lemma command_bytes [simp]:
  "command_as_byte (command_from_byte b) = b"
  "command_canonical (command_from_byte b)"
  by (auto simp: command_from_byte_def socks_consts)

lemma command_from_as_byte [simp]: "command_canonical c \<Longrightarrow> command_from_byte (command_as_byte c) = c"
  by (cases c) (auto simp: command_from_byte_def socks_consts)

lemma reply_code_bytes [simp]:
  "reply_code_as_byte (reply_code_from_byte b) = b"
  "reply_code_canonical (reply_code_from_byte b)"
  by (auto simp: reply_code_from_byte_def)

lemma reply_code_from_as_byte [simp]:
  "reply_code_canonical c \<Longrightarrow> reply_code_from_byte (reply_code_as_byte c) = c"
  by (cases c) (auto simp: reply_code_from_byte_def)

section \<open>Any reader\<close>

context byte_reader
begin

lemma greeting_sim: "simulates pending (greeting_read_from R) (greeting_read_from slice_reader)"
  unfolding greeting_read_from_def by (auto intro!: simulates_intros read_sims)

lemma selection_sim: "simulates pending (selection_read_from R) (selection_read_from slice_reader)"
  unfolding selection_read_from_def by (auto intro!: simulates_intros read_sims)

lemma user_pass_sim: "simulates pending (user_pass_read_from R) (user_pass_read_from slice_reader)"
  unfolding user_pass_read_from_def by (auto intro!: simulates_intros read_sims read_u8_prefixed_sim)

lemma response_sim: "simulates pending (response_read_from R) (response_read_from slice_reader)"
  unfolding response_read_from_def by (auto intro!: simulates_intros read_sims)

lemma request_sim: "simulates pending (request_read_from R) (request_read_from slice_reader)"
  unfolding request_read_from_def Let_def
  by (auto intro!: simulates_intros read_sims target_read_from_sim)

lemma reply_sim: "simulates pending (reply_read_from R) (reply_read_from slice_reader)"
  unfolding reply_read_from_def Let_def
  by (auto intro!: simulates_intros read_sims target_read_from_sim)

lemmas message_sims = greeting_sim selection_sim user_pass_sim response_sim request_sim reply_sim

end

text \<open>A relation on states that every read respects is respected by the decoders.\<close>

locale invariant_reader =
  fixes R :: "'s async_read" and P :: "'s \<Rightarrow> 's \<Rightarrow> bool"
  assumes P_refl: "P s s" and P_trans: "P x y \<Longrightarrow> P y z \<Longrightarrow> P x z"
    and read_u8_keeps: "keeps P (read_u8 R)" and read_u16_keeps: "keeps P (read_u16 R)"
    and read_exact_keeps: "keeps P (read_exact R n)"
begin

lemma keeps_ready_P: "keeps P (ready a)"
  by (rule keeps_ready) (rule P_refl)

lemma keeps_try: "keeps P m \<Longrightarrow> (\<And>a. keeps P (k a)) \<Longrightarrow> keeps P (try_await m conv k)"
  by (rule keeps_try_await [OF P_refl P_trans])

lemmas keeps_rules = keeps_ready_P keeps_try read_u8_keeps read_u16_keeps read_exact_keeps

lemma keeps_prefixed: "keeps P (read_u8_prefixed R)"
  unfolding read_u8_prefixed_def by (intro keeps_rules)

lemma keeps_target: "keeps P (target_read_from R atyp)"
  unfolding target_read_from_def by (auto intro!: keeps_rules keeps_prefixed)

lemma keeps_greeting: "keeps P (greeting_read_from R)"
  unfolding greeting_read_from_def by (auto intro!: keeps_rules)

lemma keeps_user_pass: "keeps P (user_pass_read_from R)"
  unfolding user_pass_read_from_def by (auto intro!: keeps_rules keeps_prefixed)

lemma keeps_request: "keeps P (request_read_from R)"
  unfolding request_read_from_def Let_def by (auto intro!: keeps_rules keeps_target)

lemma keeps_selection: "keeps P (selection_read_from R)"
  unfolding selection_read_from_def by (auto intro!: keeps_rules)

lemma keeps_response: "keeps P (response_read_from R)"
  unfolding response_read_from_def by (auto intro!: keeps_rules)

lemma keeps_reply: "keeps P (reply_read_from R)"
  unfolding reply_read_from_def Let_def by (auto intro!: keeps_rules keeps_target)

end

section \<open>The contract of a message\<close>

locale wire_codec =
  fixes encode :: "'m \<Rightarrow> protocol_error + u8 list"
    and read_from :: "(u8 list, protocol_error + 'm) async"
    and wf :: "'m \<Rightarrow> bool"
  assumes encode_wf: "wf m \<Longrightarrow> \<exists>bs. encode m = Ok bs"
    and read_encode: "wf m \<Longrightarrow> encode m = Ok bs \<Longrightarrow> read_from (bs @ rest) = (Ready (Ok m), rest)"
begin

lemma roundtrip: "wf m \<Longrightarrow> \<exists>bs. encode m = Ok bs \<and> read_from (bs @ rest) = (Ready (Ok m), rest)"
  using encode_wf read_encode by blast

lemma self_delimiting:
  assumes "wf m" "wf m'" "encode m = Ok bs" "encode m' = Ok bs'" "bs @ xs = bs' @ ys"
  shows "m = m' \<and> bs = bs' \<and> xs = ys"
  using read_encode [OF assms(1,3), of xs] read_encode [OF assms(2,4), of ys] assms by simp

lemma encode_inject: "wf m \<Longrightarrow> wf m' \<Longrightarrow> encode m = Ok bs \<Longrightarrow> encode m' = Ok bs \<Longrightarrow> m = m'"
  using self_delimiting [of m m' bs bs "[]" "[]"] by simp

end

definition greeting_wf :: "greeting \<Rightarrow> bool" where
  "greeting_wf g \<longleftrightarrow> methods g \<noteq> [] \<and> length (methods g) \<le> 255"

definition user_pass_wf :: "user_pass_request \<Rightarrow> bool" where
  "user_pass_wf r \<longleftrightarrow> length (upr_username r) \<le> 255 \<and> length (upr_password r) \<le> 255"

definition request_wf :: "request \<Rightarrow> bool" where
  "request_wf r \<longleftrightarrow> command_canonical (req_command r) \<and> target_wf (req_target r)"

definition reply_wf :: "reply \<Rightarrow> bool" where
  "reply_wf r \<longleftrightarrow> reply_code_canonical (rep_code r) \<and> target_wf (Ip (bind_addr r))"

lemma greeting_encode_eq:
  "greeting_encode g =
     (if length (methods g) \<le> 255 then Ok (SOCKS_VERSION # of_nat (length (methods g)) # methods g)
      else Err FieldTooLong)"
  by (simp add: greeting_encode_def u8_try_from_def)

lemma user_pass_encode_eq:
  "user_pass_encode r =
     (if user_pass_wf r
      then Ok (AUTH_VERSION # of_nat (length (upr_username r)) # upr_username r @
               of_nat (length (upr_password r)) # upr_password r)
      else Err FieldTooLong)"
  by (simp add: user_pass_encode_def user_pass_wf_def push_u8_prefixed_eq)

lemma request_encode_eq:
  "target_wf (req_target r) \<Longrightarrow>
     request_encode r = Ok (SOCKS_VERSION # command_as_byte (req_command r) # 0 #
       target_atyp (req_target r) # target_body (req_target r))"
  by (simp add: request_encode_def target_encode_wf)

lemma reply_encode_eq:
  "reply_encode r = SOCKS_VERSION # reply_code_as_byte (rep_code r) # 0 #
     target_atyp (Ip (bind_addr r)) # target_body (Ip (bind_addr r))"
  by (simp add: reply_encode_def push_socket_addr_eq)

text \<open>Reading a header of four bytes.\<close>

lemma slice_header [simp]:
  "slice_read_exact 4 (a # b # c # d # rest) = (Ready (Ok [a, b, c, d]), rest)"
  by (simp add: slice_read_exact_def)

lemma of_nat_u8_nonzero: "0 < n \<Longrightarrow> n \<le> 255 \<Longrightarrow> (of_nat n :: u8) \<noteq> 0"
  by (metis unat_0 unat_of_nat_u8 less_numeral_extra(3))

lemma greeting_read_wf:
  "greeting_wf g \<Longrightarrow>
     greeting_read_from slice_reader (SOCKS_VERSION # of_nat (length (methods g)) # methods g @ rest)
       = (Ready (Ok g), rest)"
  by (simp add: greeting_read_from_def greeting_wf_def of_nat_u8_nonzero unat_of_nat_u8)

interpretation greeting_codec: wire_codec greeting_encode "greeting_read_from slice_reader" greeting_wf
  by unfold_locales (auto simp: greeting_encode_eq greeting_wf_def greeting_read_wf)

interpretation selection_codec: wire_codec "\<lambda>s. Ok (selection_encode s)"
    "selection_read_from slice_reader" "\<lambda>_. True"
  by unfold_locales (auto simp: selection_encode_def selection_read_from_def)

interpretation user_pass_codec: wire_codec user_pass_encode "user_pass_read_from slice_reader" user_pass_wf
proof unfold_locales
  fix m bs rest
  assume wf: "user_pass_wf m" and "user_pass_encode m = Ok bs"
  then have bs: "bs = AUTH_VERSION # of_nat (length (upr_username m)) # upr_username m @
      of_nat (length (upr_password m)) # upr_password m"
    by (simp add: user_pass_encode_eq)
  show "user_pass_read_from slice_reader (bs @ rest) = (Ready (Ok m), rest)"
    using wf by (simp add: bs user_pass_read_from_def user_pass_wf_def)
qed (simp add: user_pass_encode_eq)

interpretation response_codec: wire_codec "\<lambda>r. Ok (response_encode r)"
    "response_read_from slice_reader" "\<lambda>_. True"
  by unfold_locales (auto simp: response_encode_def response_read_from_def)

interpretation request_codec: wire_codec request_encode "request_read_from slice_reader" request_wf
  by unfold_locales
     (auto simp: request_wf_def request_encode_eq request_read_from_def target_read_slice)

interpretation reply_codec: wire_codec "\<lambda>r. Ok (reply_encode r)" "reply_read_from slice_reader" reply_wf
  by unfold_locales
     (auto simp: reply_wf_def reply_encode_eq reply_read_from_def target_read_slice)

section \<open>Inversion\<close>

lemma greeting_read_OkD:
  assumes "greeting_read_from slice_reader bs = (Ready (Ok g), rest)"
  shows "greeting_wf g \<and> bs = SOCKS_VERSION # of_nat (length (methods g)) # methods g @ rest"
  using assms
  by (auto simp: greeting_read_from_def greeting_wf_def unat_eq_0
      elim!: try_await_OkE dest!: slice_read_OkD split: if_splits)
     (metis unat_u8_le)

lemma user_pass_read_OkD:
  assumes "user_pass_read_from slice_reader bs = (Ready (Ok r), rest)"
  shows "user_pass_wf r \<and> bs = AUTH_VERSION # of_nat (length (upr_username r)) # upr_username r @
    of_nat (length (upr_password r)) # upr_password r @ rest"
  using assms
  by (auto simp: user_pass_read_from_def user_pass_wf_def
      elim!: try_await_OkE dest!: slice_read_OkD read_u8_prefixed_OkD split: if_splits)

lemma length_4_conv: "length xs = 4 \<longleftrightarrow> (\<exists>a b c d. xs = [a, b, c, d])"
  by (auto simp: numeral_eq_Suc length_Suc_conv)

lemma request_read_OkD:
  assumes "request_read_from slice_reader bs = (Ready (Ok r), rest)"
  shows "request_wf r \<and> (\<exists>rsv. bs = SOCKS_VERSION # command_as_byte (req_command r) # rsv #
    target_atyp (req_target r) # target_body (req_target r) @ rest)"
  using assms
  by (auto simp: request_read_from_def request_wf_def Let_def length_4_conv
      elim!: try_await_OkE dest!: slice_read_OkD target_read_OkD split: if_splits)

lemma request_read_rsv:
  assumes "request_wf r"
  shows "request_read_from slice_reader (SOCKS_VERSION # command_as_byte (req_command r) # rsv #
    target_atyp (req_target r) # target_body (req_target r) @ rest) = (Ready (Ok r), rest)"
  using assms by (simp add: request_wf_def request_read_from_def target_read_slice)

section \<open>Properties\<close>

text \<open>The server understands exactly the greetings a client can encode: reading succeeds with \<open>g\<close>
  precisely when \<open>g\<close> offers at least one method and the input is its encoding followed by what is
  left unread.\<close>

theorem greeting_read_iff:
  "greeting_read_from slice_reader bs = (Ready (Ok g), rest) \<longleftrightarrow>
     methods g \<noteq> [] \<and> (\<exists>e. greeting_encode g = Ok e \<and> bs = e @ rest)"
proof
  assume "greeting_read_from slice_reader bs = (Ready (Ok g), rest)"
  from greeting_read_OkD [OF this]
  show "methods g \<noteq> [] \<and> (\<exists>e. greeting_encode g = Ok e \<and> bs = e @ rest)"
    by (auto simp: greeting_encode_eq greeting_wf_def)
next
  assume "methods g \<noteq> [] \<and> (\<exists>e. greeting_encode g = Ok e \<and> bs = e @ rest)"
  then show "greeting_read_from slice_reader bs = (Ready (Ok g), rest)"
    by (auto simp: greeting_encode_eq greeting_wf_def greeting_read_wf split: if_splits)
qed

text \<open>The username/password request is read exactly from its encoding, for every name and password
  of at most 255 bytes, empty ones included; longer ones have no encoding.\<close>

theorem user_pass_read_iff:
  "user_pass_read_from slice_reader bs = (Ready (Ok r), rest) \<longleftrightarrow>
     (\<exists>e. user_pass_encode r = Ok e \<and> bs = e @ rest)"
proof
  assume "user_pass_read_from slice_reader bs = (Ready (Ok r), rest)"
  from user_pass_read_OkD [OF this] show "\<exists>e. user_pass_encode r = Ok e \<and> bs = e @ rest"
    by (simp add: user_pass_encode_eq)
next
  assume "\<exists>e. user_pass_encode r = Ok e \<and> bs = e @ rest"
  then show "user_pass_read_from slice_reader bs = (Ready (Ok r), rest)"
    using user_pass_codec.read_encode by (metis Inl_Inr_False user_pass_encode_eq)
qed

text \<open>\<^bold>\<open>C29.\<close> A request is read as \<open>r\<close> exactly when the input is the encoding of \<open>r\<close> with any reserved byte,
  followed by what is left unread, and \<open>r\<close> is one the format can express: a command whose code is
  not hidden under \<open>Unknown\<close>, an IP address without flow information and scope, or a domain of 1 to
  255 permitted characters.\<close>

theorem request_read_iff:
  "request_read_from slice_reader bs = (Ready (Ok r), rest) \<longleftrightarrow>
     request_wf r \<and> (\<exists>e rsv. request_encode r = Ok e \<and> bs = e[2 := rsv] @ rest)"
proof
  assume "request_read_from slice_reader bs = (Ready (Ok r), rest)"
  from request_read_OkD [OF this] obtain rsv where r: "request_wf r"
    and bs: "bs = SOCKS_VERSION # command_as_byte (req_command r) # rsv #
      target_atyp (req_target r) # target_body (req_target r) @ rest" by blast
  from r have "request_encode r = Ok (SOCKS_VERSION # command_as_byte (req_command r) # 0 #
      target_atyp (req_target r) # target_body (req_target r))"
    by (simp add: request_encode_eq request_wf_def)
  with r bs show "request_wf r \<and> (\<exists>e rsv. request_encode r = Ok e \<and> bs = e[2 := rsv] @ rest)"
    by (auto simp: numeral_2_eq_2)
next
  assume "request_wf r \<and> (\<exists>e rsv. request_encode r = Ok e \<and> bs = e[2 := rsv] @ rest)"
  then obtain rsv where "request_wf r" and "bs = SOCKS_VERSION # command_as_byte (req_command r) # rsv #
      target_atyp (req_target r) # target_body (req_target r) @ rest"
    by (auto simp: request_encode_eq request_wf_def numeral_2_eq_2)
  then show "request_read_from slice_reader bs = (Ready (Ok r), rest)"
    by (simp add: request_read_rsv)
qed

text \<open>Why the bytes \<open>bs\<close> are no request, by their lengths and values.\<close>

definition request_length :: "u8 list \<Rightarrow> nat" where
  "request_length bs =
     (if bs ! 3 = 1 then 10 else if bs ! 3 = 4 then 22 else if length bs = 4 then 5 else 7 + unat (bs ! 4))"

definition request_refusal :: "u8 list \<Rightarrow> protocol_error option" where
  "request_refusal bs =
     (let domain = take (unat (bs ! 4)) (drop 5 bs) in
      if length bs < 4 then Some (Io eof_error)
      else if bs ! 0 \<noteq> 5 then Some (UnsupportedVersion (bs ! 0))
      else if bs ! 3 \<notin> {1, 3, 4} then Some (UnsupportedAddressType (bs ! 3))
      else if length bs < request_length bs then Some (Io eof_error)
      else if bs ! 3 = 3 \<and> (domain = [] \<or> list_ex (\<lambda>b. \<not> domain_byte b) domain) then Some InvalidDomain
      else None)"

lemma slice_u16_eq:
  "read_u16 slice_reader bs =
     (if length bs < 2 then (Ready (Err eof_error), []) else (Ready (Ok (be_word (take 2 bs))), drop 2 bs))"
  by (simp add: slice_reader_def try_await_def await_def slice_read_exact_def)

lemma target_read_outcome:
  "fst (target_read_from slice_reader 1 body) =
     Ready (if length body < 6 then Err (Io eof_error)
            else Ok (Ip (SockV4 (be_word (take 4 body)) (be_word (take 2 (drop 4 body))))))"
  "fst (target_read_from slice_reader 4 body) =
     Ready (if length body < 18 then Err (Io eof_error)
            else Ok (Ip (SockV6 (be_word (take 16 body)) (be_word (take 2 (drop 16 body))) 0 0)))"
  "fst (target_read_from slice_reader 3 []) = Ready (Err (Io eof_error))"
  "fst (target_read_from slice_reader 3 (n # body)) =
     Ready (if length body < unat n + 2 then Err (Io eof_error)
            else try_bind (parse_domain (take (unat n) body)) (\<lambda>host.
              Ok (DomainHost host (be_word (take 2 (drop (unat n) body))))))"
  "a \<notin> {1, 3, 4} \<Longrightarrow> fst (target_read_from slice_reader a body) = Ready (Err (UnsupportedAddressType a))"
  by (auto simp: target_read_from_def socks_consts read_u8_prefixed_def try_await_def await_def slice_read_exact_def
      slice_u16_eq try_bind_def split: sum.splits)

lemma request_read_head:
  "fst (request_read_from slice_reader (v # c # r # a # body)) =
     (if v \<noteq> 5 then Ready (Err (UnsupportedVersion v))
      else case fst (target_read_from slice_reader a body) of
        Ready (Inr target) \<Rightarrow> Ready (Ok \<lparr>req_command = command_from_byte c, req_target = target\<rparr>)
      | Ready (Inl e) \<Rightarrow> Ready (Err e)
      | Interrupted \<Rightarrow> Interrupted)"
  using slice_read_exact_append [of "[v, c, r, a]" 4 body]
  by (simp add: request_read_from_def SOCKS_VERSION_def try_await_def await_cases split: polled.split sum.split)

lemma request_read_outcome:
  "case request_refusal bs of
     Some e \<Rightarrow> fst (request_read_from slice_reader bs) = Ready (Err e)
   | None \<Rightarrow> \<exists>r. fst (request_read_from slice_reader bs) = Ready (Ok r)"
proof (cases "length bs < 4")
  case True
  then show ?thesis by (simp add: request_refusal_def request_read_from_def slice_read_exact_short Let_def)
next
  case False
  then have "4 \<le> length bs" by simp
  then obtain v c r a body where bs: "bs = v # c # r # a # body"
    by (auto simp: numeral_eq_Suc Suc_le_length_iff)
  consider "v \<noteq> 5" | "v = 5" "a \<notin> {1, 3, 4}" | "v = 5" "a = 1" | "v = 5" "a = 4" | "v = 5" "a = 3" "body = []"
    | n rest where "v = 5" "a = 3" "body = n # rest" by (cases body) auto
  then show ?thesis
    by cases (auto simp: bs request_read_head target_read_outcome request_refusal_def request_length_def
        parse_domain_eq try_bind_def list_all_iff list_ex_iff Let_def)
qed

text \<open>\<^bold>\<open>C30.\<close> Which error \<open>Request::read_from\<close> reports for which bytes, for all of them, in the order of the checks: end
  of input within the header; a version other than 5; an address type outside IPv4, domain and IPv6,
  whatever follows; end of input before the address and its port are complete; and, only then, a domain that is empty
  or has a byte outside letters, digits and \<open>- _ . :\<close>. Every other input is a request.\<close>

theorem request_read_refusals:
  "(\<exists>rest. request_read_from slice_reader bs = (Ready (Err e), rest)) \<longleftrightarrow> request_refusal bs = Some e"
  using request_read_outcome [of bs]
  by (cases "request_read_from slice_reader bs") (auto split: option.splits)

text \<open>A reply is read back from its encoding, leaving what follows unread: the code as its byte
  gives it, the bind address without flow information and scope, which the format does not carry.\<close>

theorem reply_encode_read:
  "reply_read_from slice_reader (reply_encode r @ rest) =
     (Ready (Ok \<lparr>rep_code = reply_code_from_byte (reply_code_as_byte (rep_code r)),
                 bind_addr = socket_addr_new (sock_ip (bind_addr r)) (sock_port (bind_addr r))\<rparr>), rest)"
  by (cases "bind_addr r")
     (simp_all add: reply_encode_eq reply_read_from_def target_read_from_def socks_consts)

text \<open>What a client sends is unambiguous: two sequences of greeting, credentials and request whose
  encodings start two equal byte streams are the same messages, and the streams agree on what follows.\<close>

theorem client_stream_unambiguous:
  assumes "greeting_wf g" "user_pass_wf u" "request_wf r"
    and "greeting_wf g'" "user_pass_wf u'" "request_wf r'"
    and "greeting_encode g = Ok eg" "user_pass_encode u = Ok eu" "request_encode r = Ok er"
    and "greeting_encode g' = Ok eg'" "user_pass_encode u' = Ok eu'" "request_encode r' = Ok er'"
    and "eg @ eu @ er @ xs = eg' @ eu' @ er' @ ys"
  shows "g = g' \<and> u = u' \<and> r = r' \<and> xs = ys"
  using greeting_codec.self_delimiting [OF assms(1,4,7,10,13)]
    user_pass_codec.self_delimiting [OF assms(2,5,8,11)]
    request_codec.self_delimiting [OF assms(3,6,9,12)] by blast

theorem client_stream_unambiguous_witness:
  "let g = \<lparr>methods = [2]\<rparr>;
       u = \<lparr>upr_username = [97], upr_password = [98]\<rparr>;
       r = \<lparr>req_command = Connect, req_target = DomainHost ''a.b'' 80\<rparr>
   in greeting_encode g = Ok [5, 1, 2] \<and> user_pass_encode u = Ok [1, 1, 97, 1, 98] \<and>
      request_encode r = Ok [5, 1, 0, 3, 3, 97, 46, 98, 0, 80] \<and>
      (\<forall>xs ys. [5, 1, 2] @ [1, 1, 97, 1, 98] @ [5, 1, 0, 3, 3, 97, 46, 98, 0, 80] @ xs =
         [5, 1, 2] @ [1, 1, 97, 1, 98] @ [5, 1, 0, 3, 3, 97, 46, 98, 0, 80 :: u8] @ ys \<longrightarrow> xs = ys)"
proof -
  let ?g = "\<lparr>methods = [2]\<rparr>"
  let ?u = "\<lparr>upr_username = [97], upr_password = [98]\<rparr>"
  let ?r = "\<lparr>req_command = Connect, req_target = DomainHost ''a.b'' 80\<rparr>"
  have wf: "greeting_wf ?g" "user_pass_wf ?u" "request_wf ?r"
    by (simp_all add: greeting_wf_def user_pass_wf_def request_wf_def as_bytes_def byte_of_char_def
        domain_byte_def is_ascii_alphanumeric_def between_def)
  have enc: "greeting_encode ?g = Ok [5, 1, 2]" "user_pass_encode ?u = Ok [1, 1, 97, 1, 98]"
    "request_encode ?r = Ok [5, 1, 0, 3, 3, 97, 46, 98, 0, 80]"
    using wf by (simp_all add: greeting_encode_eq user_pass_encode_eq request_encode_eq request_wf_def
        socks_consts as_bytes_def byte_of_char_def be_bytes_2)
  show ?thesis
    using client_stream_unambiguous [OF wf wf enc enc] enc by (simp only: Let_def) blast
qed

end
