(* ===== verification/Activity_Clock.thy ===== *)
theory Activity_Clock
  imports Prelude
begin

text \<open>
  \<open>src/relay/activity_clock.rs\<close>: the moment of the last progress, kept in whole milliseconds since
  the clock was created. The instant at which an operation runs (\<open>Instant::now()\<close>) is an argument.
  Because the stored moment is rounded down, idle time is overestimated by less than a millisecond.
\<close>

record activity_clock =
  origin :: instant
  last_activity_ms :: nat

definition clock_new :: "instant \<Rightarrow> activity_clock" where
  "clock_new now = \<lparr>origin = now, last_activity_ms = 0\<rparr>"

definition as_millis :: "duration \<Rightarrow> nat" where
  "as_millis d = u64_try_from_or_max (as_millis_of d)"

definition elapsed :: "instant \<Rightarrow> instant \<Rightarrow> duration" where
  "elapsed since now = saturating_duration_since now since"

definition touch :: "instant \<Rightarrow> activity_clock \<Rightarrow> activity_clock" where
  "touch now clock = clock\<lparr>last_activity_ms := as_millis (elapsed (origin clock) now)\<rparr>"

definition idle_for :: "instant \<Rightarrow> activity_clock \<Rightarrow> duration" where
  "idle_for now clock =
     (let last_activity = from_millis (last_activity_ms clock)
      in elapsed (origin clock) now - last_activity)"

definition remaining :: "instant \<Rightarrow> activity_clock \<Rightarrow> duration \<Rightarrow> duration" where
  "remaining now clock idle_timeout = idle_timeout - idle_for now clock"

text \<open>A clock last touched at \<open>t\<close> (or created then). The bound keeps the elapsed milliseconds
  representable: more than 500 million years.\<close>

definition in_clock_range :: "instant \<Rightarrow> activity_clock \<Rightarrow> bool" where
  "in_clock_range now clock \<longleftrightarrow> origin clock \<le> now \<and> as_millis_of (now - origin clock) \<le> u64_max"

definition touched_at :: "instant \<Rightarrow> activity_clock \<Rightarrow> bool" where
  "touched_at t clock \<longleftrightarrow> origin clock \<le> t \<and> last_activity_ms clock = as_millis_of (t - origin clock)"

lemma touched_at_new: "touched_at now (clock_new now)"
  by (simp add: touched_at_def clock_new_def as_millis_of_def)

lemma touched_at_touch: "in_clock_range now clock \<Longrightarrow> touched_at now (touch now clock)"
  by (simp add: touched_at_def touch_def in_clock_range_def as_millis_def u64_try_from_or_max_def
      elapsed_def saturating_duration_since_def)

lemma origin_touch [simp]: "origin (touch now clock) = origin clock"
  by (simp add: touch_def)

text \<open>Rounding: idle time is the time since the last progress, plus less than a millisecond.\<close>

lemma idle_for_bounds:
  assumes "touched_at t clock" and "t \<le> now"
  shows "now - t \<le> idle_for now clock" and "idle_for now clock < now - t + 1000000"
proof -
  let ?d = "t - origin clock"
  have "?d = 1000000 * (?d div 1000000) + ?d mod 1000000" by simp
  moreover have "?d mod 1000000 < 1000000" by simp
  ultimately obtain q where q: "?d div 1000000 * 1000000 = q" "q \<le> ?d" "?d < q + 1000000"
    by auto
  have "idle_for now clock = now - origin clock - q"
    using assms q(1) by (simp add: touched_at_def idle_for_def elapsed_def saturating_duration_since_def
        as_millis_of_def from_millis_def)
  then show "now - t \<le> idle_for now clock" "idle_for now clock < now - t + 1000000"
    using assms q(2,3) by (auto simp: touched_at_def)
qed

lemma remaining_zero_iff: "remaining now clock idle = 0 \<longleftrightarrow> idle \<le> idle_for now clock"
  by (simp add: remaining_def)

text \<open>The time left is exact: waiting that long without progress leaves none.\<close>

lemma idle_for_mono: "now \<le> now' \<Longrightarrow> idle_for now clock \<le> idle_for now' clock"
  by (simp add: idle_for_def elapsed_def saturating_duration_since_def)

lemma remaining_expires:
  assumes "origin clock \<le> now" and "from_millis (last_activity_ms clock) \<le> now - origin clock"
    and "now + remaining now clock idle \<le> now'"
  shows "remaining now' clock idle = 0"
  using assms by (simp add: remaining_def idle_for_def elapsed_def saturating_duration_since_def)

lemma touched_at_ms: "touched_at t clock \<Longrightarrow> t \<le> now \<Longrightarrow> from_millis (last_activity_ms clock) \<le> now - origin clock"
proof -
  assume t: "touched_at t clock" "t \<le> now"
  have "(t - origin clock) div 1000000 * 1000000 \<le> t - origin clock" by simp
  with t show ?thesis by (simp add: touched_at_def from_millis_def as_millis_of_def)
qed

end
