(* ===== verification/Relay.thy ===== *)
theory Relay
  imports Activity_Clock
begin

text \<open>
  \<open>src/relay/bidirectional.rs\<close>. Each direction (\<open>pump\<close>) is a state machine whose states are its
  await points; a step consumes what the awaited operation reports (data, a written count, an error,
  the timer) at some instant and runs to the next await point. The \<open>select!\<close> of \<open>relay\<close> is any
  interleaving of the steps of the two directions over the shared clock. What was read from a peer
  and what was written to the other is kept beside the machine (\<open>taken\<close>, \<open>sent\<close>), so that delivery
  can be stated.
\<close>

section \<open>Data\<close>

definition RELAY_BUFFER_SIZE :: usize where
  "RELAY_BUFFER_SIZE = 16 * 1024"

record relay_counters =
  client_to_target :: nat
  target_to_client :: nat

datatype relay_end = Completed | IdleTimeout | ClientError io_error | TargetError io_error

datatype pump_error = Idle | ReadFailed io_error | WriteFailed io_error

text \<open>Await points of one direction: a read, a write of the rest of a chunk, or the shutdown of the
  writer, each with the instant at which its \<open>timeout\<close> expires; or the result.\<close>

datatype pump_point =
    AwaitRead (deadline: instant)
  | AwaitWrite "u8 list" (deadline: instant)
  | AwaitShutdown (deadline: instant)
  | Finished "pump_error + unit"

text \<open>What an awaited operation reports.\<close>

datatype pump_event =
    ReadDone "io_error + u8 list"
  | WriteDone "io_error + nat"
  | ShutdownDone "io_error + unit"
  | TimerFired

record pump_state =
  point :: pump_point
  delivered :: nat
  taken :: "u8 list"
  sent :: "u8 list"

section \<open>One direction\<close>

text \<open>The head of the loop in \<open>read_with_idle\<close>.\<close>

definition read_with_idle :: "instant \<Rightarrow> activity_clock \<Rightarrow> duration \<Rightarrow> pump_point" where
  "read_with_idle now clock idle_timeout =
     (let left = remaining now clock idle_timeout in
      if left = 0 then Finished (Err Idle) else AwaitRead (now + left))"

text \<open>The head of the loop in \<open>write_all_with_idle\<close>; once the chunk is written, \<open>pump\<close> reads again.\<close>

definition write_all_with_idle :: "instant \<Rightarrow> activity_clock \<Rightarrow> duration \<Rightarrow> u8 list \<Rightarrow> pump_point" where
  "write_all_with_idle now clock idle_timeout data =
     (if data = [] then read_with_idle now clock idle_timeout
      else
        let left = remaining now clock idle_timeout in
        if left = 0 then Finished (Err Idle) else AwaitWrite data (now + left))"

definition write_zero :: io_error where
  "write_zero = IoError WriteZeroKind ''write zero''"

text \<open>The step of a direction at instant \<open>now\<close>; nothing if the event is not one it waits for.\<close>

definition pump_step :: "duration \<Rightarrow> instant \<Rightarrow> pump_event \<Rightarrow> activity_clock \<Rightarrow> pump_state \<Rightarrow>
    (activity_clock \<times> pump_state) option" where
  "pump_step idle_timeout now event clock p =
     (case (point p, event) of
        (AwaitRead dl, ReadDone (Inl error)) \<Rightarrow> Some (clock, p\<lparr>point := Finished (Err (ReadFailed error))\<rparr>)
      | (AwaitRead dl, ReadDone (Inr bytes)) \<Rightarrow>
          if bytes = [] \<or> RELAY_BUFFER_SIZE < length bytes
          then Some (clock, p\<lparr>point := AwaitShutdown (now + idle_timeout)\<rparr>)
          else (let clock = touch now clock in
                Some (clock, p\<lparr>taken := taken p @ bytes,
                              point := write_all_with_idle now clock idle_timeout bytes\<rparr>))
      | (AwaitRead dl, TimerFired) \<Rightarrow> Some (clock, p\<lparr>point := read_with_idle now clock idle_timeout\<rparr>)
      | (AwaitWrite data dl, WriteDone (Inl error)) \<Rightarrow>
          Some (clock, p\<lparr>point := Finished (Err (WriteFailed error))\<rparr>)
      | (AwaitWrite data dl, WriteDone (Inr written)) \<Rightarrow>
          if written = 0 then Some (clock, p\<lparr>point := Finished (Err (WriteFailed write_zero))\<rparr>)
          else (let clock = touch now clock in
                Some (clock, p\<lparr>sent := sent p @ take written data,
                              delivered := u64_saturating_add (delivered p) (u64_try_from_or_max written),
                              point := write_all_with_idle now clock idle_timeout (drop written data)\<rparr>))
      | (AwaitWrite data dl, TimerFired) \<Rightarrow>
          Some (clock, p\<lparr>point := write_all_with_idle now clock idle_timeout data\<rparr>)
      | (AwaitShutdown dl, ShutdownDone _) \<Rightarrow> Some (clock, p\<lparr>point := Finished (Ok ())\<rparr>)
      | (AwaitShutdown dl, TimerFired) \<Rightarrow> Some (clock, p\<lparr>point := Finished (Ok ())\<rparr>)
      | _ \<Rightarrow> None)"

section \<open>Both directions\<close>

datatype direction = Upload | Download

record relay_state =
  clock :: activity_clock
  upload :: pump_state
  download :: pump_state
  relay_result :: "relay_end option"

definition pump_new :: "instant \<Rightarrow> activity_clock \<Rightarrow> duration \<Rightarrow> pump_state" where
  "pump_new now c idle_timeout =
     \<lparr>point = read_with_idle now c idle_timeout, delivered = 0, taken = [], sent = []\<rparr>"

text \<open>The arms of \<open>select!\<close>: a direction that ends well is done; an error ends the relay.\<close>

fun relay_end_of :: "direction \<Rightarrow> pump_error \<Rightarrow> relay_end" where
  "relay_end_of Upload Idle = IdleTimeout"
| "relay_end_of Upload (ReadFailed error) = ClientError error"
| "relay_end_of Upload (WriteFailed error) = TargetError error"
| "relay_end_of Download Idle = IdleTimeout"
| "relay_end_of Download (ReadFailed error) = TargetError error"
| "relay_end_of Download (WriteFailed error) = ClientError error"

definition select_result :: "direction \<Rightarrow> relay_state \<Rightarrow> relay_state" where
  "select_result dir s =
     (case point ((if dir = Upload then upload else download) s) of
        Finished (Inl error) \<Rightarrow> s\<lparr>relay_result := Some (relay_end_of dir error)\<rparr>
      | Finished (Inr _) \<Rightarrow>
          if point (upload s) = Finished (Ok ()) \<and> point (download s) = Finished (Ok ())
          then s\<lparr>relay_result := Some Completed\<rparr> else s
      | _ \<Rightarrow> s)"

definition relay_new :: "instant \<Rightarrow> duration \<Rightarrow> relay_state" where
  "relay_new now idle_timeout =
     (let c = clock_new now;
          s = \<lparr>clock = c, upload = pump_new now c idle_timeout, download = pump_new now c idle_timeout,
               relay_result = None\<rparr>
      in select_result Upload s)"

definition relay_step :: "duration \<Rightarrow> instant \<Rightarrow> direction \<Rightarrow> pump_event \<Rightarrow> relay_state \<Rightarrow> relay_state option" where
  "relay_step idle_timeout now dir event s =
     (if relay_result s \<noteq> None then None
      else case dir of
        Upload \<Rightarrow>
          map_option (\<lambda>(c, p). select_result Upload (s\<lparr>clock := c, upload := p\<rparr>))
            (pump_step idle_timeout now event (clock s) (upload s))
      | Download \<Rightarrow>
          map_option (\<lambda>(c, p). select_result Download (s\<lparr>clock := c, download := p\<rparr>))
            (pump_step idle_timeout now event (clock s) (download s)))"

text \<open>A run over a sequence of reports; reports nobody waits for change nothing.\<close>

type_synonym relay_event = "instant \<times> direction \<times> pump_event"

fun relay_run :: "duration \<Rightarrow> relay_state \<Rightarrow> relay_event list \<Rightarrow> relay_state" where
  "relay_run idle_timeout s [] = s"
| "relay_run idle_timeout s ((now, dir, event) # events) =
     (case relay_step idle_timeout now dir event s of
        None \<Rightarrow> relay_run idle_timeout s events
      | Some s' \<Rightarrow> relay_run idle_timeout s' events)"

definition counters_of :: "relay_state \<Rightarrow> relay_counters" where
  "counters_of s = \<lparr>client_to_target = delivered (upload s), target_to_client = delivered (download s)\<rparr>"

section \<open>Reachable states\<close>

definition pump_of :: "direction \<Rightarrow> relay_state \<Rightarrow> pump_state" where
  "pump_of dir s = (case dir of Upload \<Rightarrow> upload s | Download \<Rightarrow> download s)"

text \<open>The contract of the sockets and timers: a read fits the buffer, a write takes no more than it
  was given, a timer does not fire early.\<close>

fun event_ok :: "instant \<Rightarrow> pump_event \<Rightarrow> pump_point \<Rightarrow> bool" where
  "event_ok now (ReadDone (Inr bytes)) _ \<longleftrightarrow> length bytes \<le> RELAY_BUFFER_SIZE"
| "event_ok now (WriteDone (Inr n)) (AwaitWrite data _) \<longleftrightarrow> n \<le> length data"
| "event_ok now TimerFired (Finished _) \<longleftrightarrow> False"
| "event_ok now TimerFired pt \<longleftrightarrow> deadline pt \<le> now"
| "event_ok now _ _ \<longleftrightarrow> True"

text \<open>Progress: at least one byte moved.\<close>

fun moves :: "pump_event \<Rightarrow> bool" where
  "moves (ReadDone (Inr bytes)) \<longleftrightarrow> bytes \<noteq> []"
| "moves (WriteDone (Inr n)) \<longleftrightarrow> 0 < n"
| "moves _ \<longleftrightarrow> False"

text \<open>\<open>relay_reach idle start now act s\<close>: \<open>s\<close> is reached at \<open>now\<close> by a relay started at \<open>start\<close> in which
  a byte last moved at \<open>act\<close> (\<open>start\<close> if none has).\<close>

inductive relay_reach :: "duration \<Rightarrow> instant \<Rightarrow> instant \<Rightarrow> instant \<Rightarrow> relay_state \<Rightarrow> bool"
  for idle start where
  reach_start: "relay_reach idle start start start (relay_new start idle)"
| reach_step:
    "relay_reach idle start now act s \<Longrightarrow> now \<le> now' \<Longrightarrow> in_clock_range now' (clock s) \<Longrightarrow>
     event_ok now' event (point (pump_of dir s)) \<Longrightarrow>
     relay_step idle now' dir event s = Some s' \<Longrightarrow>
     relay_reach idle start now' (if moves event then now' else act) s'"

inductive_cases relay_reachE: "relay_reach idle start now act s"

section \<open>What a step does\<close>

lemma select_result_fields [simp]:
  "clock (select_result dir s) = clock s" "upload (select_result dir s) = upload s"
  "download (select_result dir s) = download s" "pump_of d (select_result dir s) = pump_of d s"
  by (auto simp: select_result_def pump_of_def split: pump_point.split sum.split direction.split)

lemma relay_step_cases:
  assumes "relay_step idle now dir event s = Some s'"
  obtains c p where "pump_step idle now event (clock s) (pump_of dir s) = Some (c, p)"
    and "clock s' = c" and "pump_of dir s' = p" and "\<forall>d. d \<noteq> dir \<longrightarrow> pump_of d s' = pump_of d s"
    and "relay_result s = None"
    and "relay_result s' = relay_result (select_result dir s')"
  using assms
  by (cases dir)
     (auto simp: relay_step_def pump_of_def select_result_def split: if_splits direction.splits
        pump_point.splits sum.splits)

text \<open>Invariant of one direction: what was sent is what was taken, up to the part still to be written,
  and the counter is its length.\<close>

fun stream_ok :: "pump_point \<Rightarrow> u8 list \<Rightarrow> u8 list \<Rightarrow> bool" where
  "stream_ok (AwaitWrite data _) out inp \<longleftrightarrow> inp = out @ data"
| "stream_ok (Finished (Inl _)) out inp \<longleftrightarrow> (\<exists>rest. inp = out @ rest)"
| "stream_ok _ out inp \<longleftrightarrow> out = inp"

definition pump_ok :: "pump_state \<Rightarrow> bool" where
  "pump_ok p \<longleftrightarrow> stream_ok (point p) (sent p) (taken p) \<and> delivered p = min (length (sent p)) u64_max"

lemma stream_ok_read: "stream_ok (read_with_idle now c idle) out inp \<longleftrightarrow>
    (if remaining now c idle = 0 then \<exists>rest. inp = out @ rest else out = inp)"
  by (simp add: read_with_idle_def Let_def)

lemma stream_ok_write: "inp = out @ data \<Longrightarrow> stream_ok (write_all_with_idle now c idle data) out inp"
  by (auto simp: write_all_with_idle_def Let_def stream_ok_read)

lemma saturating_count:
  "u64_saturating_add (min a u64_max) (u64_try_from_or_max b) = min (a + b) u64_max"
  by (auto simp: u64_saturating_add_def u64_try_from_or_max_def min_def)

lemma pump_ok_new: "pump_ok (pump_new now c idle)"
  by (simp add: pump_ok_def pump_new_def stream_ok_read)

lemma pump_ok_step:
  assumes "pump_step idle now event c p = Some (c', p')" and "pump_ok p" and "event_ok now event (point p)"
  shows "pump_ok p'"
  using assms
  by (auto simp: pump_step_def pump_ok_def Let_def stream_ok_read saturating_count min_absorb1
      intro!: stream_ok_write split: pump_point.splits pump_event.splits sum.splits if_splits)

text \<open>A step touches the clock exactly when a byte moved.\<close>

lemma pump_step_clock:
  assumes "pump_step idle now event c p = Some (c', p')" and "event_ok now event (point p)"
  shows "c' = (if moves event then touch now c else c)"
  using assms
  by (auto simp: pump_step_def Let_def split: pump_point.splits pump_event.splits sum.splits if_splits)

lemma all_dir: "(\<forall>dir. P dir) \<longleftrightarrow> P Upload \<and> P Download"
  by (metis direction.exhaust)

lemma ex_dir: "(\<exists>dir. P dir) \<longleftrightarrow> P Upload \<or> P Download"
  by (metis direction.exhaust)

lemma pump_of_simps [simp]: "pump_of Upload s = upload s" "pump_of Download s = download s"
  by (simp_all add: pump_of_def)

text \<open>A direction that fails ends the relay.\<close>

lemma relay_step_fails:
  assumes "relay_result s = None" and "pump_step idle now event (clock s) (pump_of dir s) = Some (c, p)"
    and "point p = Finished (Err e)"
  shows "\<exists>s'. relay_step idle now dir event s = Some s' \<and> relay_result s' = Some (relay_end_of dir e)"
  using assms by (cases dir) (simp_all add: relay_step_def select_result_def)

section \<open>Invariants of reachable states\<close>

lemma pump_of_new [simp]: "pump_of dir (relay_new now idle) = pump_new now (clock_new now) idle"
  by (cases dir) (simp_all add: pump_of_def relay_new_def Let_def)

lemma clock_relay_new [simp]: "clock (relay_new now idle) = clock_new now"
  by (simp add: relay_new_def Let_def)

lemma reach_clock:
  "relay_reach idle start now act s \<Longrightarrow>
     act \<le> now \<and> origin (clock s) = start \<and> touched_at act (clock s)"
proof (induction rule: relay_reach.induct)
  case reach_start
  then show ?case by (simp add: touched_at_new) (simp add: clock_new_def)
next
  case (reach_step now act s now' event dir s')
  from reach_step.hyps(5) obtain c p
    where step: "pump_step idle now' event (clock s) (pump_of dir s) = Some (c, p)" and c: "clock s' = c"
    by (rule relay_step_cases)
  show ?case
    using pump_step_clock [OF step reach_step.hyps(4)] c reach_step touched_at_touch
    by auto
qed

lemma reach_pump_ok: "relay_reach idle start now act s \<Longrightarrow> pump_ok (pump_of d s)"
proof (induction arbitrary: d rule: relay_reach.induct)
  case (reach_step now act s now' event dir s')
  from reach_step.hyps(5) obtain c p
    where "pump_step idle now' event (clock s) (pump_of dir s) = Some (c, p)" and "pump_of dir s' = p"
      and "\<forall>d. d \<noteq> dir \<longrightarrow> pump_of d s' = pump_of d s"
    by (rule relay_step_cases)
  then show ?case
    using pump_ok_step reach_step.IH reach_step.hyps(4) by (cases "d = dir") auto
qed (simp add: pump_ok_new)

text \<open>How a relay ends.\<close>

fun result_ok :: "relay_end option \<Rightarrow> pump_point \<Rightarrow> pump_point \<Rightarrow> bool" where
  "result_ok None up down \<longleftrightarrow>
     (\<forall>e. up \<noteq> Finished (Err e)) \<and> (\<forall>e. down \<noteq> Finished (Err e)) \<and>
     \<not> (up = Finished (Ok ()) \<and> down = Finished (Ok ()))"
| "result_ok (Some Completed) up down \<longleftrightarrow> up = Finished (Ok ()) \<and> down = Finished (Ok ())"
| "result_ok (Some IdleTimeout) up down \<longleftrightarrow> up = Finished (Err Idle) \<or> down = Finished (Err Idle)"
| "result_ok (Some (ClientError e)) up down \<longleftrightarrow>
     up = Finished (Err (ReadFailed e)) \<or> down = Finished (Err (WriteFailed e))"
| "result_ok (Some (TargetError e)) up down \<longleftrightarrow>
     up = Finished (Err (WriteFailed e)) \<or> down = Finished (Err (ReadFailed e))"

abbreviation relay_result_ok :: "relay_state \<Rightarrow> bool" where
  "relay_result_ok s \<equiv> result_ok (relay_result s) (point (upload s)) (point (download s))"

lemma relay_end_of_ok:
  "up = Finished (Err e) \<Longrightarrow> result_ok (Some (relay_end_of Upload e)) up down"
  "down = Finished (Err e) \<Longrightarrow> result_ok (Some (relay_end_of Download e)) up down"
  by (cases e; simp)+

lemma select_result_ok:
  assumes "relay_result s = None" and "\<And>d e. d \<noteq> dir \<Longrightarrow> point (pump_of d s) \<noteq> Finished (Err e)"
  shows "relay_result_ok (select_result dir s)"
  using assms(1) assms(2) [of Upload] assms(2) [of Download]
  by (cases dir)
     (auto simp: select_result_def pump_of_def relay_end_of_ok split: pump_point.splits sum.splits)

lemma relay_step_select:
  assumes "relay_step idle now dir event s = Some s'"
  obtains s0 where "s' = select_result dir s0" and "relay_result s0 = None"
    and "\<forall>d. d \<noteq> dir \<longrightarrow> pump_of d s0 = pump_of d s"
  using assms
  by (cases dir) (auto simp: relay_step_def pump_of_def split: if_splits direction.splits)

lemma point_new_not: "point (pump_new now c idle) \<noteq> Finished (Ok ())"
  by (simp add: pump_new_def read_with_idle_def Let_def)

lemma result_ok_start: "relay_result_ok (relay_new start idle)"
  using relay_end_of_ok(1)
  by (auto simp: relay_new_def select_result_def pump_new_def read_with_idle_def Let_def)

lemma reach_result_ok: "relay_reach idle start now act s \<Longrightarrow> relay_result_ok s"
proof (induction rule: relay_reach.induct)
  case (reach_step now act s now' event dir s')
  have none: "relay_result s = None"
    using reach_step.hyps(5) by (rule relay_step_cases)
  from reach_step.hyps(5) obtain s0 where s0: "s' = select_result dir s0" "relay_result s0 = None"
    and other: "\<forall>d. d \<noteq> dir \<longrightarrow> pump_of d s0 = pump_of d s"
    by (rule relay_step_select)
  have "point (pump_of d s) \<noteq> Finished (Err e)" for d e
    using reach_step.IH none by (cases d) (auto simp: pump_of_def)
  then show ?case
    unfolding s0(1) by (intro select_result_ok s0(2)) (simp add: other)
qed (rule result_ok_start)

text \<open>A direction gives up only when no time is left.\<close>

lemma pump_step_idle:
  assumes "pump_step idle now event c p = Some (c', p')" and "point p' = Finished (Err Idle)"
  shows "remaining now c' idle = 0"
  using assms
  by (auto simp: pump_step_def read_with_idle_def write_all_with_idle_def Let_def
      split: pump_point.splits pump_event.splits sum.splits if_splits)

lemma reach_idle:
  "relay_reach idle start now act s \<Longrightarrow> point (pump_of d s) = Finished (Err Idle) \<Longrightarrow>
     idle < now - act + 1000000"
proof (induction rule: relay_reach.cases)
  case reach_start
  then show ?case
    by (simp add: pump_new_def read_with_idle_def Let_def clock_new_def remaining_def idle_for_def
        elapsed_def saturating_duration_since_def split: if_splits)
next
  case (reach_step now0 act0 s0 now' event dir s')
  from reach_step(8) obtain c p
    where step: "pump_step idle now' event (clock s0) (pump_of dir s0) = Some (c, p)"
      and c: "clock s' = c" and p: "pump_of dir s' = p"
      and other: "\<forall>d. d \<noteq> dir \<longrightarrow> pump_of d s' = pump_of d s0" and none: "relay_result s0 = None"
    by (rule relay_step_cases)
  have "point (pump_of e s0) \<noteq> Finished (Err Idle)" for e
    using reach_result_ok [OF reach_step(4)] none by (cases e) (auto simp: pump_of_def)
  with reach_step(3,9) other p have "point p = Finished (Err Idle)" by (cases "d = dir") auto
  then have "idle \<le> idle_for now (clock s)"
    using pump_step_idle [OF step] reach_step(1,3) c by (simp add: remaining_zero_iff)
  moreover have "relay_reach idle start now act s"
    unfolding reach_step(1-3) by (rule relay_reach.reach_step) (rule reach_step)+
  from reach_clock [OF this] have "idle_for now (clock s) < now - act + 1000000"
    by (intro idle_for_bounds(2)) auto
  ultimately show ?case by simp
qed

text \<open>Every read or write in flight times out at most \<open>idle\<close> after the last progress.\<close>

fun due_by :: "instant \<Rightarrow> pump_point \<Rightarrow> bool" where
  "due_by t (AwaitRead dl) \<longleftrightarrow> dl \<le> t"
| "due_by t (AwaitWrite _ dl) \<longleftrightarrow> dl \<le> t"
| "due_by t _ \<longleftrightarrow> True"

lemma due_by_mono: "due_by t pt \<Longrightarrow> t \<le> u \<Longrightarrow> due_by u pt"
  by (cases pt) auto

lemma due_by_loops:
  assumes "touched_at act c" and "act \<le> now"
  shows "due_by (act + idle) (read_with_idle now c idle)"
    and "due_by (act + idle) (write_all_with_idle now c idle data)"
  using idle_for_bounds(1) [OF assms] assms(2)
  by (auto simp: read_with_idle_def write_all_with_idle_def Let_def remaining_def)

lemma pump_step_due:
  assumes "pump_step idle now event c p = Some (c', p')" and "touched_at act c'" and "act \<le> now"
  shows "due_by (act + idle) (point p')"
  using assms due_by_loops [OF assms(2,3)]
  by (auto simp: pump_step_def Let_def
      split: pump_point.splits pump_event.splits sum.splits if_splits)

lemma reach_due: "relay_reach idle start now act s \<Longrightarrow> due_by (act + idle) (point (pump_of d s))"
proof (induction arbitrary: d rule: relay_reach.induct)
  case reach_start
  then show ?case using due_by_loops(1) [OF touched_at_new, of start start idle]
    by (simp add: pump_new_def)
next
  case (reach_step now act s now' event dir s')
  from reach_step.hyps(5) obtain c p
    where step: "pump_step idle now' event (clock s) (pump_of dir s) = Some (c, p)"
      and c: "clock s' = c" and p: "pump_of dir s' = p"
      and other: "\<forall>d. d \<noteq> dir \<longrightarrow> pump_of d s' = pump_of d s"
    by (rule relay_step_cases)
  let ?act = "if moves event then now' else act"
  have "relay_reach idle start now' ?act s'" by (rule relay_reach.reach_step) (rule reach_step)+
  from reach_clock [OF this] have clk: "touched_at ?act c" "?act \<le> now'" using c by auto
  show ?case
  proof (cases "d = dir")
    case True
    with pump_step_due [OF step clk] p show ?thesis by simp
  next
    case False
    have "act \<le> ?act" using reach_clock [OF reach_step.hyps(1)] reach_step.hyps(2) by auto
    with False reach_step.IH [of d] other show ?thesis by (auto intro: due_by_mono)
  qed
qed

text \<open>Every await, the shutdown of a writer included, is armed with a deadline at most \<open>idle\<close> from now.\<close>

fun waits :: "pump_point \<Rightarrow> bool" where
  "waits (Finished _) \<longleftrightarrow> False"
| "waits _ \<longleftrightarrow> True"

lemma armed_loops:
  "waits (read_with_idle now c idle) \<Longrightarrow> now < deadline (read_with_idle now c idle) \<and>
     deadline (read_with_idle now c idle) \<le> now + idle"
  "waits (write_all_with_idle now c idle data) \<Longrightarrow> now < deadline (write_all_with_idle now c idle data) \<and>
     deadline (write_all_with_idle now c idle data) \<le> now + idle"
  by (auto simp: read_with_idle_def write_all_with_idle_def remaining_def Let_def split: if_splits)

lemma pump_step_armed:
  "pump_step idle now event c p = Some (c', p') \<Longrightarrow> waits (point p') \<Longrightarrow> deadline (point p') \<le> now + idle"
  by (auto simp: pump_step_def Let_def armed_loops
      split: pump_point.splits pump_event.splits sum.splits if_splits)

lemma reach_armed:
  "relay_reach idle start now act s \<Longrightarrow> waits (point (pump_of d s)) \<Longrightarrow> deadline (point (pump_of d s)) \<le> now + idle"
proof (induction arbitrary: d rule: relay_reach.induct)
  case reach_start
  then show ?case by (simp add: pump_new_def armed_loops)
next
  case (reach_step now act s now' event dir s')
  from reach_step.hyps(5) obtain c p
    where step: "pump_step idle now' event (clock s) (pump_of dir s) = Some (c, p)" and p: "pump_of dir s' = p"
      and other: "\<forall>d. d \<noteq> dir \<longrightarrow> pump_of d s' = pump_of d s"
    by (rule relay_step_cases)
  show ?case
  proof (cases "d = dir")
    case True
    with pump_step_armed [OF step] p reach_step.prems show ?thesis by simp
  next
    case False
    with reach_step.IH [of d] reach_step.prems other reach_step.hyps(2) show ?thesis by (simp add: le_trans)
  qed
qed

section \<open>Runs\<close>

text \<open>An executable check that a sequence of events respects the contract, step by step.\<close>

fun run_ok :: "duration \<Rightarrow> instant \<Rightarrow> relay_state \<Rightarrow> relay_event list \<Rightarrow> bool" where
  "run_ok idle now s [] \<longleftrightarrow> True"
| "run_ok idle now s ((now', dir, event) # events) \<longleftrightarrow>
     now \<le> now' \<and> in_clock_range now' (clock s) \<and> event_ok now' event (point (pump_of dir s)) \<and>
     (case relay_step idle now' dir event s of None \<Rightarrow> False | Some s' \<Rightarrow> run_ok idle now' s' events)"

fun last_time :: "instant \<Rightarrow> relay_event list \<Rightarrow> instant" where
  "last_time now [] = now"
| "last_time now ((now', _, _) # events) = last_time now' events"

fun last_move :: "instant \<Rightarrow> relay_event list \<Rightarrow> instant" where
  "last_move act [] = act"
| "last_move act ((now', _, event) # events) = last_move (if moves event then now' else act) events"

lemma run_reach:
  "relay_reach idle start now act s \<Longrightarrow> run_ok idle now s events \<Longrightarrow>
     relay_reach idle start (last_time now events) (last_move act events) (relay_run idle s events)"
proof (induction idle s events arbitrary: now act rule: relay_run.induct)
  case (2 idle s now' dir event events)
  then obtain s' where s': "relay_step idle now' dir event s = Some s'" and ok: "run_ok idle now' s' events"
    by (auto split: option.splits)
  have "relay_reach idle start now' (if moves event then now' else act) s'"
    using 2(3,4) s' by (intro relay_reach.reach_step [where s = s]) auto
  from 2(2) [OF s' this ok] show ?case by (simp add: s')
qed simp

section \<open>Properties\<close>

lemma pump_ok_prefix: "pump_ok p \<Longrightarrow> \<exists>rest. taken p = sent p @ rest"
  by (cases "(point p, sent p, taken p)" rule: stream_ok.cases) (auto simp: pump_ok_def)

lemma reach_completed:
  assumes "relay_reach idle start now act s" and "relay_result s = Some Completed"
  shows "taken (pump_of dir s) = sent (pump_of dir s)"
proof -
  have "point (pump_of dir s) = Finished (Ok ())"
    using reach_result_ok [OF assms(1)] assms(2) by (cases dir) (simp_all add: pump_of_def)
  with reach_pump_ok [OF assms(1), of dir] show ?thesis by (simp add: pump_ok_def)
qed

text \<open>\<^bold>\<open>C5.\<close> The relay neither loses, invents nor reorders bytes: at every moment of every run, in both
  directions, what was written to one peer is a prefix of what was read from the other, and the
  counter is the number of bytes written (capped at \<open>u64::MAX\<close>); when the relay completes, every byte
  read was written.\<close>

theorem relay_delivers:
  assumes "relay_reach idle start now act s"
  shows "(\<exists>rest. taken (pump_of dir s) = sent (pump_of dir s) @ rest) \<and>
    delivered (pump_of dir s) = min (length (sent (pump_of dir s))) u64_max \<and>
    (relay_result s = Some Completed \<longrightarrow> taken (pump_of dir s) = sent (pump_of dir s))"
  using reach_pump_ok [OF assms, of dir] pump_ok_prefix reach_completed [OF assms]
  by (simp add: pump_ok_def)

definition sample_events :: "relay_event list" where
  "sample_events = [(1000000, Upload, ReadDone (Ok [1, 2, 3])), (2000000, Upload, WriteDone (Ok 2)),
     (3000000, Upload, WriteDone (Ok 1)), (4000000, Upload, ReadDone (Ok [])),
     (5000000, Upload, ShutdownDone (Ok ())), (6000000, Download, ReadDone (Ok [])),
     (7000000, Download, ShutdownDone (Ok ()))]"

lemmas relay_eval = relay_new_def relay_step_def pump_step_def pump_new_def pump_of_def
  select_result_def read_with_idle_def write_all_with_idle_def clock_new_def touch_def remaining_def
  idle_for_def elapsed_def saturating_duration_since_def as_millis_def as_millis_of_def
  from_millis_def from_secs_def u64_try_from_or_max_def u64_saturating_add_def u64_max_def
  RELAY_BUFFER_SIZE_def in_clock_range_def

lemma sample_run_ok: "run_ok (from_secs 1) 0 (relay_new 0 (from_secs 1)) sample_events"
  by (simp add: sample_events_def relay_eval)

theorem relay_delivers_witness:
  "let s = relay_run (from_secs 1) (relay_new 0 (from_secs 1)) sample_events
   in relay_result s = Some Completed \<and> sent (upload s) = [1, 2, 3] \<and> delivered (upload s) = 3"
proof -
  let ?s = "relay_run (from_secs 1) (relay_new 0 (from_secs 1)) sample_events"
  have r: "relay_result ?s = Some Completed" and t: "taken (upload ?s) = [1, 2, 3]"
    by (simp_all add: sample_events_def relay_eval)
  from relay_delivers [OF run_reach [OF reach_start sample_run_ok], of Upload] r t
  show ?thesis by (simp add: pump_of_def u64_max_def Let_def)
qed

text \<open>\<^bold>\<open>C26.\<close> A relay is never closed for idleness while data flows: when it ends with \<open>IdleTimeout\<close>, no byte
  has moved in either direction for the idle timeout (to within the clock's millisecond).\<close>

theorem relay_idle_is_idle:
  assumes "relay_reach idle start now act s" and "relay_result s = Some IdleTimeout"
  shows "act + idle < now + 1000000"
proof -
  have "point (pump_of Upload s) = Finished (Err Idle) \<or> point (pump_of Download s) = Finished (Err Idle)"
    using reach_result_ok [OF assms(1)] assms(2) by (simp add: pump_of_def)
  then have "idle < now - act + 1000000" using reach_idle [OF assms(1)] by blast
  then show ?thesis using reach_clock [OF assms(1)] by simp
qed

lemma idle_run_ok: "run_ok 1000 0 (relay_new 0 1000) [(1000, Upload, TimerFired)]"
  by (simp add: relay_eval)

theorem relay_idle_is_idle_witness:
  "relay_result (relay_run 1000 (relay_new 0 1000) [(1000, Upload, TimerFired)]) = Some IdleTimeout \<and>
   (0 :: nat) + 1000 < 1000 + 1000000"
proof -
  have r: "relay_result (relay_run 1000 (relay_new 0 1000) [(1000, Upload, TimerFired)]) = Some IdleTimeout"
    by (simp add: relay_eval)
  show ?thesis
    using relay_idle_is_idle [OF run_reach [OF reach_start idle_run_ok] r] r by simp
qed

lemma relay_step_moves:
  assumes "relay_result s = None" and "pump_step idle now event (clock s) (pump_of dir s) = Some (c, p)"
  shows "\<exists>s'. relay_step idle now dir event s = Some s' \<and> pump_of dir s' = p"
  using assms by (cases dir) (simp_all add: relay_step_def pump_of_def)

text \<open>Where a direction is after its timer fired at \<open>now\<close>, when a byte last moved at \<open>act\<close>.\<close>

definition after_timer :: "duration \<Rightarrow> instant \<Rightarrow> instant \<Rightarrow> pump_point \<Rightarrow> bool" where
  "after_timer idle now act pt \<longleftrightarrow> pt = Finished (Err Idle) \<or>
     now < act + idle \<and> waits pt \<and> now < deadline pt \<and> deadline pt \<le> act + idle"

lemma loops_after_timer:
  assumes "touched_at act c" and "act \<le> now"
  shows "after_timer idle now act (read_with_idle now c idle)"
    and "after_timer idle now act (write_all_with_idle now c idle data)"
  using idle_for_bounds(1) [OF assms] assms(2)
  by (auto simp: after_timer_def read_with_idle_def write_all_with_idle_def remaining_def Let_def)

lemma pump_timer:
  assumes "touched_at act c" and "act \<le> now" and "waits (point p)"
  obtains p' where "pump_step idle now TimerFired c p = Some (c, p')"
    and "case point p of AwaitShutdown _ \<Rightarrow> point p' = Finished (Ok ()) | _ \<Rightarrow> after_timer idle now act (point p')"
  using assms(3) loops_after_timer [OF assms(1,2)]
  by (cases "point p") (auto simp: pump_step_def)

text \<open>\<^bold>\<open>C27.\<close> No await can hang: in every reachable state of a running relay, each direction that waits, for a read, a
  write or the shutdown of its writer, has its timer set to at most the idle timeout from now, and the timer always
  lets it go on. The shutdown is given up, which finishes the direction. For a read or a write the timer is set to at
  most the idle timeout after the last progress; when it fires at that moment or later, without a byte
  having moved, the relay ends with \<open>IdleTimeout\<close>; when it fires earlier, because the other direction has moved
  a byte since it was set, it is set again, to that moment at the latest (or the relay ends, within the
  clock's millisecond).\<close>

theorem relay_idle_ends:
  assumes "relay_reach idle start now act s" and "relay_result s = None"
    and "waits (point (pump_of dir s))" and "now \<le> now'"
  shows "deadline (point (pump_of dir s)) \<le> now + idle \<and>
    (\<exists>s'. relay_step idle now' dir TimerFired s = Some s' \<and>
      (case point (pump_of dir s) of
         AwaitShutdown dl \<Rightarrow> point (pump_of dir s') = Finished (Ok ())
       | _ \<Rightarrow> deadline (point (pump_of dir s)) \<le> act + idle \<and>
           (relay_result s' = Some IdleTimeout \<or>
            now' < act + idle \<and> waits (point (pump_of dir s')) \<and>
            now' < deadline (point (pump_of dir s')) \<and> deadline (point (pump_of dir s')) \<le> act + idle)))"
proof
  show "deadline (point (pump_of dir s)) \<le> now + idle" using reach_armed [OF assms(1,3)] .
  have clk: "touched_at act (clock s)" "act \<le> now'" using reach_clock [OF assms(1)] assms(4) by auto
  from pump_timer [OF clk assms(3)] obtain p where
    p: "pump_step idle now' TimerFired (clock s) (pump_of dir s) = Some (clock s, p)"
    and after: "case point (pump_of dir s) of AwaitShutdown _ \<Rightarrow> point p = Finished (Ok ())
      | _ \<Rightarrow> after_timer idle now' act (point p)" .
  have due: "due_by (act + idle) (point (pump_of dir s))" using reach_due [OF assms(1)] .
  obtain s' where s': "relay_step idle now' dir TimerFired s = Some s'" "pump_of dir s' = p"
    using relay_step_moves [OF assms(2) p] by blast
  have "relay_result s' = Some IdleTimeout" if "point p = Finished (Err Idle)"
    using relay_step_fails [OF assms(2) p that] s'(1) by (cases dir) auto
  then show "\<exists>s'. relay_step idle now' dir TimerFired s = Some s' \<and>
      (case point (pump_of dir s) of
         AwaitShutdown dl \<Rightarrow> point (pump_of dir s') = Finished (Ok ())
       | _ \<Rightarrow> deadline (point (pump_of dir s)) \<le> act + idle \<and>
           (relay_result s' = Some IdleTimeout \<or>
            now' < act + idle \<and> waits (point (pump_of dir s')) \<and>
            now' < deadline (point (pump_of dir s')) \<and> deadline (point (pump_of dir s')) \<le> act + idle))"
    using s' after due assms(3)
    by (intro exI [of _ s']) (auto simp: after_timer_def split: pump_point.splits)
qed

theorem relay_idle_ends_witness:
  "(\<exists>s'. relay_step 1000 5000 Download TimerFired (relay_new 0 1000) = Some s' \<and>
     relay_result s' = Some IdleTimeout) \<and>
   (let s = relay_run 1000 (relay_new 0 1000) [(10, Upload, ReadDone (Ok []))] in
      deadline (point (pump_of Upload s)) = 1010 \<and>
      (\<exists>s'. relay_step 1000 1010 Upload TimerFired s = Some s' \<and> point (pump_of Upload s') = Finished (Ok ())))"
proof -
  have p: "relay_result (relay_new 0 1000) = None" "point (pump_of Download (relay_new 0 1000)) = AwaitRead 1000"
    by (simp_all add: relay_eval)
  let ?s = "relay_run 1000 (relay_new 0 1000) [(10, Upload, ReadDone (Ok []))]"
  have ok: "run_ok 1000 0 (relay_new 0 1000) [(10, Upload, ReadDone (Ok []))]" by (simp add: relay_eval)
  have q: "relay_result ?s = None" "point (pump_of Upload ?s) = AwaitShutdown 1010"
    by (simp_all add: relay_eval)
  from relay_idle_ends [OF reach_start [where idle = 1000 and start = 0], where dir = Download and now' = 5000] p
    relay_idle_ends [OF run_reach [OF reach_start ok] q(1), where dir = Upload and now' = 1010] q(2)
  show ?thesis by simp
qed

text \<open>Half-close: end of input on one side, followed by the shutdown of the other side's writer,
  successful or not, finishes that direction only. The other direction goes on unchanged, and the
  relay completes exactly if it had finished before.\<close>

theorem relay_half_close:
  assumes "relay_result s = None" and "point (pump_of dir s) = AwaitRead dl"
    and "other \<noteq> dir"
  shows "\<exists>s1 s2. relay_step idle now dir (ReadDone (Ok [])) s = Some s1 \<and>
    relay_step idle now' dir (ShutdownDone r) s1 = Some s2 \<and>
    point (pump_of dir s2) = Finished (Ok ()) \<and> pump_of other s2 = pump_of other s \<and>
    relay_result s2 = (if point (pump_of other s) = Finished (Ok ()) then Some Completed else None)"
  using assms
  by (cases dir; cases other)
     (auto simp: relay_step_def pump_step_def pump_of_def select_result_def)

theorem relay_half_close_witness:
  "\<exists>s1 s2. relay_step 1000 1 Upload (ReadDone (Ok [])) (relay_new 0 1000) = Some s1 \<and>
    relay_step 1000 2 Upload (ShutdownDone (Err write_zero)) s1 = Some s2 \<and>
    pump_of Download s2 = pump_of Download (relay_new 0 1000) \<and> relay_result s2 = None"
proof -
  have "relay_result (relay_new 0 1000) = None" "point (pump_of Upload (relay_new 0 1000)) = AwaitRead 1000"
    "point (pump_of Download (relay_new 0 1000)) = AwaitRead 1000"
    by (simp_all add: relay_eval)
  with relay_half_close [of "relay_new 0 1000" Upload 1000 Download 1000 1 2 "Err write_zero"]
  show ?thesis by auto
qed

text \<open>The end of a relay says what happened: \<open>Completed\<close> means both directions reached end of
  input; \<open>ClientError\<close> carries an error from reading from or writing to the client, \<open>TargetError\<close> one
  from the target; and a relay without result has no failed direction and a direction still open.\<close>

theorem relay_result_meaning:
  assumes "relay_reach idle start now act s"
  shows "case relay_result s of
      None \<Rightarrow> (\<forall>dir e. point (pump_of dir s) \<noteq> Finished (Err e)) \<and>
              (\<exists>dir. point (pump_of dir s) \<noteq> Finished (Ok ()))
    | Some Completed \<Rightarrow> (\<forall>dir. point (pump_of dir s) = Finished (Ok ()))
    | Some IdleTimeout \<Rightarrow> (\<exists>dir. point (pump_of dir s) = Finished (Err Idle))
    | Some (ClientError e) \<Rightarrow> point (upload s) = Finished (Err (ReadFailed e)) \<or>
                              point (download s) = Finished (Err (WriteFailed e))
    | Some (TargetError e) \<Rightarrow> point (upload s) = Finished (Err (WriteFailed e)) \<or>
                              point (download s) = Finished (Err (ReadFailed e))"
  using reach_result_ok [OF assms]
  by (auto simp: all_dir ex_dir split: option.splits relay_end.splits)

theorem relay_result_meaning_witness:
  "point (upload (relay_run 1000 (relay_new 0 1000) [(1, Upload, ReadDone (Err write_zero))])) =
     Finished (Err (ReadFailed write_zero))"
proof -
  have ok: "run_ok 1000 0 (relay_new 0 1000) [(1, Upload, ReadDone (Err write_zero))]"
    and r: "relay_result (relay_run 1000 (relay_new 0 1000) [(1, Upload, ReadDone (Err write_zero))])
      = Some (ClientError write_zero)"
    and d: "point (download (relay_run 1000 (relay_new 0 1000) [(1, Upload, ReadDone (Err write_zero))]))
      = AwaitRead 1000"
    by (simp_all add: relay_eval)
  from relay_result_meaning [OF run_reach [OF reach_start ok]] r d show ?thesis by simp
qed

end
