(* ===== verification/Connector.thy ===== *)
theory Connector
  imports Dest_Policy Policy_Text Messages Relay
begin

text \<open>
  \<open>src/server/close_reason.rs\<close> and \<open>src/server/connector.rs\<close>: why a connection ends, and the dialling of
  a target. Resolver and \<open>TcpStream::connect\<close> are parameters. The selection of addresses is
  written over any policy check; its lemmas are proved in the locale \<open>destination_filter\<close> and used
  on the policy of \<open>Dest_Policy\<close>.
\<close>

section \<open>Close reasons\<close>

datatype close_reason =
    HandshakeTimeout
  | HandshakeIo io_error
  | Protocol protocol_error
  | NoAcceptableAuthMethod
  | AuthFailed
  | CommandNotSupported command
  | AddressTypeNotSupported u8
  | InvalidDomain
  | DeniedByPolicy deny_reason
  | ResolveFailed io_error
  | ResolvedToNothing
  | ConnectFailed io_error
  | ConnectTimeout
  | Completed
  | IdleTimeout
  | ClientError io_error
  | TargetError io_error
  | Shutdown

fun close_reason_code :: "close_reason \<Rightarrow> string" where
  "close_reason_code HandshakeTimeout = ''handshake_timeout''"
| "close_reason_code (HandshakeIo _) = ''handshake_io_error''"
| "close_reason_code (Protocol _) = ''protocol_error''"
| "close_reason_code NoAcceptableAuthMethod = ''no_acceptable_auth_method''"
| "close_reason_code AuthFailed = ''auth_failed''"
| "close_reason_code (CommandNotSupported _) = ''command_not_supported''"
| "close_reason_code (AddressTypeNotSupported _) = ''address_type_not_supported''"
| "close_reason_code InvalidDomain = ''invalid_domain''"
| "close_reason_code (DeniedByPolicy _) = ''denied_by_policy''"
| "close_reason_code (ResolveFailed _) = ''resolve_failed''"
| "close_reason_code ResolvedToNothing = ''resolved_to_nothing''"
| "close_reason_code (ConnectFailed _) = ''connect_failed''"
| "close_reason_code ConnectTimeout = ''connect_timeout''"
| "close_reason_code Completed = ''completed''"
| "close_reason_code IdleTimeout = ''idle_timeout''"
| "close_reason_code (ClientError _) = ''client_error''"
| "close_reason_code (TargetError _) = ''target_error''"
| "close_reason_code Shutdown = ''shutdown''"

fun protocol_error_show :: "protocol_error \<Rightarrow> string" where
  "protocol_error_show (Io error) = ''i/o error: '' @ error_text error"
| "protocol_error_show (UnsupportedVersion v) = ''unsupported SOCKS version '' @ hex_byte v"
| "protocol_error_show NoMethods = ''client offered no authentication methods''"
| "protocol_error_show (UnsupportedAuthVersion v) =
     ''unsupported username/password sub-negotiation version '' @ hex_byte v"
| "protocol_error_show (UnsupportedAddressType t) = ''unsupported address type '' @ hex_byte t"
| "protocol_error_show protocol_error.InvalidDomain = ''invalid domain name''"
| "protocol_error_show FieldTooLong = ''field is longer than 255 bytes''"

fun close_reason_detail :: "close_reason \<Rightarrow> string option" where
  "close_reason_detail (HandshakeIo error) = Some (error_text error)"
| "close_reason_detail (ResolveFailed error) = Some (error_text error)"
| "close_reason_detail (ConnectFailed error) = Some (error_text error)"
| "close_reason_detail (ClientError error) = Some (error_text error)"
| "close_reason_detail (TargetError error) = Some (error_text error)"
| "close_reason_detail (Protocol error) = Some (protocol_error_show error)"
| "close_reason_detail (DeniedByPolicy reason) = Some (deny_reason_show reason)"
| "close_reason_detail (CommandNotSupported cmd) = Some (''command '' @ hex_byte (command_as_byte cmd))"
| "close_reason_detail (AddressTypeNotSupported t) = Some (''address type '' @ hex_byte t)"
| "close_reason_detail _ = None"

fun close_of_protocol_error :: "protocol_error \<Rightarrow> close_reason" where
  "close_of_protocol_error (Io error) = HandshakeIo error"
| "close_of_protocol_error (UnsupportedAddressType t) = AddressTypeNotSupported t"
| "close_of_protocol_error protocol_error.InvalidDomain = InvalidDomain"
| "close_of_protocol_error error = Protocol error"

fun close_of_relay_end :: "relay_end \<Rightarrow> close_reason" where
  "close_of_relay_end relay_end.Completed = Completed"
| "close_of_relay_end relay_end.IdleTimeout = IdleTimeout"
| "close_of_relay_end (relay_end.ClientError error) = ClientError error"
| "close_of_relay_end (relay_end.TargetError error) = TargetError error"

section \<open>Connector\<close>

definition MAX_CONNECT_ATTEMPTS :: usize where
  "MAX_CONNECT_ATTEMPTS = 8"

record 'stream connected_target =
  ct_stream :: 'stream
  ct_addr :: socket_addr

datatype connect_error = Denied deny_reason | Resolve io_error | NoAddresses | ConnectError io_error

fun connect_error_reply_code :: "connect_error \<Rightarrow> reply_code" where
  "connect_error_reply_code (Denied _) = NotAllowed"
| "connect_error_reply_code (Resolve _) = HostUnreachable"
| "connect_error_reply_code NoAddresses = HostUnreachable"
| "connect_error_reply_code (ConnectError error) =
     (case error_kind error of
        ConnectionRefusedKind \<Rightarrow> ConnectionRefused
      | NetworkUnreachableKind \<Rightarrow> NetworkUnreachable
      | HostUnreachableKind \<Rightarrow> HostUnreachable
      | TimedOutKind \<Rightarrow> HostUnreachable
      | _ \<Rightarrow> GeneralFailure)"

fun close_of_connect_error :: "connect_error \<Rightarrow> close_reason" where
  "close_of_connect_error (Denied reason) = DeniedByPolicy reason"
| "close_of_connect_error (Resolve error) = ResolveFailed error"
| "close_of_connect_error NoAddresses = ResolvedToNothing"
| "close_of_connect_error (ConnectError error) = ConnectFailed error"

text \<open>The loop over the resolved addresses: each is made canonical and judged; allowed ones are
  collected without repetition, the first refusal is kept.\<close>

fun select_allowed :: "(socket_addr \<Rightarrow> 'd + unit) \<Rightarrow> socket_addr list \<Rightarrow> 'd option \<Rightarrow> socket_addr list \<Rightarrow>
    socket_addr list \<times> 'd option" where
  "select_allowed check allowed first_denial [] = (allowed, first_denial)"
| "select_allowed check allowed first_denial (a # resolved) =
     (let addr = socket_addr_new (canonical_ip (sock_ip a)) (sock_port a) in
      case check addr of
        Inr _ \<Rightarrow> select_allowed check (if addr \<in> set allowed then allowed else allowed @ [addr])
                   first_denial resolved
      | Inl reason \<Rightarrow> select_allowed check allowed
                       (if first_denial = None then Some reason else first_denial) resolved)"

text \<open>The loop over the allowed addresses.\<close>

fun dial_each :: "(socket_addr \<Rightarrow> ('s, io_error + 'stream) async) \<Rightarrow> io_error option \<Rightarrow> socket_addr list \<Rightarrow>
    ('s, connect_error + 'stream connected_target) async" where
  "dial_each connect last_error [] =
     ready (Err (case last_error of None \<Rightarrow> NoAddresses | Some error \<Rightarrow> ConnectError error))"
| "dial_each connect last_error (addr # addrs) =
     await (connect addr) (\<lambda>r. case r of
       Inr stream \<Rightarrow> ready (Ok \<lparr>ct_stream = stream, ct_addr = addr\<rparr>)
     | Inl error \<Rightarrow> dial_each connect (Some error) addrs)"

definition resolve_target :: "(string \<Rightarrow> u16 \<Rightarrow> ('s, io_error + socket_addr list) async) \<Rightarrow> target_addr \<Rightarrow>
    ('s, connect_error + socket_addr list) async" where
  "resolve_target lookup_host target =
     (case target of
        Ip addr \<Rightarrow> ready (Ok [addr])
      | DomainHost host port \<Rightarrow> await (lookup_host host port) (\<lambda>r. ready (map_err Resolve r)))"

definition connect_to_target :: "(string \<Rightarrow> u16 \<Rightarrow> ('s, io_error + socket_addr list) async) \<Rightarrow>
    (socket_addr \<Rightarrow> ('s, io_error + 'stream) async) \<Rightarrow> destination_policy \<Rightarrow> target_addr \<Rightarrow>
    ('s, connect_error + 'stream connected_target) async" where
  "connect_to_target lookup_host connect policy target =
     try_await (resolve_target lookup_host target) id (\<lambda>resolved.
        let (allowed, first_denial) = select_allowed (policy_check policy) [] None resolved in
        if allowed = []
        then ready (Err (case first_denial of None \<Rightarrow> NoAddresses | Some reason \<Rightarrow> Denied reason))
        else dial_each connect None (take MAX_CONNECT_ATTEMPTS allowed))"

section \<open>Selection\<close>

text \<open>The reference: canonical addresses the check lets through, each at its first occurrence; and the
  first refusal.\<close>

fun first_occurrences :: "'a list \<Rightarrow> 'a list \<Rightarrow> 'a list" where
  "first_occurrences seen [] = []"
| "first_occurrences seen (x # xs) =
     (if x \<in> set seen then first_occurrences seen xs else x # first_occurrences (seen @ [x]) xs)"

definition refusal :: "'d + unit \<Rightarrow> 'd option" where
  "refusal r = (case r of Inl d \<Rightarrow> Some d | Inr _ \<Rightarrow> None)"

lemma set_first_occurrences: "set (first_occurrences seen xs) = set xs - set seen"
  by (induction seen xs rule: first_occurrences.induct) auto

lemma distinct_first_occurrences: "distinct (first_occurrences seen xs)"
  by (induction seen xs rule: first_occurrences.induct) (auto simp: set_first_occurrences)

context destination_filter
begin

definition candidates :: "socket_addr list \<Rightarrow> socket_addr list" where
  "candidates resolved = filter allowed (map canonical_sock resolved)"

lemma select_allowed_eq:
  "select_allowed check acc denial resolved =
     (acc @ first_occurrences acc (candidates resolved),
      case denial of
        Some d \<Rightarrow> Some d
      | None \<Rightarrow> (case List.map_filter (\<lambda>a. refusal (check a)) resolved of
                  [] \<Rightarrow> None | d # _ \<Rightarrow> Some d))"
proof (induction resolved arbitrary: acc denial)
  case Nil
  then show ?case by (simp add: candidates_def map_filter_simps split: option.split)
next
  case (Cons a resolved)
  have c: "socket_addr_new (canonical_ip (sock_ip a)) (sock_port a) = canonical_sock a"
    by (simp add: canonical_sock_def)
  show ?case
    using check_canonical [of a] Cons.IH
    by (cases "check a")
       (auto simp: c candidates_def allowed_def refusal_def map_filter_simps check_canonical Let_def
         split: option.split)
qed

lemma select_allowed_sound:
  assumes "select_allowed check [] None resolved = (as, denial)" and "a \<in> set as"
  shows "check a = Ok () \<and> canonical_sock a = a"
  using assms by (auto simp: select_allowed_eq set_first_occurrences candidates_def allowed_def
      check_canonical)

lemma select_allowed_distinct:
  "select_allowed check [] None resolved = (as, denial) \<Longrightarrow> distinct as"
  by (auto simp: select_allowed_eq distinct_first_occurrences)

lemma select_allowed_complete:
  assumes "select_allowed check [] None resolved = (as, denial)" and "a \<in> set resolved" and "check a = Ok ()"
  shows "canonical_sock a \<in> set as"
  using assms by (auto simp: select_allowed_eq set_first_occurrences candidates_def allowed_def
      check_canonical)

lemma select_allowed_empty:
  assumes "select_allowed check [] None resolved = ([], denial)"
  shows "denial = None \<longleftrightarrow> resolved = []"
proof -
  have "\<not> allowed a" if "a \<in> set resolved" for a
    using select_allowed_complete [OF assms that] by (auto simp: allowed_def)
  then have "refusal (check a) \<noteq> None" if "a \<in> set resolved" for a
    using that by (cases a rule: check_cases) (auto simp: allowed_def refusal_def)
  then show ?thesis
    using assms unfolding select_allowed_eq
    by (cases resolved) (force simp: map_filter_simps)+
qed

end

section \<open>Dialling\<close>

text \<open>Recording the addresses dialled, beside any environment.\<close>

definition unlogged :: "('s, 'a) async \<Rightarrow> ('s \<times> 'l, 'a) async" where
  "unlogged m = (\<lambda>(s, log). let (r, s') = m s in (r, (s', log)))"

definition logged_connect :: "(socket_addr \<Rightarrow> ('s, 'a) async) \<Rightarrow> socket_addr \<Rightarrow>
    ('s \<times> socket_addr list, 'a) async" where
  "logged_connect connect addr = (\<lambda>(s, log). let (r, s') = connect addr s in (r, (s', log @ [addr])))"

lemma logged_connect_apply [simp]:
  "logged_connect connect a (s, log) = (fst (connect a s), (snd (connect a s), log @ [a]))"
  by (simp add: logged_connect_def split: prod.split)

lemma unlogged_apply [simp]: "unlogged m (s, log) = (fst (m s), (snd (m s), log))"
  by (simp add: unlogged_def split: prod.split)

lemma dial_each_log:
  "\<exists>n. snd (snd (dial_each (logged_connect connect) last_error addrs (s, log))) = log @ take n addrs"
proof (induction addrs arbitrary: last_error s log)
  case (Cons a addrs)
  have one: "log @ [a] = log @ take 1 (a # addrs)" by simp
  show ?case
  proof (cases "\<exists>error. fst (connect a s) = Ready (Inl error)")
    case True
    then obtain error where "fst (connect a s) = Ready (Inl error)" by blast
    moreover obtain n where
      "snd (snd (dial_each (logged_connect connect) (Some error) addrs (snd (connect a s), log @ [a]))) =
        (log @ [a]) @ take n addrs"
      using Cons.IH by blast
    ultimately have "snd (snd (dial_each (logged_connect connect) last_error (a # addrs) (s, log))) =
        log @ take (Suc n) (a # addrs)"
      by (simp add: await_cases)
    then show ?thesis by blast
  next
    case False
    then have "snd (snd (dial_each (logged_connect connect) last_error (a # addrs) (s, log))) = log @ [a]"
      by (auto simp: await_cases split: polled.split sum.split)
    then show ?thesis using one by metis
  qed
qed simp

lemma resolve_target_log: "snd (snd (resolve_target (\<lambda>h p. unlogged (lookup h p)) target (s, log))) = log"
  by (auto simp: resolve_target_def await_cases split: target_addr.split polled.split)

text \<open>What the target stands for at the moment of the request: the address itself, or what the resolver
  answers.\<close>

definition resolves_to :: "(string \<Rightarrow> u16 \<Rightarrow> ('s, io_error + socket_addr list) async) \<Rightarrow> target_addr \<Rightarrow> 's \<Rightarrow>
    socket_addr list \<Rightarrow> bool" where
  "resolves_to lookup target s resolved \<longleftrightarrow> (case target of
     Ip addr \<Rightarrow> resolved = [addr]
   | DomainHost host port \<Rightarrow> fst (lookup host port s) = Ready (Ok resolved))"

lemma resolve_target_Ok:
  "fst (resolve_target (\<lambda>h p. unlogged (lookup h p)) target (s, log)) = Ready (Ok resolved) \<Longrightarrow>
     resolves_to lookup target s resolved"
  by (auto simp: resolve_target_def resolves_to_def await_cases map_err_def
      split: target_addr.splits polled.splits sum.splits)

lemma connect_dials:
  fixes connect :: "socket_addr \<Rightarrow> ('s, io_error + 'b) async"
  assumes "connect_to_target (\<lambda>h p. unlogged (lookup h p)) (logged_connect connect) policy target (s, [])
    = (r, (s', log))"
  shows "log = [] \<or> (\<exists>resolved as denial n. select_allowed (policy_check policy) [] None resolved = (as, denial)
    \<and> log = take n (take MAX_CONNECT_ATTEMPTS as) \<and> resolves_to lookup target s resolved)"
proof -
  obtain x s1 where x: "resolve_target (\<lambda>h p. unlogged (lookup h p)) target (s, [] :: socket_addr list) = (x, (s1, []))"
    using resolve_target_log [of lookup target s "[] :: socket_addr list"] by (metis prod.collapse)
  note run = assms [unfolded connect_to_target_def]
  show ?thesis
  proof (cases "\<exists>resolved. x = Ready (Inr resolved)")
    case True
    then obtain resolved where "x = Ready (Inr resolved)" by blast
    moreover obtain as denial where sel: "select_allowed (policy_check policy) [] None resolved = (as, denial)"
      by (cases "select_allowed (policy_check policy) [] None resolved")
    ultimately have "as = [] \<and> log = [] \<or>
        log = snd (snd (dial_each (logged_connect connect) None (take MAX_CONNECT_ATTEMPTS as) (s1, [])))"
      using run x by (auto split: if_splits)
    moreover have "resolves_to lookup target s resolved"
      using x \<open>x = Ready (Inr resolved)\<close> resolve_target_Ok [of lookup target s "[] :: socket_addr list" resolved] by simp
    ultimately show ?thesis
      using sel dial_each_log [of connect None "take MAX_CONNECT_ATTEMPTS as" s1 "[]"] by auto
  next
    case False
    then show ?thesis
      using run x by (cases x) (auto simp: try_await_def await_def split: sum.splits)
  qed
qed

text \<open>\<^bold>\<open>C17.\<close> No address reaches \<open>connect\<close> unless the policy allows it, whatever the resolver answers, however
  often a name is resolved again, and whether the attempt succeeds, fails or is cut off by the
  timeout: every address dialled for a request is the canonical form (no IPv4-mapped IPv6) the policy
  judged and let through, no address is dialled twice, and there are at most 8. They are dialled in
  the order in which the target resolved to them, none of the allowed ones being passed over.\<close>

theorem only_allowed_addresses_are_dialled:
  assumes "connect_to_target (\<lambda>h p. unlogged (lookup h p)) (logged_connect connect) policy target (s, [])
    = (r, (s', log))"
  shows "(\<forall>a \<in> set log. policy_check policy a = Ok () \<and> canonical_sock a = a) \<and>
    distinct log \<and> length log \<le> 8 \<and>
    (log \<noteq> [] \<longrightarrow> (\<exists>resolved n. resolves_to lookup target s resolved \<and>
       log = take n (first_occurrences [] (filter (\<lambda>a. policy_check policy a = Ok ()) (map canonical_sock resolved)))))"
proof -
  from connect_dials [OF assms] consider "log = []" |
    resolved as denial n where "select_allowed (policy_check policy) [] None resolved = (as, denial)"
      and "log = take n (take MAX_CONNECT_ATTEMPTS as)" and "resolves_to lookup target s resolved" by blast
  then show ?thesis
  proof cases
    case 2
    have as: "as = first_occurrences [] (filter (\<lambda>a. policy_check policy a = Ok ()) (map canonical_sock resolved))"
      using 2(1) by (simp add: policy_filter.select_allowed_eq policy_filter.candidates_def policy_filter.allowed_def
          cong: filter_cong)
    have log: "log = take (min n MAX_CONNECT_ATTEMPTS) as" using 2(2) by simp
    have "set log \<subseteq> set as" by (simp add: log set_take_subset)
    then have "\<forall>a \<in> set log. policy_check policy a = Ok () \<and> canonical_sock a = a"
      using policy_filter.select_allowed_sound [OF 2(1)] by blast
    moreover have "distinct log" "length log \<le> 8"
      using policy_filter.select_allowed_distinct [OF 2(1)] by (simp_all add: log MAX_CONNECT_ATTEMPTS_def)
    ultimately show ?thesis using 2(3) log [unfolded as] by blast
  qed simp
qed

text \<open>A name with a private and a public address, dialled under the default policy.\<close>

theorem only_allowed_addresses_are_dialled_witness:
  "\<exists>r s' log. connect_to_target
     (\<lambda>h p. unlogged (\<lambda>s. (Ready (Ok [SockV4 0x0A000001 p, SockV4 0x08080808 p]), s)))
     (logged_connect (\<lambda>a s. (Ready (Ok a), s)))
     \<lparr>blocked_ports = [25], allow_internal = False, internal_whitelist = []\<rparr>
     (DomainHost ''a.b'' 443) ((), []) = (r, (s', log)) \<and>
     policy_check \<lparr>blocked_ports = [25], allow_internal = False, internal_whitelist = []\<rparr> (hd log) = Ok ()"
proof -
  let ?p = "\<lparr>blocked_ports = [25], allow_internal = False, internal_whitelist = []\<rparr>"
  let ?run = "connect_to_target
     (\<lambda>h p. unlogged (\<lambda>s. (Ready (Ok [SockV4 0x0A000001 p, SockV4 0x08080808 p]), s)))
     (logged_connect (\<lambda>a s. (Ready (Ok a), s))) ?p (DomainHost ''a.b'' 443) ((), [])"
  have run: "?run = (Ready (Ok \<lparr>ct_stream = SockV4 0x08080808 443, ct_addr = SockV4 0x08080808 443\<rparr>),
      ((), [SockV4 0x08080808 443]))"
    by (simp add: connect_to_target_def resolve_target_def await_cases try_await_def
        policy_check_def classify_ip_def classify_v4_def v4_octet_def v4_is_loopback_def
        v4_is_link_local_def v4_is_private_def is_whitelisted_def MAX_CONNECT_ATTEMPTS_def Let_def)
  show ?thesis
    using only_allowed_addresses_are_dialled [OF run] run by auto
qed

text \<open>The result when resolver and peers answer at once: \<open>answer\<close> gives the outcome of dialling an
  address.\<close>

definition dial_spec :: "(socket_addr \<Rightarrow> io_error + 'stream) \<Rightarrow> destination_policy \<Rightarrow> socket_addr list \<Rightarrow>
    connect_error + 'stream connected_target" where
  "dial_spec answer policy resolved =
     (let tried = take 8 (first_occurrences []
            (filter (\<lambda>a. policy_check policy a = Ok ()) (map canonical_sock resolved)))
      in case find (\<lambda>a. is_ok (answer a)) tried of
           Some a \<Rightarrow> map_err ConnectError (map_ok (\<lambda>s. \<lparr>ct_stream = s, ct_addr = a\<rparr>) (answer a))
         | None \<Rightarrow>
             Err (if tried \<noteq> [] then ConnectError (projl (answer (last tried)))
                  else case List.map_filter (\<lambda>a. refusal (policy_check policy a)) resolved of
                         [] \<Rightarrow> NoAddresses | d # _ \<Rightarrow> Denied d))"

lemma dial_each_pure:
  "dial_each (\<lambda>a s. (Ready (answer a), s)) last_error addrs s =
     (Ready (case find (\<lambda>a. is_ok (answer a)) addrs of
        Some a \<Rightarrow> map_err ConnectError (map_ok (\<lambda>s. \<lparr>ct_stream = s, ct_addr = a\<rparr>) (answer a))
      | None \<Rightarrow> Err (if addrs \<noteq> [] then ConnectError (projl (answer (last addrs)))
                     else case last_error of None \<Rightarrow> NoAddresses | Some e \<Rightarrow> ConnectError e)), s)"
proof (induction addrs arbitrary: last_error)
  case (Cons a addrs)
  then show ?case by (cases "answer a") (auto simp: await_cases split: option.split)
qed simp

lemma connect_pure:
  assumes "resolve_target lookup target s = (Ready (Ok resolved), s)"
  shows "connect_to_target lookup (\<lambda>a s. (Ready (answer a), s)) policy target s =
    (Ready (dial_spec answer policy resolved), s)"
proof -
  let ?as = "first_occurrences [] (filter (\<lambda>a. policy_check policy a = Ok ()) (map canonical_sock resolved))"
  have allowed: "policy_filter.allowed policy = (\<lambda>a. policy_check policy a = Ok ())"
    by (rule ext) (simp add: policy_filter.allowed_def)
  have sel: "select_allowed (policy_check policy) [] None resolved =
      (?as, case List.map_filter (\<lambda>a. refusal (policy_check policy a)) resolved of
         [] \<Rightarrow> None | d # _ \<Rightarrow> Some d)"
    by (simp add: policy_filter.select_allowed_eq policy_filter.candidates_def allowed)
  have "take 8 ?as = [] \<longleftrightarrow> ?as = []" by simp
  then show ?thesis
    using assms
    by (simp add: connect_to_target_def sel dial_each_pure dial_spec_def Let_def MAX_CONNECT_ATTEMPTS_def
        split: list.split)
qed

text \<open>\<^bold>\<open>C20.\<close> The outcome of dialling, when peers answer: the connection goes to the first of the (at most
  8, distinct, canonical) allowed addresses, in the resolver's order, that accepts it. If none does,
  the last connect error is reported; if none is allowed, the first refusal; if the resolver gave
  none, \<open>NoAddresses\<close>; and if it failed, its error.\<close>

theorem connect_to_target_outcome:
  "connect_to_target (\<lambda>h p s. (Ready (answers h p), s)) (\<lambda>a s. (Ready (answer a), s)) policy target s =
     (Ready (case (case target of Ip a \<Rightarrow> Ok [a] | DomainHost h p \<Rightarrow> answers h p) of
        Inl e \<Rightarrow> Err (Resolve e)
      | Inr resolved \<Rightarrow> dial_spec answer policy resolved), s)"
proof (cases target)
  case (Ip a)
  then show ?thesis by (simp add: connect_pure resolve_target_def)
next
  case (DomainHost h p)
  have r: "resolve_target (\<lambda>h p s. (Ready (answers h p), s)) target s =
      (Ready (map_err Resolve (answers h p)), s)"
    by (simp add: DomainHost resolve_target_def await_def)
  show ?thesis
  proof (cases "answers h p")
    case (Inl e)
    with r DomainHost show ?thesis by (simp add: connect_to_target_def)
  next
    case (Inr resolved)
    with r DomainHost show ?thesis by (simp add: connect_pure)
  qed
qed

end
