(* ===== verification/Unicode_Text.thy ===== *)
theory Unicode_Text
  imports Net_Text_Roundtrip
begin

text \<open>
  \<open>String::from_utf8_lossy\<close> and \<open>str::escape_debug\<close>, through which text from the network reaches the log.
  A character is its UTF-8 encoding. The two Unicode properties that \<open>escape_debug\<close> looks up in tables
  of the library (which characters beyond ASCII are printable, which extend a grapheme) are
  parameters.
\<close>

section \<open>Characters of a byte string\<close>

text \<open>The lengths of a character at the head of the input: \<open>Some n\<close> for a well-formed one of \<open>n\<close> bytes; \<open>None\<close> with the
  number of bytes that are replaced together. Bytes beyond the end count as 0, which continues nothing.\<close>

definition second_of_3 :: "u8 \<Rightarrow> u8 \<Rightarrow> bool" where
  "second_of_3 a b \<longleftrightarrow> a = 0xE0 \<and> between 0xA0 b 0xBF \<or> a = 0xED \<and> between 0x80 b 0x9F \<or>
     (between 0xE1 a 0xEC \<or> between 0xEE a 0xEF) \<and> continuation b"

definition second_of_4 :: "u8 \<Rightarrow> u8 \<Rightarrow> bool" where
  "second_of_4 a b \<longleftrightarrow> a = 0xF0 \<and> between 0x90 b 0xBF \<or> a = 0xF4 \<and> between 0x80 b 0x8F \<or>
     between 0xF1 a 0xF3 \<and> continuation b"

definition byte_at :: "u8 list \<Rightarrow> nat \<Rightarrow> u8" where
  "byte_at bs i = (if i < length bs then bs ! i else 0)"

definition utf8_step :: "u8 \<Rightarrow> u8 list \<Rightarrow> bool \<times> nat" where
  "utf8_step a bs =
     (let byte = byte_at bs in
      if a \<le> 0x7F then (True, 1)
      else if between 0xC2 a 0xDF then (if continuation (byte 0) then (True, 2) else (False, 1))
      else if between 0xE0 a 0xEF then
        (if \<not> second_of_3 a (byte 0) then (False, 1)
         else if continuation (byte 1) then (True, 3) else (False, 2))
      else if between 0xF0 a 0xF4 then
        (if \<not> second_of_4 a (byte 0) then (False, 1)
         else if \<not> continuation (byte 1) then (False, 2)
         else if continuation (byte 2) then (True, 4) else (False, 3))
      else (False, 1))"

definition REPLACEMENT :: "u8 list" where
  "REPLACEMENT = [0xEF, 0xBF, 0xBD]"

lemma utf8_step_pos: "0 < snd (utf8_step a bs)"
  by (simp add: utf8_step_def Let_def)

function lossy_chars :: "u8 list \<Rightarrow> u8 list list" where
  "lossy_chars [] = []"
| "lossy_chars (a # bs) =
     (let (valid, n) = utf8_step a bs in
      (if valid then take n (a # bs) else REPLACEMENT) # lossy_chars (drop n (a # bs)))"
  by pat_completeness auto
termination
proof (relation "measure length")
  show "(drop n (a # bs), a # bs) \<in> measure length" if "x = utf8_step a bs" "(valid, n) = x" for a bs x valid n
    using utf8_step_pos [of a bs] that by (auto simp: drop_Cons' dest: sym)
qed simp

definition from_utf8_lossy :: "u8 list \<Rightarrow> string" where
  "from_utf8_lossy bs = string_of_bytes (concat (lossy_chars bs))"

fun code_point :: "u8 list \<Rightarrow> nat" where
  "code_point [a] = unat a"
| "code_point [a, b] = unat (a AND 0x1F) * 64 + unat (b AND 0x3F)"
| "code_point [a, b, c] = unat (a AND 0x0F) * 4096 + unat (b AND 0x3F) * 64 + unat (c AND 0x3F)"
| "code_point [a, b, c, d] =
     unat (a AND 0x07) * 262144 + unat (b AND 0x3F) * 4096 + unat (c AND 0x3F) * 64 + unat (d AND 0x3F)"
| "code_point _ = 0"

section \<open>Escaping\<close>

record unicode_tables =
  table_printable :: "nat \<Rightarrow> bool"
  grapheme_extend :: "nat \<Rightarrow> bool"

definition is_printable :: "unicode_tables \<Rightarrow> nat \<Rightarrow> bool" where
  "is_printable tables x = (if x < 32 then False else if x < 127 then True else table_printable tables x)"

definition backslash :: char where
  "backslash = CHR 0x5C"

text \<open>\<open>char::escape_debug_ext\<close> with its arguments.\<close>

record escape_args =
  grapheme_extended :: bool
  single_quote :: bool
  double_quote :: bool

definition ESCAPE_ALL :: escape_args where
  "ESCAPE_ALL = \<lparr>grapheme_extended = True, single_quote = True, double_quote = True\<rparr>"

definition escape_char :: "unicode_tables \<Rightarrow> escape_args \<Rightarrow> u8 list \<Rightarrow> string" where
  "escape_char tables args c =
     (let x = code_point c in
      if x = 0 then [backslash, CHR ''0'']
      else if x = 9 then [backslash, CHR ''t'']
      else if x = 13 then [backslash, CHR ''r'']
      else if x = 10 then [backslash, CHR ''n'']
      else if x = 0x5C \<or> x = 0x22 \<and> double_quote args \<or> x = 0x27 \<and> single_quote args
        then [backslash, char_of x]
      else if \<not> (grapheme_extended args \<and> grapheme_extend tables x) \<and> is_printable tables x then string_of_bytes c
      else [backslash, CHR ''u'', CHR ''{''] @ to_radix 16 x @ [CHR ''}''])"

text \<open>\<open>str::chars\<close>, and \<open>str::escape_debug\<close>: only the first character is escaped for extending a grapheme.\<close>

definition chars :: "string \<Rightarrow> u8 list list" where
  "chars s = lossy_chars (as_bytes s)"

definition escape_debug :: "unicode_tables \<Rightarrow> string \<Rightarrow> string" where
  "escape_debug tables s =
     (case chars s of
        [] \<Rightarrow> []
      | c # cs \<Rightarrow> escape_char tables ESCAPE_ALL c @
          concat (map (escape_char tables (ESCAPE_ALL\<lparr>grapheme_extended := False\<rparr>)) cs))"

text \<open>\<open>{:?}\<close> of a string.\<close>

definition debug_str :: "unicode_tables \<Rightarrow> string \<Rightarrow> string" where
  "debug_str tables s = [CHR 0x22] @
     concat (map (escape_char tables (ESCAPE_ALL\<lparr>single_quote := False\<rparr>)) (chars s)) @ [CHR 0x22]"

section \<open>Well-formed characters\<close>

fun utf8_char :: "u8 list \<Rightarrow> bool" where
  "utf8_char [] = False"
| "utf8_char (a # bs) = (utf8_step a bs = (True, Suc (length bs)))"

lemma continues_inside:
  "continuation (byte_at bs i) \<Longrightarrow> i < length bs"
  "second_of_3 a (byte_at bs i) \<Longrightarrow> i < length bs"
  "second_of_4 a (byte_at bs i) \<Longrightarrow> i < length bs"
  by (rule ccontr, simp add: byte_at_def second_of_3_def second_of_4_def between_def)+

lemma utf8_step_cong:
  assumes "utf8_step a bs = (True, n)" and "\<And>i. Suc i < n \<Longrightarrow> byte_at bs' i = byte_at bs i"
  shows "utf8_step a bs' = (True, n)"
proof -
  have b: "2 \<le> n \<longrightarrow> byte_at bs' 0 = byte_at bs 0" "3 \<le> n \<longrightarrow> byte_at bs' 1 = byte_at bs 1"
    "4 \<le> n \<longrightarrow> byte_at bs' 2 = byte_at bs 2"
    using assms(2) [of 0] assms(2) [of 1] assms(2) [of 2] by auto
  show ?thesis
    using assms(1) b unfolding utf8_step_def Let_def by (simp split: if_split_asm)
qed

lemma utf8_step_length:
  assumes "utf8_step a bs = (True, n)"
  shows "n \<le> Suc (length bs)"
  using assms unfolding utf8_step_def Let_def
  by (auto split: if_split_asm dest: continues_inside simp: Suc_le_eq)

lemma utf8_step_append:
  assumes "utf8_step a bs = (True, Suc (length bs))"
  shows "utf8_step a (bs @ rest) = (True, Suc (length bs))"
  by (rule utf8_step_cong [OF assms]) (simp add: byte_at_def nth_append)

lemma utf8_step_take:
  assumes "utf8_step a bs = (True, n)"
  shows "utf8_step a (take (n - 1) bs) = (True, n)"
  by (rule utf8_step_cong [OF assms]) (use utf8_step_length [OF assms] in \<open>auto simp: byte_at_def\<close>)

lemma lossy_chars_Cons:
  assumes "utf8_char c"
  shows "lossy_chars (c @ rest) = c # lossy_chars rest"
  using assms by (cases c) (auto simp: utf8_step_append)

lemma lossy_chars_concat: "list_all utf8_char cs \<Longrightarrow> lossy_chars (concat cs) = cs"
  by (induction cs) (auto simp: lossy_chars_Cons)

lemma utf8_char_REPLACEMENT: "utf8_char REPLACEMENT"
  by (simp add: REPLACEMENT_def utf8_step_def Let_def byte_at_def second_of_3_def between_def)

lemma lossy_chars_utf8: "list_all utf8_char (lossy_chars bs)"
proof (induction bs rule: lossy_chars.induct)
  case (2 a bs)
  obtain valid n where step: "utf8_step a bs = (valid, n)" by (cases "utf8_step a bs")
  have "utf8_char (take n (a # bs))" if valid
    using utf8_step_take [of a bs n] utf8_step_length [of a bs n] utf8_step_pos [of a bs] step that
    by (cases n) auto
  with 2 step show ?case by (simp add: utf8_char_REPLACEMENT)
qed simp

text \<open>Well-formed input is left as it is.\<close>

lemma utf8_leads:
  "utf8_pair a b \<longleftrightarrow> between 0xC2 a 0xDF \<and> continuation b"
  "utf8_triple a b c \<longleftrightarrow> second_of_3 a b \<and> continuation c"
  "utf8_quad a b c d \<longleftrightarrow> second_of_4 a b \<and> continuation c \<and> continuation d"
  by (auto simp: utf8_pair_def utf8_triple_def utf8_quad_def second_of_3_def second_of_4_def)

lemma lead_ranges:
  "second_of_3 a b \<Longrightarrow> \<not> a \<le> 0x7F \<and> \<not> between 0xC2 a 0xDF \<and> between 0xE0 a 0xEF"
  "second_of_4 a b \<Longrightarrow> \<not> a \<le> 0x7F \<and> \<not> between 0xC2 a 0xDF \<and> \<not> between 0xE0 a 0xEF \<and> between 0xF0 a 0xF4"
  "between 0xC2 a 0xDF \<Longrightarrow> \<not> a \<le> 0x7F"
  by (auto simp: second_of_3_def second_of_4_def between_def word_le_nat_alt)

lemma utf8_steps:
  "a \<le> 0x7F \<Longrightarrow> utf8_step a bs = (True, 1)"
  "utf8_pair a b \<Longrightarrow> utf8_step a (b # bs) = (True, 2)"
  "utf8_triple a b c \<Longrightarrow> utf8_step a (b # c # bs) = (True, 3)"
  "utf8_quad a b c d \<Longrightarrow> utf8_step a (b # c # d # bs) = (True, 4)"
  by (auto simp: utf8_step_def Let_def utf8_leads byte_at_def dest: lead_ranges)

lemma utf8_tail_cases:
  obtains "bs = []" | b where "bs = [b]" | b c where "bs = [b, c]" | b c d rest where "bs = b # c # d # rest"
  by (metis list.exhaust)

lemma utf8_valid_step:
  assumes "utf8_valid (a # bs)"
  shows "\<exists>n. utf8_step a bs = (True, n) \<and> utf8_valid (drop n (a # bs))"
proof (cases "a \<le> 0x7F")
  case True
  with assms utf8_steps(1) show ?thesis by fastforce
next
  case False
  consider b where "bs = [b]" "utf8_pair a b"
    | b rest where "bs = b # rest" "utf8_pair a b" "utf8_valid rest"
    | b c rest where "bs = b # c # rest" "utf8_triple a b c" "utf8_valid rest"
    | b c d rest where "bs = b # c # d # rest" "utf8_quad a b c d" "utf8_valid rest"
    using assms False by (cases bs rule: utf8_tail_cases)
      (auto simp: utf8_valid.simps(2) [of a] simp del: utf8_valid.simps(2) split: if_split_asm)
  then show ?thesis
    by cases (auto simp: utf8_steps)
qed

lemma lossy_chars_valid: "utf8_valid bs \<Longrightarrow> concat (lossy_chars bs) = bs"
proof (induction bs rule: lossy_chars.induct)
  case (2 a bs)
  from utf8_valid_step [OF 2(2)] obtain n
    where n: "utf8_step a bs = (True, n)" "utf8_valid (drop n (a # bs))" by blast
  then have "concat (lossy_chars (drop n (a # bs))) = drop n (a # bs)"
    using 2(1) by simp
  then have "concat (lossy_chars (a # bs)) = take n (a # bs) @ drop n (a # bs)"
    using n(1) by simp
  then show ?case by (simp only: append_take_drop_id)
qed simp

section \<open>Escaped text is clean\<close>

definition is_control :: "nat \<Rightarrow> bool" where
  "is_control x \<longleftrightarrow> x < 32 \<or> 127 \<le> x \<and> x \<le> 159"

definition clean_text :: "string \<Rightarrow> bool" where
  "clean_text s \<longleftrightarrow> utf8_valid (as_bytes s) \<and>
     list_all (\<lambda>c. \<not> is_control (code_point c)) (chars s)"

lemma length_3_4:
  "length xs = 2 \<Longrightarrow> \<exists>a b. xs = [a, b]"
  "length xs = 3 \<Longrightarrow> \<exists>a b c. xs = [a, b, c]"
  by (auto simp: length_Suc_conv numeral_2_eq_2 numeral_3_eq_3)

lemma utf8_char_cases:
  assumes "utf8_char x"
  obtains a where "x = [a]" "a \<le> 0x7F"
    | a b where "x = [a, b]" "utf8_pair a b"
    | a b c where "x = [a, b, c]" "utf8_triple a b c"
    | a b c d where "x = [a, b, c, d]" "utf8_quad a b c d"
proof (cases x)
  case (Cons a bs)
  with assms have step: "utf8_step a bs = (True, Suc (length bs))" by simp
  then have "length bs \<in> {0, 1, 2, 3}"
    unfolding utf8_step_def Let_def by (simp split: if_split_asm)
  then consider "length bs = 0" | "length bs = 1" | "length bs = 2" | "length bs = 3" by blast
  then show thesis
  proof cases
    case 1
    with step Cons that(1) show thesis
      by (auto simp: utf8_step_def Let_def split: if_split_asm)
  next
    case 2
    with step Cons that(2) show thesis
      by (auto simp: utf8_step_def Let_def utf8_leads byte_at_def length_Suc_conv split: if_split_asm)
  next
    case 3
    with step Cons that(3) show thesis
      by (auto simp: utf8_step_def Let_def utf8_leads byte_at_def dest!: length_3_4 split: if_split_asm)
  next
    case 4
    with step Cons that(4) show thesis
      by (auto simp: utf8_step_def Let_def utf8_leads byte_at_def dest!: length_3_4 split: if_split_asm)
  qed
qed (use assms in simp)

lemma utf8_lead_not:
  "utf8_pair a b \<Longrightarrow> \<not> a \<le> 0x7F"
  "utf8_triple a b c \<Longrightarrow> \<not> a \<le> 0x7F \<and> \<not> utf8_pair a b"
  "utf8_quad a b c d \<Longrightarrow> \<not> a \<le> 0x7F \<and> \<not> utf8_pair a b \<and> \<not> utf8_triple a b c"
  by (auto simp: utf8_leads dest: lead_ranges)

lemma utf8_valid_pair: "utf8_pair a b \<Longrightarrow> utf8_valid (a # b # rest) = utf8_valid rest"
  by (cases rest rule: remdups_adj.cases)
    (simp_all add: utf8_valid.simps(2) [of a] utf8_lead_not del: utf8_valid.simps(2))

lemma utf8_valid_triple: "utf8_triple a b c \<Longrightarrow> utf8_valid (a # b # c # rest) = utf8_valid rest"
  by (cases rest) (simp_all add: utf8_valid.simps(2) [of a] utf8_lead_not del: utf8_valid.simps(2))

lemma utf8_valid_quad: "utf8_quad a b c d \<Longrightarrow> utf8_valid (a # b # c # d # rest) = utf8_valid rest"
  by (simp add: utf8_valid.simps(2) [of a] utf8_lead_not del: utf8_valid.simps(2))

lemma utf8_valid_char:
  assumes "utf8_char x" "utf8_valid rest"
  shows "utf8_valid (x @ rest)"
  using assms(1)
  by (cases rule: utf8_char_cases)
    (simp_all add: assms(2) utf8_valid_pair utf8_valid_triple utf8_valid_quad del: utf8_valid.simps(2), simp add: assms(2))

lemma utf8_valid_concat: "list_all utf8_char cs \<Longrightarrow> utf8_valid (concat cs)"
  by (induction cs) (auto simp: utf8_valid_char)

definition clean_chars :: "u8 list list \<Rightarrow> bool" where
  "clean_chars cs \<longleftrightarrow> list_all (\<lambda>c. utf8_char c \<and> \<not> is_control (code_point c)) cs"

lemma clean_textI:
  assumes "as_bytes s = concat cs" "clean_chars cs"
  shows "clean_text s"
proof -
  have "list_all utf8_char cs" using assms(2) by (auto simp: clean_chars_def list_all_iff)
  then show ?thesis
    using assms utf8_valid_concat [of cs] lossy_chars_concat [of cs]
    by (auto simp: clean_text_def chars_def clean_chars_def list_all_iff)
qed

lemma clean_chars_simps:
  "clean_chars []"
  "clean_chars (cs @ ds) \<longleftrightarrow> clean_chars cs \<and> clean_chars ds"
  by (auto simp: clean_chars_def)

text \<open>Printable ASCII is clean, character by character.\<close>

definition plain :: "char \<Rightarrow> bool" where
  "plain c \<longleftrightarrow> 32 \<le> (of_char c :: nat) \<and> (of_char c :: nat) < 127"

lemma unat_byte_of_char: "unat (byte_of_char c) = of_char c"
  by (simp add: byte_of_char_def unat_of_nat of_char_lt_256)

lemma plain_clean: "list_all plain s \<Longrightarrow> clean_chars (map (\<lambda>c. [byte_of_char c]) s)"
  by (auto simp: clean_chars_def list_all_iff plain_def is_control_def unat_byte_of_char
      word_le_nat_alt utf8_steps(1) [simplified])

lemma plain_digits: "list_all plain (to_radix 16 n)"
proof -
  have "plain c" if "is_digit 16 c" for c
    using that by (auto simp: is_digit_def digit_value_def Let_def plain_def split: if_split_asm)
  then show ?thesis using to_radix_digits [of 16 n] by (auto simp: list_all_iff)
qed

lemma plain_chars:
  "plain backslash" "plain (CHR ''0'')" "plain (CHR ''t'')" "plain (CHR ''r'')" "plain (CHR ''n'')"
  "plain (CHR ''u'')" "plain (CHR ''{'')" "plain (CHR ''}'')"
  "plain (char_of (0x5C :: nat))" "plain (char_of (0x22 :: nat))" "plain (char_of (0x27 :: nat))"
  by (simp_all add: plain_def backslash_def)

lemma escape_char_clean:
  assumes "utf8_char c" and tables: "\<And>x. 127 \<le> x \<Longrightarrow> x \<le> 159 \<Longrightarrow> \<not> table_printable tables x"
  shows "\<exists>cs. as_bytes (escape_char tables e c) = concat cs \<and> clean_chars cs"
proof -
  have "list_all plain (escape_char tables e c) \<or>
    escape_char tables e c = string_of_bytes c \<and> is_printable tables (code_point c)"
    by (auto simp: escape_char_def Let_def plain_digits plain_chars)
  then consider "list_all plain (escape_char tables e c)"
    | "escape_char tables e c = string_of_bytes c" "is_printable tables (code_point c)" by blast
  then show ?thesis
  proof cases
    case 1
    moreover have "as_bytes s = concat (map (\<lambda>c. [byte_of_char c]) s)" for s
      by (induction s) (auto simp: as_bytes_def)
    ultimately show ?thesis using plain_clean by blast
  next
    case 2
    then have "\<not> is_control (code_point c)"
      using tables by (auto simp: is_control_def is_printable_def split: if_split_asm)
    with 2 assms(1) have "as_bytes (escape_char tables e c) = concat [c] \<and> clean_chars [c]"
      by (simp add: clean_chars_def)
    then show ?thesis by blast
  qed
qed

lemma escape_chars_clean:
  assumes "\<And>x. 127 \<le> x \<Longrightarrow> x \<le> 159 \<Longrightarrow> \<not> table_printable tables x"
  shows "list_all utf8_char cs \<Longrightarrow>
    \<exists>ds. as_bytes (concat (map (escape_char tables e) cs)) = concat ds \<and> clean_chars ds"
proof (induction cs)
  case Nil
  show ?case by (rule exI [of _ "[]"]) (simp add: clean_chars_simps as_bytes_def)
next
  case (Cons c cs)
  then obtain d ds where "as_bytes (escape_char tables e c) = concat d" "clean_chars d"
    "as_bytes (concat (map (escape_char tables e) cs)) = concat ds" "clean_chars ds"
    using escape_char_clean [of c tables e] assms by auto
  then show ?case by (intro exI [of _ "d @ ds"]) (simp add: clean_chars_simps as_bytes_def)
qed

lemma escape_debug_clean:
  assumes "\<And>x. 127 \<le> x \<Longrightarrow> x \<le> 159 \<Longrightarrow> \<not> table_printable tables x"
  shows "clean_text (escape_debug tables s)"
proof (cases "chars s")
  case (Cons c cs)
  with lossy_chars_utf8 [of "as_bytes s"] have "utf8_char c" "list_all utf8_char cs"
    by (auto simp: chars_def)
  then obtain d ds where "as_bytes (escape_char tables ESCAPE_ALL c) = concat d" "clean_chars d"
    "as_bytes (concat (map (escape_char tables (ESCAPE_ALL\<lparr>grapheme_extended := False\<rparr>)) cs)) = concat ds" "clean_chars ds"
    using escape_char_clean [of c tables ESCAPE_ALL]
      escape_chars_clean [of tables cs "ESCAPE_ALL\<lparr>grapheme_extended := False\<rparr>"] assms by auto
  then show ?thesis
    by (intro clean_textI [of _ "d @ ds"]) (simp_all add: escape_debug_def Cons clean_chars_simps as_bytes_def)
qed (simp add: escape_debug_def clean_text_def chars_def as_bytes_def)

lemma chars_from_utf8_lossy: "chars (from_utf8_lossy bs) = lossy_chars bs"
  by (simp add: chars_def from_utf8_lossy_def lossy_chars_concat [OF lossy_chars_utf8])

end
