(* ===== verification/Socket_Tuning.thy ===== *)
theory Socket_Tuning
  imports Rust_Str
begin

text \<open>
  \<open>src/limits/socket_tuning.rs\<close> (as built for Linux) and \<open>open_fds.rs\<close>. The calls that set an option of a socket
  are a parameter (\<open>socket_ops\<close>, over a state that contains the socket); the locale \<open>socket_options_law\<close> says
  what a call that succeeds has done. Listing a directory is a parameter as well.
\<close>

section \<open>Socket options\<close>

record tcp_keepalive =
  ka_time :: "duration option"
  ka_interval :: "duration option"
  ka_retries :: "u32 option"

record 'w socket_ops =
  set_nodelay :: "bool \<Rightarrow> 'w \<Rightarrow> (io_error + unit) \<times> 'w"
  set_tcp_keepalive :: "tcp_keepalive \<Rightarrow> 'w \<Rightarrow> (io_error + unit) \<times> 'w"
  set_tcp_user_timeout :: "duration option \<Rightarrow> 'w \<Rightarrow> (io_error + unit) \<times> 'w"

definition KEEPALIVE_IDLE :: duration where "KEEPALIVE_IDLE = from_secs 60"
definition KEEPALIVE_INTERVAL :: duration where "KEEPALIVE_INTERVAL = from_secs 10"
definition KEEPALIVE_RETRIES :: u32 where "KEEPALIVE_RETRIES = 3"
definition TCP_USER_TIMEOUT :: duration where "TCP_USER_TIMEOUT = from_secs 90"

definition tune_tcp_stream :: "'w socket_ops \<Rightarrow> 'w \<Rightarrow> (io_error + unit) \<times> 'w" where
  "tune_tcp_stream ops w = (case set_nodelay ops True w of
     (Inl error, w) \<Rightarrow> (Err error, w)
   | (Inr _, w) \<Rightarrow>
       (let keepalive = \<lparr>ka_time = Some KEEPALIVE_IDLE, ka_interval = None, ka_retries = None\<rparr>;
            keepalive = keepalive\<lparr>ka_interval := Some KEEPALIVE_INTERVAL, ka_retries := Some KEEPALIVE_RETRIES\<rparr>
        in case set_tcp_keepalive ops keepalive w of
          (Inl error, w) \<Rightarrow> (Err error, w)
        | (Inr _, w) \<Rightarrow>
            (case set_tcp_user_timeout ops (Some TCP_USER_TIMEOUT) w of
               (Inl error, w) \<Rightarrow> (Err error, w)
             | (Inr _, w) \<Rightarrow> (Ok (), w))))"

text \<open>What every call keeps, tuning keeps; where every call succeeds, tuning does.\<close>

definition socket_keeps :: "('w \<Rightarrow> 'w \<Rightarrow> bool) \<Rightarrow> 'w socket_ops \<Rightarrow> bool" where
  "socket_keeps R ops \<longleftrightarrow> (\<forall>w on k t. R w (snd (set_nodelay ops on w)) \<and> R w (snd (set_tcp_keepalive ops k w)) \<and>
     R w (snd (set_tcp_user_timeout ops t w)))"

definition socket_accepts :: "'w socket_ops \<Rightarrow> bool" where
  "socket_accepts ops \<longleftrightarrow> (\<forall>w on k t. fst (set_nodelay ops on w) = Ok () \<and> fst (set_tcp_keepalive ops k w) = Ok () \<and>
     fst (set_tcp_user_timeout ops t w) = Ok ())"

lemma tune_keeps:
  assumes "socket_keeps R ops" and trans: "\<And>x y z. R x y \<Longrightarrow> R y z \<Longrightarrow> R x z"
  shows "R w (snd (tune_tcp_stream ops w))"
proof -
  let ?k = "\<lparr>ka_time = Some KEEPALIVE_IDLE, ka_interval = Some KEEPALIVE_INTERVAL, ka_retries = Some KEEPALIVE_RETRIES\<rparr>"
  obtain a w1 where a: "set_nodelay ops True w = (a, w1)" by fastforce
  obtain b w2 where b: "set_tcp_keepalive ops ?k w1 = (b, w2)" by fastforce
  obtain d w3 where d: "set_tcp_user_timeout ops (Some TCP_USER_TIMEOUT) w2 = (d, w3)" by fastforce
  have "R w w1" "R w1 w2" "R w2 w3"
    using assms(1) a b d unfolding socket_keeps_def by (metis snd_conv)+
  then have "R w w1" "R w w2" "R w w3" by (blast intro: trans)+
  with a b d show ?thesis by (cases a; cases b; cases d) (simp_all add: tune_tcp_stream_def)
qed

lemma tune_accepts:
  assumes "socket_accepts ops"
  shows "fst (tune_tcp_stream ops w) = Ok ()"
proof -
  have "\<exists>w'. set_nodelay ops on w = (Ok (), w')" "\<exists>w'. set_tcp_keepalive ops k w = (Ok (), w')"
    "\<exists>w'. set_tcp_user_timeout ops t w = (Ok (), w')" for on k t w
    using assms unfolding socket_accepts_def by (metis prod.collapse)+
  then show ?thesis by (auto simp: tune_tcp_stream_def split: prod.split sum.split) (metis Pair_inject sum.distinct(1))+
qed

record socket_options =
  so_nodelay :: bool
  so_keepalive :: "tcp_keepalive option"
  so_user_timeout :: "duration option"

locale socket_options_law =
  fixes ops :: "'w socket_ops" and options :: "'w \<Rightarrow> socket_options"
  assumes nodelay: "set_nodelay ops on w = (r, w') \<Longrightarrow>
      options w' = (if r = Ok () then (options w)\<lparr>so_nodelay := on\<rparr> else options w)"
    and keepalive: "set_tcp_keepalive ops k w = (r, w') \<Longrightarrow>
      options w' = (if r = Ok () then (options w)\<lparr>so_keepalive := Some k\<rparr> else options w)"
    and user_timeout: "set_tcp_user_timeout ops t w = (r, w') \<Longrightarrow>
      options w' = (if r = Ok () then (options w)\<lparr>so_user_timeout := t\<rparr> else options w)"
begin

lemma tuned:
  assumes "tune_tcp_stream ops w = (Ok (), w')"
  shows "so_nodelay (options w') \<and> so_user_timeout (options w') = Some TCP_USER_TIMEOUT \<and>
    so_keepalive (options w') = Some \<lparr>ka_time = Some KEEPALIVE_IDLE, ka_interval = Some KEEPALIVE_INTERVAL,
      ka_retries = Some KEEPALIVE_RETRIES\<rparr>"
  using assms
  by (auto simp: tune_tcp_stream_def Let_def split: prod.splits sum.splits
      dest!: nodelay keepalive user_timeout)

end

text \<open>A socket of a kernel that may not know the user timeout.\<close>

definition kernel_socket :: "bool \<Rightarrow> socket_options socket_ops" where
  "kernel_socket has_user_timeout = \<lparr>
     set_nodelay = (\<lambda>on w. (Ok (), w\<lparr>so_nodelay := on\<rparr>)),
     set_tcp_keepalive = (\<lambda>k w. (Ok (), w\<lparr>so_keepalive := Some k\<rparr>)),
     set_tcp_user_timeout = (\<lambda>t w. if has_user_timeout then (Ok (), w\<lparr>so_user_timeout := t\<rparr>)
        else (Err (IoError (OtherKind 0) ''Protocol not available''), w))\<rparr>"

interpretation kernel: socket_options_law "kernel_socket has_user_timeout" id
  by unfold_locales (auto simp: kernel_socket_def split: if_splits)

section \<open>Open descriptors\<close>

definition count_open_fds :: "(string \<Rightarrow> io_error + 'entry list) \<Rightarrow> io_error + usize" where
  "count_open_fds read_dir =
     (case (case read_dir ''/proc/self/fd'' of Inr entries \<Rightarrow> Ok entries | Inl _ \<Rightarrow> read_dir ''/dev/fd'') of
        Inl error \<Rightarrow> Err error
      | Inr entries \<Rightarrow> Ok (length entries - 1))"

section \<open>Properties\<close>

text \<open>\<^bold>\<open>C38.\<close> A stream that was tuned without an error sends small writes at once and has dead-peer detection on: probes
  after a minute of silence, and the same ninety seconds until the kernel gives up on an idle peer (the wait and
  three probes) as on unacknowledged data.\<close>

theorem tuned_stream_options:
  assumes "socket_options_law ops options" and "tune_tcp_stream ops w = (Ok (), w')"
  shows "so_nodelay (options w') \<and> (\<exists>idle interval retries.
    so_keepalive (options w') =
      Some \<lparr>ka_time = Some idle, ka_interval = Some interval, ka_retries = Some retries\<rparr> \<and>
    so_user_timeout (options w') = Some (idle + unat retries * interval) \<and> idle = from_secs 60)"
  using socket_options_law.tuned [OF assms]
  by (simp add: KEEPALIVE_IDLE_def KEEPALIVE_INTERVAL_def KEEPALIVE_RETRIES_def TCP_USER_TIMEOUT_def from_secs_def)

theorem tuned_stream_options_witness:
  "let start = \<lparr>so_nodelay = False, so_keepalive = None, so_user_timeout = None\<rparr>;
       (r, tuned) = tune_tcp_stream (kernel_socket True) start
   in r = Ok () \<and> so_nodelay tuned \<and> (\<exists>k. so_keepalive tuned = Some k \<and> ka_time k = Some (from_secs 60))"
proof -
  let ?start = "\<lparr>so_nodelay = False, so_keepalive = None, so_user_timeout = None\<rparr>"
  obtain tuned where t: "tune_tcp_stream (kernel_socket True) ?start = (Ok (), tuned)"
    by (simp add: tune_tcp_stream_def kernel_socket_def)
  from tuned_stream_options [OF kernel.socket_options_law_axioms t] t show ?thesis by auto
qed

end
