(* ===== verification/Handshake.thy ===== *)
theory Handshake
  imports Server_State Connector Unicode_Text Socket_Tuning
begin

text \<open>
  \<open>src/server/handshake.rs\<close> and \<open>connection.rs\<close>: one accepted client from its first byte to its last
  log line. Everything outside the program (sockets, resolver, clock, timers, cancellation, the
  constant-time comparison, the Unicode tables) is the parameter \<open>net\<close>; its operations may also change the shared state,
  as other connections do while this one waits. What the task does outwardly (bytes handed to the
  client's socket, lookups, dials, log lines) is collected in \<open>c_trace\<close>.
\<close>

section \<open>Data\<close>

record connection_context =
  conn_id :: u64
  peer :: socket_addr

record connection_report =
  report_user :: "string option"
  report_target :: "string option"
  report_target_addr :: "socket_addr option"
  report_counters :: relay_counters

definition report_default :: connection_report where
  "report_default = \<lparr>report_user = None, report_target = None, report_target_addr = None,
     report_counters = \<lparr>client_to_target = 0, target_to_client = 0\<rparr>\<rparr>"

text \<open>The fields of the "connection closed" line.\<close>

record closed_line =
  cl_conn_id :: u64
  cl_client :: socket_addr
  cl_report :: connection_report
  cl_duration_ms :: nat
  cl_reason :: string
  cl_detail :: "string option"

datatype action =
    Wrote "u8 list"
  | Resolved string u16
  | Dialled socket_addr
  | LogAuthFailed u64 socket_addr string "nat option"
  | LogBanned u64 socket_addr nat
  | LogUntracked socket_addr
  | LogTuneFailed u64 io_error
  | LogClosed closed_line

record 'w conn =
  c_env :: 'w
  c_shared :: shared_state
  c_report :: connection_report
  c_trace :: "action list"

text \<open>The world of a connection. \<open>net_arm\<close> starts the timer of a \<open>timeout\<close> and \<open>net_disarm\<close> ends it, telling
  whether it fired; an interrupted operation whose timer did not fire was cancelled from outside.
  \<open>net_relay\<close> gives the instant at which the relay starts and what its sockets and timers report until
  it ends or is cancelled. \<open>net_cancelled\<close> tells whether \<open>select!\<close> takes the cancellation before the
  connection is polled at all.\<close>

record 'w net =
  net_read :: "('w \<times> shared_state) async_read"
  net_write_all :: "u8 list \<Rightarrow> ('w \<times> shared_state, io_error + unit) async"
  net_lookup_host :: "string \<Rightarrow> u16 \<Rightarrow> ('w \<times> shared_state, io_error + socket_addr list) async"
  net_connect :: "socket_addr \<Rightarrow> ('w \<times> shared_state, io_error + unit) async"
  net_client_socket :: "'w socket_ops"
  net_target_socket :: "'w socket_ops"
  net_arm :: "duration \<Rightarrow> 'w \<Rightarrow> 'w"
  net_disarm :: "'w \<Rightarrow> bool \<times> 'w"
  net_relay :: "duration \<Rightarrow> 'w \<times> shared_state \<Rightarrow> (instant \<times> relay_event list) \<times> 'w \<times> shared_state"
  net_cancelled :: "'w \<Rightarrow> bool \<times> 'w"
  net_now :: "'w \<Rightarrow> instant"
  net_ct_eq :: "u8 list \<Rightarrow> u8 list \<Rightarrow> bool"
  net_unicode :: unicode_tables

section \<open>Operations of the world, as seen by the task\<close>

definition prim :: "action list \<Rightarrow> ('w \<times> shared_state, 'a) async \<Rightarrow> ('w conn, 'a) async" where
  "prim acts m = (\<lambda>c. case m (c_env c, c_shared c) of
     (r, w, sh) \<Rightarrow> (r, c\<lparr>c_env := w, c_shared := sh, c_trace := c_trace c @ acts\<rparr>))"

definition client_reader :: "'w net \<Rightarrow> 'w conn async_read" where
  "client_reader net = \<lparr>read_u8 = prim [] (read_u8 (net_read net)),
     read_u16 = prim [] (read_u16 (net_read net)),
     read_exact = (\<lambda>n. prim [] (read_exact (net_read net) n))\<rparr>"

definition client_write_all :: "'w net \<Rightarrow> u8 list \<Rightarrow> ('w conn, io_error + unit) async" where
  "client_write_all net bytes = prim [Wrote bytes] (net_write_all net bytes)"

definition modify :: "('s \<Rightarrow> 's) \<Rightarrow> ('s, unit) async" where
  "modify f = (\<lambda>s. (Ready (), f s))"

definition emit :: "action list \<Rightarrow> ('w conn, unit) async" where
  "emit acts = modify (\<lambda>c. c\<lparr>c_trace := c_trace c @ acts\<rparr>)"

text \<open>\<open>tokio::time::timeout\<close>: \<open>Err\<close> when the timer fired first.\<close>

definition timeout :: "'w net \<Rightarrow> duration \<Rightarrow> ('w conn, 'a) async \<Rightarrow> ('w conn, unit + 'a) async" where
  "timeout net limit m = (\<lambda>c.
     let (r, c1) = m (c\<lparr>c_env := net_arm net limit (c_env c)\<rparr>);
         (fired, w) = net_disarm net (c_env c1);
         c2 = c1\<lparr>c_env := w\<rparr>
     in case r of
          Ready a \<Rightarrow> (Ready (Ok a), c2)
        | Interrupted \<Rightarrow> if fired then (Ready (Err ()), c2) else (Interrupted, c2))"

section \<open>Handshake\<close>

definition send_reply :: "'w net \<Rightarrow> reply_code \<Rightarrow> duration \<Rightarrow> ('w conn, unit) async" where
  "send_reply net code limit =
     await (timeout net limit (client_write_all net (reply_encode (reply_new code)))) (\<lambda>_. ready ())"

definition negotiate_method :: "'w net \<Rightarrow> ('w conn, close_reason + unit) async" where
  "negotiate_method net =
     try_await (greeting_read_from (client_reader net)) close_of_protocol_error (\<lambda>greeting.
     if \<not> offers greeting METHOD_USER_PASS
     then await (client_write_all net (selection_encode NO_ACCEPTABLE)) (\<lambda>_.
          ready (Err NoAcceptableAuthMethod))
     else let selection = \<lparr>sel_method = METHOD_USER_PASS\<rparr> in
          await (client_write_all net (selection_encode selection)) (\<lambda>r.
          ready (map_err HandshakeIo r)))"

text \<open>\<open>auth_failures.increment()\<close> and \<open>ban_list.record_failure(peer)\<close>.\<close>

definition note_auth_failure :: "'w net \<Rightarrow> connection_context \<Rightarrow> ('w conn, failure_verdict) async" where
  "note_auth_failure net context = (\<lambda>c.
     let sh = c_shared c;
         (verdict, bans) = record_failure (ban_list_of sh) (sock_ip (peer context)) (net_now net (c_env c));
         counted = (stats sh)\<lparr>auth_failures := counter_increment (auth_failures (stats sh))\<rparr>
     in (Ready verdict, c\<lparr>c_shared := \<lparr>ban_list_of = bans, stats = counted\<rparr>\<rparr>))"

text \<open>The lines of a failed authentication: the name the client sent, with invalid UTF-8 replaced and control
  characters escaped, and the count as long as it is below the limit.\<close>

definition auth_failure_lines :: "unicode_tables \<Rightarrow> server_config \<Rightarrow> connection_context \<Rightarrow> user_pass_request \<Rightarrow>
    failure_verdict \<Rightarrow> action list" where
  "auth_failure_lines tables config context credentials verdict =
     LogAuthFailed (conn_id context) (peer context)
       (escape_debug tables (from_utf8_lossy (upr_username credentials)))
       (case verdict of Counted n \<Rightarrow> Some n | _ \<Rightarrow> None) #
     (case verdict of
        Banned \<Rightarrow> [LogBanned (conn_id context) (peer context) (as_secs (ban_duration (ban config)))]
      | Untracked \<Rightarrow> [LogUntracked (peer context)]
      | _ \<Rightarrow> [])"

definition authenticate :: "'w net \<Rightarrow> server_config \<Rightarrow> connection_context \<Rightarrow>
    ('w conn, close_reason + unit) async" where
  "authenticate net config context =
     try_await (user_pass_read_from (client_reader net)) close_of_protocol_error (\<lambda>credentials.
     case verify (net_ct_eq net) (users config) (upr_username credentials) (upr_password credentials) of
       Some user \<Rightarrow>
         await (modify (\<lambda>c. c\<lparr>c_report := (c_report c)\<lparr>report_user := Some user\<rparr>\<rparr>)) (\<lambda>_.
         await (client_write_all net (response_encode SUCCESS)) (\<lambda>r.
         ready (map_err HandshakeIo r)))
     | None \<Rightarrow>
         await (note_auth_failure net context) (\<lambda>verdict.
         await (client_write_all net (response_encode FAILURE)) (\<lambda>_.
         await (emit (auth_failure_lines (net_unicode net) config context credentials verdict)) (\<lambda>_.
         ready (Err AuthFailed)))))"

definition read_connect_request :: "'w net \<Rightarrow> duration \<Rightarrow> ('w conn, close_reason + target_addr) async" where
  "read_connect_request net reply_timeout =
     await (request_read_from (client_reader net)) (\<lambda>r.
     case r of
       Inl (UnsupportedAddressType t) \<Rightarrow>
         await (send_reply net reply_code.AddressTypeNotSupported reply_timeout) (\<lambda>_.
         ready (Err (AddressTypeNotSupported t)))
     | Inl protocol_error.InvalidDomain \<Rightarrow>
         await (send_reply net GeneralFailure reply_timeout) (\<lambda>_. ready (Err InvalidDomain))
     | Inl error \<Rightarrow> ready (Err (close_of_protocol_error error))
     | Inr req \<Rightarrow>
         (case req_command req of
            Connect \<Rightarrow> ready (Ok (req_target req))
          | command \<Rightarrow>
              await (send_reply net reply_code.CommandNotSupported reply_timeout) (\<lambda>_.
              ready (Err (CommandNotSupported command)))))"

definition handshake :: "'w net \<Rightarrow> server_config \<Rightarrow> connection_context \<Rightarrow>
    ('w conn, close_reason + target_addr) async" where
  "handshake net config context =
     try_await (negotiate_method net) id (\<lambda>_.
     try_await (authenticate net config context) id (\<lambda>_.
     read_connect_request net (t_handshake (config_timeouts config))))"

section \<open>Connection\<close>

fun target_show :: "target_addr \<Rightarrow> string" where
  "target_show (Ip addr) = show_socket_addr addr"
| "target_show (DomainHost host port) =
     (if CHR '':'' \<in> set host then ''['' @ host @ '']:'' @ decimal (unat port)
      else host @ '':'' @ decimal (unat port))"

definition tune_client :: "'w net \<Rightarrow> connection_context \<Rightarrow> ('w conn, unit) async" where
  "tune_client net context = (\<lambda>c. case tune_tcp_stream (net_client_socket net) (c_env c) of
     (r, w) \<Rightarrow> emit (case r of Inl error \<Rightarrow> [LogTuneFailed (conn_id context) error] | Inr _ \<Rightarrow> [])
                (c\<lparr>c_env := w\<rparr>))"

definition tune_target :: "'w net \<Rightarrow> connection_context \<Rightarrow> ('w conn, unit) async" where
  "tune_target net context = (\<lambda>c. case tune_tcp_stream (net_target_socket net) (c_env c) of
     (r, w) \<Rightarrow> emit (case r of Inl error \<Rightarrow> [LogTuneFailed (conn_id context) error] | Inr _ \<Rightarrow> [])
                (c\<lparr>c_env := w\<rparr>))"

text \<open>The counters live in the report, so they survive a cancelled relay.\<close>

definition relay_tcp :: "'w net \<Rightarrow> duration \<Rightarrow> ('w conn, relay_end) async" where
  "relay_tcp net idle_timeout = (\<lambda>c.
     let ((start, events), w, sh) = net_relay net idle_timeout (c_env c, c_shared c);
         s = relay_run idle_timeout (relay_new start idle_timeout) events;
         c' = c\<lparr>c_env := w, c_shared := sh, c_report := (c_report c)\<lparr>report_counters := counters_of s\<rparr>\<rparr>
     in case relay_result s of Some result \<Rightarrow> (Ready result, c') | None \<Rightarrow> (Interrupted, c'))"

definition dial_target :: "'w net \<Rightarrow> destination_policy \<Rightarrow> target_addr \<Rightarrow>
    ('w conn, connect_error + unit connected_target) async" where
  "dial_target net policy target =
     connect_to_target (\<lambda>host port. prim [Resolved host port] (net_lookup_host net host port))
       (\<lambda>addr. prim [Dialled addr] (net_connect net addr)) policy target"

definition serve_target :: "'w net \<Rightarrow> server_config \<Rightarrow> connection_context \<Rightarrow> target_addr \<Rightarrow>
    ('w conn, close_reason) async" where
  "serve_target net config context target =
     (let limits = config_timeouts config in
     await (timeout net (t_connect limits) (dial_target net (config_policy config) target)) (\<lambda>r.
     case r of
       Inl _ \<Rightarrow>
         await (send_reply net HostUnreachable (t_handshake limits)) (\<lambda>_. ready ConnectTimeout)
     | Inr (Inl error) \<Rightarrow>
         await (send_reply net (connect_error_reply_code error) (t_handshake limits)) (\<lambda>_.
         ready (close_of_connect_error error))
     | Inr (Inr connected) \<Rightarrow>
         await (modify (\<lambda>c. c\<lparr>c_report := (c_report c)\<lparr>report_target_addr := Some (ct_addr connected)\<rparr>\<rparr>)) (\<lambda>_.
         await (tune_target net context) (\<lambda>_.
         let success = reply_encode (reply_new Succeeded) in
         await (timeout net (t_handshake limits) (client_write_all net success)) (\<lambda>r.
         case r of
           Inl _ \<Rightarrow> ready HandshakeTimeout
         | Inr (Inl error) \<Rightarrow> ready (HandshakeIo error)
         | Inr (Inr _) \<Rightarrow>
             await (relay_tcp net (t_idle limits)) (\<lambda>result. ready (close_of_relay_end result)))))))"

definition run_connection :: "'w net \<Rightarrow> server_config \<Rightarrow> connection_context \<Rightarrow> ('w conn, close_reason) async" where
  "run_connection net config context =
     await (tune_client net context) (\<lambda>_.
     await (timeout net (t_handshake (config_timeouts config)) (handshake net config context)) (\<lambda>r.
     case r of
       Inl _ \<Rightarrow> ready HandshakeTimeout
     | Inr (Inl reason) \<Rightarrow> ready reason
     | Inr (Inr target) \<Rightarrow>
         await (modify (\<lambda>c. c\<lparr>c_report := (c_report c)\<lparr>report_target := Some (target_show target)\<rparr>\<rparr>)) (\<lambda>_.
         serve_target net config context target)))"

definition closed_line_of :: "connection_context \<Rightarrow> connection_report \<Rightarrow> close_reason \<Rightarrow> duration \<Rightarrow> closed_line" where
  "closed_line_of context rep reason dur =
     \<lparr>cl_conn_id = conn_id context, cl_client = peer context, cl_report = rep,
      cl_duration_ms = u64_try_from_or_max (as_millis_of dur),
      cl_reason = close_reason_code reason, cl_detail = close_reason_detail reason\<rparr>"

text \<open>The accounting after a connection: bytes, refusals, and the log line.\<close>

definition close_connection :: "'w net \<Rightarrow> connection_context \<Rightarrow> instant \<Rightarrow> close_reason \<Rightarrow> 'w conn \<Rightarrow> 'w conn" where
  "close_connection net context started reason c =
     (let rep = c_report c;
          st = stats (c_shared c);
          st = st\<lparr>bytes_in := counter_add (of_nat (client_to_target (report_counters rep))) (bytes_in st)\<rparr>;
          st = st\<lparr>bytes_out := counter_add (of_nat (target_to_client (report_counters rep))) (bytes_out st)\<rparr>;
          st = (case reason of
                  DeniedByPolicy _ \<Rightarrow> st\<lparr>denied_by_policy := counter_increment (denied_by_policy st)\<rparr>
                | _ \<Rightarrow> st);
          dur = saturating_duration_since (net_now net (c_env c)) started
      in c\<lparr>c_shared := (c_shared c)\<lparr>stats := st\<rparr>,
           c_trace := c_trace c @ [LogClosed (closed_line_of context rep reason dur)]\<rparr>)"

definition serve_connection :: "'w net \<Rightarrow> server_config \<Rightarrow> connection_context \<Rightarrow> 'w conn \<Rightarrow>
    close_reason \<times> 'w conn" where
  "serve_connection net config context c0 =
     (let started = net_now net (c_env c0);
          c = c0\<lparr>c_report := report_default\<rparr>;
          (cancelled, w) = net_cancelled net (c_env c);
          c = c\<lparr>c_env := w\<rparr>;
          (r, c) = (if cancelled then (Interrupted, c) else run_connection net config context c);
          reason = (case r of Ready reason \<Rightarrow> reason | Interrupted \<Rightarrow> Shutdown)
      in (reason, close_connection net context started reason c))"

end
