(* ===== verification/Socks_Server.thy ===== *)
theory Socks_Server
  imports Handshake
begin

text \<open>
  \<open>src/server/socks_server.rs\<close> and \<open>background.rs\<close>: the accept loop, admission, the background tasks
  and the shutdown. The server is a state machine: each step is one event of its environment (a client
  connects, a timer fires, a connection task changes the shared state or ends), and a step that the code
  is not waiting for in its current phase is not enabled. Connection tasks run between these steps;
  what they may do to the state they share is \<open>task_change\<close>.
\<close>

section \<open>Data\<close>

definition ACCEPT_ERROR_BACKOFF :: duration where "ACCEPT_ERROR_BACKOFF = from_millis 100"
definition FORCE_CLOSE_WAIT :: duration where "FORCE_CLOSE_WAIT = from_secs 1"
definition LIMIT_WARNING_PERIOD :: duration where "LIMIT_WARNING_PERIOD = from_secs 10"
definition BAN_PURGE_INTERVAL :: duration where "BAN_PURGE_INTERVAL = from_secs 60"

text \<open>The fields of the "stats" line.\<close>

record stats_line =
  sl_active_connections :: usize
  sl_free_permits :: usize
  sl_open_fds :: "usize option"
  sl_counters :: server_stats
  sl_bans :: ban_list_stats

datatype server_line =
    DroppedNotWhitelisted socket_addr
  | DroppedBanned socket_addr
  | LimitReached u32
  | AcceptFailed io_error
  | ShuttingDown usize nat
  | AllFinished
  | GraceOver usize
  | TasksLeft usize
  | Stats stats_line
  | BanListPurged usize

text \<open>\<open>interval_at\<close> with \<open>MissedTickBehavior::Delay\<close>: the next tick is a period after the last one.\<close>

record tick_timer =
  next_tick :: instant
  tick_period :: duration

definition ticker :: "instant \<Rightarrow> duration \<Rightarrow> tick_timer" where
  "ticker now period = \<lparr>next_tick = now + period, tick_period = period\<rparr>"

definition tick :: "instant \<Rightarrow> tick_timer \<Rightarrow> tick_timer option" where
  "tick now t = (if next_tick t \<le> now then Some (t\<lparr>next_tick := now + tick_period t\<rparr>) else None)"

text \<open>Where \<open>run\<close> is: in the accept loop, in its pause after a failed \<open>accept\<close>, in one of the two waits of
  \<open>drain\<close>, or at its end. The instants are the deadlines of the pending timers.\<close>

datatype server_phase = Accepting | BackingOff instant | Draining instant | ForceClosing instant | Stopped

record 'sem socks_server =
  sv_state :: "'sem server_state"
  sv_phase :: server_phase
  limit_warning :: log_throttle
  stats_ticker :: tick_timer
  purge_ticker :: tick_timer
  sv_tasks :: "connection_context list"
  sv_log :: "server_line list"

text \<open>What \<open>count_open_fds\<close> finds when it runs on a blocking thread; \<open>None\<close> if that thread fails.\<close>

type_synonym fd_view = "(string \<Rightarrow> io_error + string list) option"

datatype server_event =
    ClientConnects socket_addr
  | AcceptError io_error
  | BackoffOver
  | ShutdownSignal
  | TaskWorks shared_state
  | TaskEnds connection_context shared_state
  | PurgeTick
  | StatsTick fd_view
  | PermitsBack fd_view
  | WaitElapsed fd_view

section \<open>Operations\<close>

text \<open>The two background tasks, as the timers they wait on.\<close>

definition spawn_background_tasks :: "instant \<Rightarrow> server_config \<Rightarrow> tick_timer \<times> tick_timer" where
  "spawn_background_tasks now config =
     (let reporter = ticker now (stats_interval config); purger = ticker now BAN_PURGE_INTERVAL
      in (reporter, purger))"

definition log_line :: "server_line \<Rightarrow> 'sem socks_server \<Rightarrow> 'sem socks_server" where
  "log_line line s = s\<lparr>sv_log := sv_log s @ [line]\<rparr>"

definition set_phase :: "server_phase \<Rightarrow> 'sem socks_server \<Rightarrow> 'sem socks_server" where
  "set_phase p s = s\<lparr>sv_phase := p\<rparr>"

definition with_stats :: "(server_stats \<Rightarrow> server_stats) \<Rightarrow> 'sem socks_server \<Rightarrow> 'sem socks_server" where
  "with_stats f s = (let st = sv_state s in
     s\<lparr>sv_state := st\<lparr>shared := (shared st)\<lparr>stats := f (stats (shared st))\<rparr>\<rparr>\<rparr>)"

definition server_start :: "'sem semaphore_ops \<Rightarrow> instant \<Rightarrow> server_config \<Rightarrow> 'sem socks_server" where
  "server_start ops now config =
     (let (reporter, purger) = spawn_background_tasks now config in
      \<lparr>sv_state = server_state_new ops config, sv_phase = Accepting,
       limit_warning = log_throttle_new now LIMIT_WARNING_PERIOD,
       stats_ticker = reporter, purge_ticker = purger, sv_tasks = [], sv_log = []\<rparr>)"

lemmas server_start_unfold = server_start_def spawn_background_tasks_def Let_def

text \<open>Admission of a client that connected at \<open>now\<close>; the new task, if any, joins \<open>sv_tasks\<close>.\<close>

definition admit :: "'sem semaphore_ops \<Rightarrow> instant \<Rightarrow> socket_addr \<Rightarrow> 'sem socks_server \<Rightarrow> 'sem socks_server" where
  "admit ops now client s =
     (let st = sv_state s;
          peer_addr = socket_addr_new (canonical_ip (sock_ip client)) (sock_port client)
      in if \<not> acl_is_allowed (config_client_acl (state_config st)) (sock_ip peer_addr) then
           log_line (DroppedNotWhitelisted peer_addr)
             (with_stats (\<lambda>c. c\<lparr>rejected_not_whitelisted := counter_increment (rejected_not_whitelisted c)\<rparr>) s)
         else if is_banned (ban_list_of (shared st)) (sock_ip peer_addr) now then
           log_line (DroppedBanned peer_addr)
             (with_stats (\<lambda>c. c\<lparr>rejected_banned := counter_increment (rejected_banned c)\<rparr>) s)
         else case try_acquire_owned ops (connection_permits st) of
           None \<Rightarrow>
             (let s = with_stats (\<lambda>c. c\<lparr>rejected_over_limit := counter_increment (rejected_over_limit c)\<rparr>) s;
                  (ok, throttle) = allow now (limit_warning s);
                  s = s\<lparr>limit_warning := throttle\<rparr>
              in if ok then log_line (LimitReached (max_connections (state_config st))) s else s)
         | Some permits \<Rightarrow>
             (let s = s\<lparr>sv_state := st\<lparr>connection_permits := permits\<rparr>\<rparr>;
                  s = with_stats (\<lambda>c. c\<lparr>accepted := counter_increment (accepted c)\<rparr>) s;
                  (i, st) = next_connection_id (sv_state s)
              in s\<lparr>sv_state := st, sv_tasks := sv_tasks s @ [\<lparr>conn_id = i, peer = peer_addr\<rparr>]\<rparr>))"

text \<open>While \<open>drain\<close> waits, the semaphore has handed every free permit to its \<open>acquire_many\<close>: the others see none. The
  wait gives them back when it is over. The state itself counts them as free.\<close>

definition visible_state :: "'sem semaphore_ops \<Rightarrow> 'sem socks_server \<Rightarrow> 'sem server_state" where
  "visible_state ops s =
     (case sv_phase s of
        Draining _ \<Rightarrow> (sv_state s)\<lparr>connection_permits := sem_new ops 0\<rparr>
      | ForceClosing _ \<Rightarrow> (sv_state s)\<lparr>connection_permits := sem_new ops 0\<rparr>
      | _ \<Rightarrow> sv_state s)"

definition log_stats :: "'sem semaphore_ops \<Rightarrow> instant \<Rightarrow> fd_view \<Rightarrow> 'sem socks_server \<Rightarrow> 'sem socks_server" where
  "log_stats ops now view s =
     (let st = visible_state ops s;
          open_fds = (case view of
              Some read_dir \<Rightarrow> (case count_open_fds read_dir of Inr count \<Rightarrow> Some count | Inl _ \<Rightarrow> None)
            | None \<Rightarrow> None)
      in
      log_line (Stats \<lparr>sl_active_connections = active_connections ops st,
        sl_free_permits = available_permits ops (connection_permits st), sl_open_fds = open_fds,
        sl_counters = stats (shared st), sl_bans = ban_stats (ban_list_of (shared st)) now\<rparr>) s)"

definition report_stats :: "'sem semaphore_ops \<Rightarrow> instant \<Rightarrow> fd_view \<Rightarrow> 'sem socks_server \<Rightarrow>
    'sem socks_server option" where
  "report_stats ops now view s =
     (case tick now (stats_ticker s) of
        None \<Rightarrow> None
      | Some t \<Rightarrow> Some (log_stats ops now view (s\<lparr>stats_ticker := t\<rparr>)))"

definition purge_bans :: "instant \<Rightarrow> 'sem socks_server \<Rightarrow> 'sem socks_server option" where
  "purge_bans now s =
     (case tick now (purge_ticker s) of
        None \<Rightarrow> None
      | Some t \<Rightarrow>
          (let st = sv_state s;
               (purged, bans) = purge (ban_list_of (shared st)) now;
               s = s\<lparr>purge_ticker := t, sv_state := st\<lparr>shared := (shared st)\<lparr>ban_list_of := bans\<rparr>\<rparr>\<rparr>
           in Some (if purged > 0 then log_line (BanListPurged purged) s else s)))"

text \<open>\<open>wait_for_connections\<close> completes when \<open>acquire_many(max_connections)\<close> can: every permit is back, those that the
  waiting \<open>acquire_many\<close> has already collected included.\<close>

definition all_permits_back :: "'sem semaphore_ops \<Rightarrow> 'sem server_state \<Rightarrow> bool" where
  "all_permits_back ops st \<longleftrightarrow> unat (max_connections (state_config st)) \<le> available_permits ops (connection_permits st)"

text \<open>The accept loop: one turn of it for each result of \<open>accept\<close>, the pause after an error, and the
  shutdown, which both \<open>select!\<close>s poll first.\<close>

definition accept_loop :: "'sem semaphore_ops \<Rightarrow> instant \<Rightarrow> server_event \<Rightarrow> 'sem socks_server \<Rightarrow>
    'sem socks_server option" where
  "accept_loop ops now event s =
     (let st = sv_state s;
          begin_drain = (let grace = t_shutdown_grace (config_timeouts (state_config st)) in
            log_line (ShuttingDown (active_connections ops st) (as_secs grace)) (set_phase (Draining (now + grace)) s))
      in case (sv_phase s, event) of
        (Accepting, ShutdownSignal) \<Rightarrow> Some begin_drain
      | (Accepting, ClientConnects client) \<Rightarrow> Some (admit ops now client s)
      | (Accepting, AcceptError error) \<Rightarrow>
          Some (log_line (AcceptFailed error) (set_phase (BackingOff (now + ACCEPT_ERROR_BACKOFF)) s))
      | (BackingOff t, ShutdownSignal) \<Rightarrow> Some begin_drain
      | (BackingOff t, BackoffOver) \<Rightarrow> if t \<le> now then Some (set_phase Accepting s) else None
      | _ \<Rightarrow> None)"

text \<open>\<open>drain\<close> after its first line: the two waits, each of which ends when every permit is back or, failing
  that, at its deadline. At its end \<open>run\<close> stops the background tasks and logs the statistics once more.\<close>

definition finish_run :: "'sem semaphore_ops \<Rightarrow> instant \<Rightarrow> fd_view \<Rightarrow> 'sem socks_server \<Rightarrow> 'sem socks_server" where
  "finish_run ops now view s = log_stats ops now view (set_phase Stopped s)"

definition drain :: "'sem semaphore_ops \<Rightarrow> instant \<Rightarrow> server_event \<Rightarrow> 'sem socks_server \<Rightarrow>
    'sem socks_server option" where
  "drain ops now event s =
     (let st = sv_state s; back = all_permits_back ops st in
      case (sv_phase s, event) of
        (Draining t, PermitsBack fds) \<Rightarrow>
          if back then Some (finish_run ops now fds (log_line AllFinished s)) else None
      | (Draining t, WaitElapsed fds) \<Rightarrow>
          if t \<le> now \<and> \<not> back
          then Some (set_phase (ForceClosing (now + FORCE_CLOSE_WAIT))
                 ((log_line (GraceOver (active_connections ops st)) s)\<lparr>sv_state := st\<lparr>force_close := True\<rparr>\<rparr>))
          else None
      | (ForceClosing t, PermitsBack fds) \<Rightarrow> if back then Some (finish_run ops now fds s) else None
      | (ForceClosing t, WaitElapsed fds) \<Rightarrow>
          if t \<le> now \<and> \<not> back
          then Some (finish_run ops now fds (log_line (TasksLeft (active_connections ops st)) s))
          else None
      | _ \<Rightarrow> None)"

text \<open>A connection task that ends has done its accounting and drops its permit.\<close>

definition end_task :: "'sem semaphore_ops \<Rightarrow> connection_context \<Rightarrow> shared_state \<Rightarrow> 'sem socks_server \<Rightarrow>
    'sem socks_server option" where
  "end_task ops context sh s =
     (if context \<in> set (sv_tasks s)
      then Some (let st = sv_state s in
        s\<lparr>sv_tasks := remove1 context (sv_tasks s),
          sv_state := st\<lparr>shared := sh, connection_permits := release_permit ops (connection_permits st)\<rparr>\<rparr>)
      else None)"

definition server_step :: "'sem semaphore_ops \<Rightarrow> instant \<Rightarrow> server_event \<Rightarrow> 'sem socks_server \<Rightarrow>
    'sem socks_server option" where
  "server_step ops now event s =
     (case event of
        TaskWorks sh \<Rightarrow> if sv_tasks s = [] then None else Some (s\<lparr>sv_state := (sv_state s)\<lparr>shared := sh\<rparr>\<rparr>)
      | TaskEnds context sh \<Rightarrow> end_task ops context sh s
      | PurgeTick \<Rightarrow> if sv_phase s = Stopped then None else purge_bans now s
      | StatsTick fds \<Rightarrow> if sv_phase s = Stopped then None else report_stats ops now fds s
      | PermitsBack _ \<Rightarrow> drain ops now event s
      | WaitElapsed _ \<Rightarrow> drain ops now event s
      | _ \<Rightarrow> accept_loop ops now event s)"

end
