(* ===== verification/Process.thy ===== *)
theory Process
  imports Startup Socks_Server
begin

text \<open>
  The rest of \<open>src/main.rs\<close> and the messages of \<open>src/config/config_error.rs\<close>: logging set-up, the signals that end the
  server, and \<open>main\<close> with its exit status. A run of the process is given by the events of its environment, the
  signals that arrive among them; the server's shutdown future is \<open>shutdown_signal\<close>, polled on every event while the
  accept loop runs. The run is over when the state machine of \<open>Socks_Server\<close> has stopped. \<open>EnvFilter\<close>, the tracing
  subscriber, the Tokio runtime and the installation of signal handlers are parameters.
\<close>

section \<open>Messages\<close>

fun config_error_show :: "('y \<Rightarrow> string) \<Rightarrow> 'y config_error \<Rightarrow> string" where
  "config_error_show yaml_show HomeNotSet = ''HOME is not set, cannot locate ~/'' @ SETTINGS_FILE_NAME"
| "config_error_show yaml_show (ReadError path error) =
     ''cannot read settings file '' @ path @ '': '' @ error_text error"
| "config_error_show yaml_show (ParseError path error) =
     ''invalid settings file '' @ path @ '': '' @ yaml_show error"
| "config_error_show yaml_show (Invalid key reason) =
     ''invalid setting `'' @ key @ ''`: '' @ reason"

text \<open>An error with its context, as \<open>{error:#}\<close> writes it.\<close>

fun startup_error_show :: "('y \<Rightarrow> string) \<Rightarrow> 'y startup_error \<Rightarrow> string" where
  "startup_error_show yaml_show (BadConfig error) = config_error_show yaml_show error"
| "startup_error_show yaml_show (NoRuntime error) = ''cannot start the Tokio runtime: '' @ error_text error"
| "startup_error_show yaml_show (CannotListen addr error) =
     ''cannot listen on '' @ show_socket_addr addr @ '': '' @ error_text error"
| "startup_error_show yaml_show (NoLocalAddr error) = error_text error"

section \<open>Logging and signals\<close>

datatype os_signal = SIGTERM | SIGINT

datatype process_line =
    LoggingFailed string
  | UnknownLogFormat string
  | StartupLine startup_line
  | ServerLine server_line
  | SigtermHandlerFailed io_error
  | SigintHandlerFailed io_error
  | ShutdownRequested os_signal
  | ServerStopped
  | Fatal string

text \<open>\<open>str::eq_ignore_ascii_case\<close>.\<close>

definition ascii_lowercase :: "char \<Rightarrow> char" where
  "ascii_lowercase c = (let n = of_char c :: nat in if 65 \<le> n \<and> n \<le> 90 then char_of (n + 32) else c)"

definition eq_ignore_ascii_case :: "string \<Rightarrow> string \<Rightarrow> bool" where
  "eq_ignore_ascii_case s t \<longleftrightarrow> map ascii_lowercase s = map ascii_lowercase t"

datatype log_sink = JsonLines | TextLines bool

definition init_logging :: "string option \<Rightarrow> bool \<Rightarrow> (log_sink \<Rightarrow> string + unit) \<Rightarrow> log_sink \<times> process_line list" where
  "init_logging log_format is_terminal try_init =
     (let format = (case log_format of Some s \<Rightarrow> s | None \<Rightarrow> []);
          sink = (if eq_ignore_ascii_case format ''json'' then JsonLines else TextLines is_terminal);
          failed = (case try_init sink of Inl error \<Rightarrow> [LoggingFailed error] | Inr _ \<Rightarrow> []);
          unknown = (if format \<noteq> [] \<and> \<not> eq_ignore_ascii_case format ''json'' \<and> \<not> eq_ignore_ascii_case format ''text''
                     then [UnknownLogFormat format] else [])
      in (sink, failed @ unknown))"

text \<open>The futures of the two signals, polled when the signals \<open>arrived\<close> have come: \<open>None\<close> is pending. A handler that
  could not be installed is reported (at the first poll) and waited on for ever.\<close>

definition sigterm :: "io_error + unit \<Rightarrow> os_signal list \<Rightarrow> unit option" where
  "sigterm install arrived =
     (case install of
        Inr _ \<Rightarrow> if SIGTERM \<in> set arrived then Some () else None
      | Inl _ \<Rightarrow> None)"

definition sigint :: "io_error + unit \<Rightarrow> os_signal list \<Rightarrow> unit option" where
  "sigint ctrl_c arrived =
     (case ctrl_c of
        Inr _ \<Rightarrow> if SIGINT \<in> set arrived then Some () else None
      | Inl _ \<Rightarrow> None)"

text \<open>\<open>select!\<close> over the two. It is polled at every arrival, so that it completes before a second signal comes.\<close>

definition shutdown_signal :: "io_error + unit \<Rightarrow> io_error + unit \<Rightarrow> os_signal list \<Rightarrow> os_signal option" where
  "shutdown_signal install ctrl_c arrived =
     (case sigterm install arrived of
        Some _ \<Rightarrow> Some SIGTERM
      | None \<Rightarrow> (case sigint ctrl_c arrived of Some _ \<Rightarrow> Some SIGINT | None \<Rightarrow> None))"

definition handler_lines :: "io_error + unit \<Rightarrow> io_error + unit \<Rightarrow> process_line list" where
  "handler_lines install ctrl_c =
     (case install of Inl error \<Rightarrow> [SigtermHandlerFailed error] | Inr _ \<Rightarrow> []) @
     (case ctrl_c of Inl error \<Rightarrow> [SigintHandlerFailed error] | Inr _ \<Rightarrow> [])"

section \<open>The program\<close>

text \<open>What the environment does to the running process. An event of the server is one of \<open>server_event\<close> other than
  the shutdown, which is not up to the environment.\<close>

datatype process_event = SignalArrives os_signal | ServerEvent server_event

record course =
  sigterm_install :: "io_error + unit"
  sigint_install :: "io_error + unit"
  course_start :: instant
  course_events :: "(instant \<times> process_event) list"

record 'sem process =
  pr_server :: "'sem socks_server"
  pr_arrived :: "os_signal list"
  pr_log :: "process_line list"

fun running :: "server_phase \<Rightarrow> bool" where
  "running Accepting = True"
| "running (BackingOff _) = True"
| "running _ = False"

definition server_moves :: "'sem semaphore_ops \<Rightarrow> instant \<Rightarrow> server_event \<Rightarrow> 'sem process \<Rightarrow> 'sem process option" where
  "server_moves ops now event p =
     map_option (\<lambda>s. p\<lparr>pr_server := s,
         pr_log := pr_log p @ map ServerLine (drop (length (sv_log (pr_server p))) (sv_log s))\<rparr>)
       (server_step ops now event (pr_server p))"

text \<open>The \<open>select!\<close>s of the accept loop poll the shutdown future first.\<close>

definition poll_shutdown :: "'sem semaphore_ops \<Rightarrow> course \<Rightarrow> instant \<Rightarrow> 'sem process \<Rightarrow> 'sem process option" where
  "poll_shutdown ops c now p =
     (if running (sv_phase (pr_server p))
      then case shutdown_signal (sigterm_install c) (sigint_install c) (pr_arrived p) of
          Some sig \<Rightarrow> server_moves ops now ShutdownSignal (p\<lparr>pr_log := pr_log p @ [ShutdownRequested sig]\<rparr>)
        | None \<Rightarrow> Some p
      else Some p)"

text \<open>The default action of a signal without handler ends the process: \<open>main\<close> does not return.\<close>

definition handled :: "course \<Rightarrow> os_signal \<Rightarrow> bool" where
  "handled c sig \<longleftrightarrow> (case (case sig of SIGTERM \<Rightarrow> sigterm_install c | SIGINT \<Rightarrow> sigint_install c) of
     Inr _ \<Rightarrow> True | Inl _ \<Rightarrow> False)"

fun process_step :: "'sem semaphore_ops \<Rightarrow> course \<Rightarrow> instant \<Rightarrow> process_event \<Rightarrow> 'sem process \<Rightarrow>
    'sem process option" where
  "process_step ops c now (SignalArrives sig) p =
     (if handled c sig then poll_shutdown ops c now (p\<lparr>pr_arrived := pr_arrived p @ [sig]\<rparr>) else None)"
| "process_step ops c now (ServerEvent event) p =
     (if event = ShutdownSignal then None
      else Option.bind (poll_shutdown ops c now p) (server_moves ops now event))"

fun exec_process :: "'sem semaphore_ops \<Rightarrow> course \<Rightarrow> (instant \<times> process_event) list \<Rightarrow> 'sem process \<Rightarrow>
    'sem process option" where
  "exec_process ops c [] p = Some p"
| "exec_process ops c ((now, event) # events) p =
     Option.bind (process_step ops c now event p) (exec_process ops c events)"

text \<open>\<open>serve\<close> after the "started" line; \<open>None\<close> while the server has not stopped.\<close>

definition serve :: "'sem semaphore_ops \<Rightarrow> course \<Rightarrow> server_config \<Rightarrow> process_line list option" where
  "serve ops c config =
     (let p = \<lparr>pr_server = server_start ops (course_start c) config, pr_arrived = [],
               pr_log = handler_lines (sigterm_install c) (sigint_install c)\<rparr>
      in case Option.bind (poll_shutdown ops c (course_start c) p) (exec_process ops c (course_events c)) of
        Some p \<Rightarrow> if sv_phase (pr_server p) = Stopped then Some (pr_log p @ [ServerStopped]) else None
      | None \<Rightarrow> None)"

text \<open>Everything outside the program that its start depends on; \<open>'r\<close> is the state of the system's limits.\<close>

record ('y, 'r) host =
  log_format_var :: "string option"
  stdout_is_terminal :: bool
  try_init :: "log_sink \<Rightarrow> string + unit"
  home_var :: "string option"
  fs_read :: "string \<Rightarrow> io_error + u8 list"
  yaml_decode :: "u8 list \<Rightarrow> 'y + settings_model"
  yaml_error_show :: "'y \<Rightarrow> string"
  file_mode :: "string \<Rightarrow> io_error + u32"
  rlimit_of :: "'r rlimit_ops"
  build_runtime :: "io_error + unit"
  bind_listener :: "socket_addr \<Rightarrow> io_error + unit"
  listener_addr :: "io_error + socket_addr"

definition start_on :: "('y, 'r) host \<Rightarrow> 'r \<Rightarrow> ('y startup_error + server_config) \<times> startup_line list \<times> 'r" where
  "start_on h = run_main (home_var h) (fs_read h) (yaml_decode h) (file_mode h) (rlimit_of h) (build_runtime h)
     (bind_listener h) (listener_addr h)"

datatype exit_code = ExitSuccess | ExitFailure

definition main :: "('y, 'r) host \<Rightarrow> 'sem semaphore_ops \<Rightarrow> course \<Rightarrow> 'r \<Rightarrow> (exit_code \<times> process_line list) option" where
  "main h ops c r =
     (let (sink, logging) = init_logging (log_format_var h) (stdout_is_terminal h) (try_init h);
          (started, startup, r) = start_on h r;
          lines = logging @ map StartupLine startup
      in case started of
        Inl error \<Rightarrow> Some (ExitFailure, lines @ [Fatal (startup_error_show (yaml_error_show h) error)])
      | Inr config \<Rightarrow>
          (case serve ops c config of
             Some served \<Rightarrow> Some (ExitSuccess, lines @ served)
           | None \<Rightarrow> None))"

section \<open>Properties\<close>

lemma admit_phase: "sv_phase (admit ops now client s) = sv_phase s"
  by (simp add: admit_def log_line_def with_stats_def Let_def split: prod.split option.split)

lemma tasks_phase:
  "purge_bans now s = Some s' \<Longrightarrow> sv_phase s' = sv_phase s"
  "report_stats ops now view s = Some s' \<Longrightarrow> sv_phase s' = sv_phase s"
  "end_task ops context sh s = Some s' \<Longrightarrow> sv_phase s' = sv_phase s"
  by (auto simp: purge_bans_def report_stats_def end_task_def log_stats_def log_line_def Let_def
      split: option.splits prod.splits if_splits)

lemma step_running:
  assumes "server_step ops now event s = Some s'" and "running (sv_phase s)" and "event \<noteq> ShutdownSignal"
  shows "running (sv_phase s')"
  using assms
  by (cases event; cases "sv_phase s")
    (auto simp: server_step_def accept_loop_def drain_def Let_def admit_phase log_line_def set_phase_def
      dest: tasks_phase split: if_splits)

text \<open>A process whose accept loop is over has logged the request of a handled signal, which arrived.\<close>

definition stop_ordered :: "course \<Rightarrow> 'sem process \<Rightarrow> bool" where
  "stop_ordered c p \<longleftrightarrow> running (sv_phase (pr_server p)) \<or>
     (\<exists>sig \<in> set (pr_arrived p). handled c sig \<and> ShutdownRequested sig \<in> set (pr_log p))"

lemma server_moves_keeps:
  assumes "server_moves ops now event p = Some p'"
  shows "pr_arrived p' = pr_arrived p \<and> set (pr_log p) \<subseteq> set (pr_log p') \<and>
    server_step ops now event (pr_server p) = Some (pr_server p')"
  using assms by (auto simp: server_moves_def)

lemma shutdown_signal_arrived:
  "shutdown_signal (sigterm_install c) (sigint_install c) arrived = Some sig \<Longrightarrow> sig \<in> set arrived \<and> handled c sig"
  by (auto simp: shutdown_signal_def sigterm_def sigint_def handled_def split: option.splits sum.splits if_splits)

lemma poll_ordered:
  assumes "poll_shutdown ops c now p = Some p'" and "stop_ordered c p"
  shows "stop_ordered c p' \<and> pr_arrived p' = pr_arrived p"
  using assms shutdown_signal_arrived [of c "pr_arrived p"]
  by (fastforce simp: poll_shutdown_def stop_ordered_def split: if_splits option.splits dest!: server_moves_keeps)

lemma moves_ordered:
  assumes "server_moves ops now event p = Some p'" and "stop_ordered c p" and "event \<noteq> ShutdownSignal"
  shows "stop_ordered c p' \<and> pr_arrived p' = pr_arrived p"
  using server_moves_keeps [OF assms(1)] assms(2,3) by (auto simp: stop_ordered_def dest: step_running)

lemma process_ordered:
  assumes "process_step ops c now event p = Some p'" and "stop_ordered c p"
  shows "stop_ordered c p' \<and> set (pr_arrived p') \<subseteq> set (pr_arrived p) \<union> {sig. event = SignalArrives sig}"
proof (cases event)
  case (SignalArrives sig)
  have "stop_ordered c (p\<lparr>pr_arrived := pr_arrived p @ [sig]\<rparr>)" using assms(2) by (auto simp: stop_ordered_def)
  with poll_ordered [OF _ this, of ops now p'] SignalArrives assms(1) show ?thesis by (auto split: if_splits)
next
  case (ServerEvent e)
  with assms(1) obtain q where "poll_shutdown ops c now p = Some q" "server_moves ops now e q = Some p'"
    "e \<noteq> ShutdownSignal" by (auto split: if_splits bind_splits)
  with poll_ordered [OF _ assms(2)] moves_ordered [of ops now e q p' c] show ?thesis by auto
qed

lemma exec_ordered:
  "exec_process ops c events p = Some p' \<Longrightarrow> stop_ordered c p \<Longrightarrow>
     stop_ordered c p' \<and> set (pr_arrived p') \<subseteq> set (pr_arrived p) \<union> {sig. SignalArrives sig \<in> snd ` set events}"
proof (induction ops c events p rule: exec_process.induct)
  case (2 ops c now event events p)
  from 2(2) obtain q where q: "process_step ops c now event p = Some q" "exec_process ops c events q = Some p'"
    by (auto split: bind_splits)
  from process_ordered [OF q(1) 2(3)] 2(1) [OF q] show ?case by auto
qed simp

lemma serve_stops_on_signal:
  assumes "serve ops c config = Some lines"
  shows "last lines = ServerStopped \<and>
    (\<exists>sig. SignalArrives sig \<in> snd ` set (course_events c) \<and> handled c sig \<and> ShutdownRequested sig \<in> set lines)"
proof -
  let ?p = "\<lparr>pr_server = server_start ops (course_start c) config, pr_arrived = [],
               pr_log = handler_lines (sigterm_install c) (sigint_install c)\<rparr>"
  from assms obtain q p where q: "poll_shutdown ops c (course_start c) ?p = Some q"
    and p: "exec_process ops c (course_events c) q = Some p" "sv_phase (pr_server p) = Stopped"
    and lines: "lines = pr_log p @ [ServerStopped]"
    by (auto simp: serve_def Let_def split: option.splits if_splits bind_splits)
  have "stop_ordered c ?p" by (simp add: stop_ordered_def server_start_unfold)
  from poll_ordered [OF q this] have "stop_ordered c q" "pr_arrived q = []" by simp_all
  from exec_ordered [OF p(1) this(1)] this(2) p(2) lines show ?thesis
    by (fastforce simp: stop_ordered_def)
qed

text \<open>What a start needs of its surroundings.\<close>

definition can_start :: "('y, 'r) host \<Rightarrow> bool" where
  "can_start h \<longleftrightarrow> (\<exists>home bytes settings config addr.
     home_var h = Some home \<and> home \<noteq> [] \<and> fs_read h (path_join home SETTINGS_FILE_NAME) = Ok bytes \<and>
     yaml_decode h bytes = Ok settings \<and>
     from_settings settings = (Ok config :: 'y config_error + server_config) \<and>
     build_runtime h = Ok () \<and> bind_listener h (listen_address config) = Ok () \<and> listener_addr h = Ok addr)"

lemma start_on_iff: "(\<exists>config. fst (start_on h r) = Ok config) \<longleftrightarrow> can_start h"
  by (auto simp: start_on_def run_main_def can_start_def settings_file_path_def load_def read_settings_def
      try_bind_def ok_or_def option_filter_def map_err_def Let_def split: option.splits sum.splits prod.splits if_splits)

lemma signal_stops_accepting:
  assumes "running (sv_phase (pr_server p))" and "handled c sig"
  shows "\<exists>p'. process_step ops c now (SignalArrives sig) p = Some p' \<and> \<not> running (sv_phase (pr_server p'))"
proof -
  have "shutdown_signal (sigterm_install c) (sigint_install c) (pr_arrived p @ [sig]) \<noteq> None"
    using assms(2)
    by (cases sig) (auto simp: handled_def shutdown_signal_def sigterm_def sigint_def split: sum.splits option.split)
  then show ?thesis
    using assms
    by (cases "sv_phase (pr_server p)")
      (auto simp: poll_shutdown_def server_moves_def server_step_def accept_loop_def log_line_def set_phase_def Let_def)
qed

text \<open>\<^bold>\<open>C33.\<close> The exit status tells what happened. The process ends with the failure status exactly when it cannot
  start: no \<open>HOME\<close>, settings that cannot be read, parsed or accepted, no runtime, or an address it cannot listen
  on (not when a limit cannot be raised or the permissions of the file are too wide); it then has served nobody and
  its last line is the cause. It ends with the success status only after SIGTERM or SIGINT has arrived, with its handler
  installed, which the log names, and after the server has stopped; without such a signal it does not end.
  Such a signal ends the accept loop at once.\<close>

theorem main_exit_status:
  "((\<exists>lines. main h ops c r = Some (ExitFailure, lines)) \<longleftrightarrow> \<not> can_start h) \<and>
   (\<forall>lines. main h ops c r = Some (ExitFailure, lines) \<longrightarrow>
      (\<exists>error. fst (start_on h r) = Err error \<and> last lines = Fatal (startup_error_show (yaml_error_show h) error)) \<and>
      (\<forall>line. ServerLine line \<notin> set lines)) \<and>
   (\<forall>lines. main h ops c r = Some (ExitSuccess, lines) \<longrightarrow> last lines = ServerStopped \<and>
      (\<exists>sig. SignalArrives sig \<in> snd ` set (course_events c) \<and> handled c sig \<and> ShutdownRequested sig \<in> set lines)) \<and>
   (running (sv_phase (pr_server p)) \<and> handled c sig \<longrightarrow>
      (\<exists>p'. process_step ops c now (SignalArrives sig) p = Some p' \<and> \<not> running (sv_phase (pr_server p'))))"
proof -
  obtain sink logging where log: "init_logging (log_format_var h) (stdout_is_terminal h) (try_init h) = (sink, logging)"
    by fastforce
  obtain started startup r' where start: "start_on h r = (started, startup, r')" by (metis prod_cases3)
  have quiet: "ServerLine line \<notin> set logging" for line
    using log by (auto simp: init_logging_def Let_def split: if_splits sum.splits)
  show ?thesis
  proof (intro conjI)
    show "(\<exists>lines. main h ops c r = Some (ExitFailure, lines)) \<longleftrightarrow> \<not> can_start h"
      using start_on_iff [of h r] start log by (cases started) (auto simp: main_def split: option.splits)
    show "\<forall>lines. main h ops c r = Some (ExitFailure, lines) \<longrightarrow>
      (\<exists>error. fst (start_on h r) = Err error \<and> last lines = Fatal (startup_error_show (yaml_error_show h) error)) \<and>
      (\<forall>line. ServerLine line \<notin> set lines)"
      using start log quiet by (cases started) (auto simp: main_def split: option.splits)
    show "\<forall>lines. main h ops c r = Some (ExitSuccess, lines) \<longrightarrow> last lines = ServerStopped \<and>
      (\<exists>sig. SignalArrives sig \<in> snd ` set (course_events c) \<and> handled c sig \<and> ShutdownRequested sig \<in> set lines)"
      using start log by (cases started)
        (auto simp: main_def last_append split: option.splits dest!: serve_stops_on_signal)
    show "running (sv_phase (pr_server p)) \<and> handled c sig \<longrightarrow>
      (\<exists>p'. process_step ops c now (SignalArrives sig) p = Some p' \<and> \<not> running (sv_phase (pr_server p')))"
      using signal_stops_accepting by blast
  qed
qed

text \<open>A process that is started with the smallest settings file and gets SIGTERM after seven seconds.\<close>

definition sample_host :: "(string, u64 \<times> u64) host" where
  "sample_host = \<lparr>log_format_var = Some ''JSON'', stdout_is_terminal = False, try_init = (\<lambda>_. Ok ()),
     home_var = Some ''/root'', fs_read = (\<lambda>_. Ok []), yaml_decode = (\<lambda>_. Ok minimal_settings),
     yaml_error_show = id, file_mode = (\<lambda>_. Ok 0x180), rlimit_of = capped_system 65536, build_runtime = Ok (),
     bind_listener = (\<lambda>_. Ok ()), listener_addr = Ok (SockV4 0 1080)\<rparr>"

definition sample_stop :: course where
  "sample_stop = \<lparr>sigterm_install = Ok (), sigint_install = Ok (), course_start = 0,
     course_events = [(from_secs 7, SignalArrives SIGTERM), (from_secs 7, ServerEvent (PermitsBack None))]\<rparr>"

lemma sample_host_starts: "fst (start_on sample_host r) = Ok minimal_config"
  by (simp add: start_on_def sample_host_def run_main_def settings_file_path_def load_def read_settings_def
      minimal_settings_ok try_bind_def ok_or_def option_filter_def Let_def split: prod.split)

lemma sample_serves: "\<exists>lines. serve counting_semaphore sample_stop minimal_config = Some lines"
  by (simp add: serve_def sample_stop_def poll_shutdown_def shutdown_signal_def sigterm_def sigint_def handled_def
      server_moves_def server_step_def accept_loop_def drain_def server_start_unfold all_permits_back_def
      counting_semaphore_def server_state_new_def log_line_def set_phase_def finish_run_def log_stats_def
      minimal_config_def)

theorem main_exit_status_witness:
  "\<exists>lines. main sample_host counting_semaphore sample_stop (1024, 4096) = Some (ExitSuccess, lines) \<and>
     last lines = ServerStopped \<and> ShutdownRequested SIGTERM \<in> set lines"
proof -
  obtain served where served: "serve counting_semaphore sample_stop minimal_config = Some served"
    using sample_serves by blast
  have "\<exists>lines. main sample_host counting_semaphore sample_stop (1024, 4096) = Some (ExitSuccess, lines)"
    using sample_host_starts [of "(1024, 4096)"] served by (auto simp: main_def Let_def split: prod.split)
  then obtain lines where run: "main sample_host counting_semaphore sample_stop (1024, 4096) = Some (ExitSuccess, lines)"
    by blast
  with main_exit_status [where h = sample_host and r = "(1024, 4096)" and ops = counting_semaphore and c = sample_stop]
  show ?thesis by (auto simp: sample_stop_def)
qed

end
