(* ===== verification/Server_Invariants.thy ===== *)
theory Server_Invariants
  imports Socks_Server Ban_Lock
begin

text \<open>
  Reachable states of the server and what holds in all of them: permits and open connections add up to the
  configured limit, every client that connected is counted once, connections are numbered apart and come
  from whitelisted clients, a banned client stays out, and a shutdown ends.
\<close>

section \<open>Reachable states\<close>

text \<open>Connection tasks leave the admission counters alone and touch the ban list only by recording failures
  and, on behalf of others, purging. The instants of these operations are not later than now, in no particular order:
  a thread reads the clock before it waits for the lock.\<close>

definition admission_counters :: "server_stats \<Rightarrow> counter \<times> counter \<times> counter \<times> counter" where
  "admission_counters c =
     (accepted c, rejected_not_whitelisted c, rejected_banned c, rejected_over_limit c)"

definition task_change :: "instant \<Rightarrow> instant \<Rightarrow> shared_state \<Rightarrow> shared_state \<Rightarrow> bool" where
  "task_change now now' sh sh' \<longleftrightarrow>
     admission_counters (stats sh') = admission_counters (stats sh) \<and>
     (\<exists>es. ban_list_of sh' = run_events record_failure purged (ban_list_of sh) es \<and>
           list_all (\<lambda>e. event_time e \<le> now') es)"

fun event_fine :: "instant \<Rightarrow> instant \<Rightarrow> server_event \<Rightarrow> shared_state \<Rightarrow> bool" where
  "event_fine now now' (TaskWorks sh') sh \<longleftrightarrow> task_change now now' sh sh'"
| "event_fine now now' (TaskEnds _ sh') sh \<longleftrightarrow> task_change now now' sh sh'"
| "event_fine _ _ _ _ \<longleftrightarrow> True"

text \<open>Runs of the server from a state at an instant, with the number of clients that connected.\<close>

inductive server_run :: "'sem semaphore_ops \<Rightarrow> instant \<Rightarrow> 'sem socks_server \<Rightarrow> nat \<Rightarrow> instant \<Rightarrow>
    'sem socks_server \<Rightarrow> bool" for ops t0 s0 where
  run_start: "server_run ops t0 s0 0 t0 s0"
| run_step: "server_run ops t0 s0 n now s \<Longrightarrow> now \<le> now' \<Longrightarrow>
     event_fine now now' event (shared (sv_state s)) \<Longrightarrow> server_step ops now' event s = Some s' \<Longrightarrow>
     server_run ops t0 s0 (if \<exists>client. event = ClientConnects client then Suc n else n) now' s'"

inductive_cases server_runE: "server_run ops t0 s0 n now s"

lemma server_run_trans:
  assumes "server_run ops t1 s1 m t2 s2" and "server_run ops t0 s0 n t1 s1"
  shows "server_run ops t0 s0 (n + m) t2 s2"
  using assms
proof induction
  case (run_step m now s now' event s')
  then have "server_run ops t0 s0 (n + m) now s" by simp
  from server_run.run_step [OF this run_step(2-4)] show ?case by (simp split: if_splits)
qed simp

lemma server_run_time: "server_run ops t0 s0 n now s \<Longrightarrow> t0 \<le> now"
  by (induction rule: server_run.induct) auto

section \<open>What each step changes\<close>

lemmas server_ops = admit_def log_line_def set_phase_def with_stats_def log_stats_def report_stats_def
  purge_bans_def accept_loop_def drain_def finish_run_def end_task_def server_step_def

lemma run_events_append:
  "run_events f p bl (es @ es') = run_events f p (run_events f p bl es) es'"
  by (induction f p bl es rule: run_events.induct) auto

text \<open>The total of the four admission counters.\<close>

definition admissions :: "server_stats \<Rightarrow> counter" where
  "admissions c = accepted c + rejected_not_whitelisted c + rejected_banned c + rejected_over_limit c"

lemma admissions_counters: "admission_counters c = admission_counters c' \<Longrightarrow> admissions c = admissions c'"
  by (simp add: admission_counters_def admissions_def)

abbreviation counters :: "'sem socks_server \<Rightarrow> server_stats" where
  "counters s \<equiv> stats (shared (sv_state s))"

abbreviation bans :: "'sem socks_server \<Rightarrow> ban_list" where
  "bans s \<equiv> ban_list_of (shared (sv_state s))"

definition may_enter :: "instant \<Rightarrow> socket_addr \<Rightarrow> 'sem socks_server \<Rightarrow> bool" where
  "may_enter now client s \<longleftrightarrow>
     acl_is_allowed (config_client_acl (state_config (sv_state s))) (sock_ip (canonical_sock client)) \<and>
     \<not> is_banned (bans s) (sock_ip (canonical_sock client)) now"

text \<open>The parts of the state that only admission and the end of a task change.\<close>

definition same_admission :: "'sem socks_server \<Rightarrow> 'sem socks_server \<Rightarrow> bool" where
  "same_admission s s' \<longleftrightarrow>
     connection_permits (sv_state s') = connection_permits (sv_state s) \<and> sv_tasks s' = sv_tasks s \<and>
     last_connection_id (sv_state s') = last_connection_id (sv_state s) \<and>
     admission_counters (counters s') = admission_counters (counters s)"

context semaphore
begin

lemma admit_rejected:
  assumes "\<not> (may_enter now client s \<and> 0 < available_permits ops (connection_permits (sv_state s)))"
  shows "connection_permits (sv_state (admit ops now client s)) = connection_permits (sv_state s) \<and>
    sv_tasks (admit ops now client s) = sv_tasks s \<and>
    last_connection_id (sv_state (admit ops now client s)) = last_connection_id (sv_state s) \<and>
    accepted (counters (admit ops now client s)) = accepted (counters s) \<and>
    admissions (counters (admit ops now client s)) = admissions (counters s) + 1"
  using assms acquire_none [of "connection_permits (sv_state s)"]
  by (auto simp: admit_def may_enter_def canonical_sock_def log_line_def with_stats_def Let_def admissions_def
      counter_increment_def counter_add_def split: prod.split)

lemma admit_admitted:
  assumes "may_enter now client s" and "0 < available_permits ops (connection_permits (sv_state s))"
  shows "available_permits ops (connection_permits (sv_state s)) =
      Suc (available_permits ops (connection_permits (sv_state (admit ops now client s)))) \<and>
    sv_tasks (admit ops now client s) =
      sv_tasks s @ [\<lparr>conn_id = last_connection_id (sv_state s) + 1, peer = canonical_sock client\<rparr>] \<and>
    last_connection_id (sv_state (admit ops now client s)) = last_connection_id (sv_state s) + 1 \<and>
    accepted (counters (admit ops now client s)) = accepted (counters s) + 1 \<and>
    admissions (counters (admit ops now client s)) = admissions (counters s) + 1"
proof -
  obtain permits where p: "try_acquire_owned ops (connection_permits (sv_state s)) = Some permits"
    using acquire_some [OF assms(2)] by blast
  then show ?thesis
    using assms(1) acquireD [OF p]
    by (simp add: admit_def may_enter_def canonical_sock_def with_stats_def next_connection_id_def Let_def
        admissions_def counter_increment_def counter_add_def)
qed

end

lemma admit_same:
  "state_config (sv_state (admit ops now client s)) = state_config (sv_state s)"
  "bans (admit ops now client s) = bans s"
  "sv_phase (admit ops now client s) = sv_phase s"
  by (auto simp: admit_def log_line_def with_stats_def next_connection_id_def Let_def split: option.split prod.split)

lemma step_config:
  "server_step ops now event s = Some s' \<Longrightarrow> state_config (sv_state s') = state_config (sv_state s)"
  by (auto simp: server_ops Let_def next_connection_id_def
      split: server_event.splits server_phase.splits if_splits option.splits prod.splits)

text \<open>Steps other than an admission and the end of a task.\<close>

lemma step_same_admission:
  assumes "server_step ops now event s = Some s'" and "event_fine t now event (shared (sv_state s))"
    and "\<forall>client. event \<noteq> ClientConnects client" and "\<forall>c sh. event \<noteq> TaskEnds c sh"
  shows "same_admission s s'"
  using assms
  by (cases event)
     (auto simp: server_step_def accept_loop_def drain_def finish_run_def log_stats_def report_stats_def purge_bans_def
        log_line_def set_phase_def same_admission_def task_change_def Let_def
        split: server_phase.splits if_splits option.splits prod.splits)

lemma connects_step:
  assumes "server_step ops now (ClientConnects client) s = Some s'"
  shows "s' = admit ops now client s \<and> sv_phase s = Accepting"
  using assms by (auto simp: server_step_def accept_loop_def Let_def split: server_phase.splits)

lemma ends_step:
  assumes "server_step ops now (TaskEnds c sh) s = Some s'"
  shows "c \<in> set (sv_tasks s) \<and> sv_tasks s' = remove1 c (sv_tasks s) \<and>
    connection_permits (sv_state s') = release_permit ops (connection_permits (sv_state s)) \<and>
    shared (sv_state s') = sh \<and> last_connection_id (sv_state s') = last_connection_id (sv_state s)"
  using assms by (auto simp: server_step_def end_task_def Let_def split: if_splits)

text \<open>How the ban list evolves: failures of the tasks, and purges.\<close>

lemma step_bans:
  assumes "server_step ops now event s = Some s'" and "event_fine t now event (shared (sv_state s))" and "t \<le> now"
  shows "\<exists>es. bans s' = run_events record_failure purged (bans s) es \<and> list_all (\<lambda>e. event_time e \<le> now) es"
proof (cases event)
  case (ClientConnects client)
  then have "bans s' = run_events record_failure purged (bans s) []"
    using assms(1) by (auto dest!: connects_step simp: admit_same)
  then show ?thesis using assms(3) by (intro exI [of _ "[]"]) simp
next
  case (TaskWorks sh)
  then show ?thesis using assms by (auto simp: server_step_def task_change_def split: if_splits)
next
  case (TaskEnds c sh)
  then show ?thesis using assms by (auto dest!: ends_step simp: task_change_def)
next
  case PurgeTick
  then have "bans s' = run_events record_failure purged (bans s) [Purge now]"
    using assms(1) by (auto simp: server_step_def purge_bans_def log_line_def purged_def Let_def
        split: if_splits option.splits prod.splits)
  then show ?thesis using assms(3) by (intro exI [of _ "[Purge now]"]) simp
qed (use assms in \<open>auto simp: server_step_def accept_loop_def drain_def finish_run_def log_stats_def report_stats_def
        log_line_def set_phase_def Let_def intro!: exI [of _ "[]"]
        split: server_phase.splits if_splits option.splits prod.splits\<close>)

lemma run_bans:
  assumes "server_run ops t s n now s'"
  shows "\<exists>es. bans s' = run_events record_failure purged (bans s) es \<and> list_all (\<lambda>e. event_time e \<le> now) es"
  using assms
proof induction
  case run_start
  then show ?case by (intro exI [of _ "[]"]) simp
next
  case (run_step n now s1 now' event s2)
  then obtain es where es: "bans s1 = run_events record_failure purged (bans s) es"
    "list_all (\<lambda>e. event_time e \<le> now) es" by blast
  from step_bans [OF run_step(4,3,2)] obtain fs where fs: "bans s2 = run_events record_failure purged (bans s1) fs"
    "list_all (\<lambda>e. event_time e \<le> now') fs" by blast
  have "bans s2 = run_events record_failure purged (bans s) (es @ fs)"
    using es(1) fs(1) by (simp add: run_events_append)
  moreover have "list_all (\<lambda>e. event_time e \<le> now') (es @ fs)"
    using es(2) fs(2) run_step(2) by (auto simp: list_all_iff intro: order_trans)
  ultimately show ?case by blast
qed

section \<open>The invariant\<close>

text \<open>\<open>n\<close> clients have connected so far.\<close>

definition permits_ok :: "'sem semaphore_ops \<Rightarrow> server_config \<Rightarrow> 'sem socks_server \<Rightarrow> bool" where
  "permits_ok ops config s \<longleftrightarrow> state_config (sv_state s) = config \<and>
     available_permits ops (connection_permits (sv_state s)) + length (sv_tasks s) = unat (max_connections config)"

definition counts_ok :: "nat \<Rightarrow> 'sem socks_server \<Rightarrow> bool" where
  "counts_ok n s \<longleftrightarrow> admissions (counters s) = of_nat n \<and> accepted (counters s) = last_connection_id (sv_state s)"

definition ids_ok :: "nat \<Rightarrow> 'sem socks_server \<Rightarrow> bool" where
  "ids_ok n s \<longleftrightarrow> unat (last_connection_id (sv_state s)) \<le> n \<and> distinct (map conn_id (sv_tasks s)) \<and>
     (\<forall>c \<in> set (sv_tasks s). conn_id c \<le> last_connection_id (sv_state s))"

definition clients_ok :: "server_config \<Rightarrow> 'sem socks_server \<Rightarrow> bool" where
  "clients_ok config s \<longleftrightarrow> list_all (\<lambda>c. canonical_sock (peer c) = peer c \<and>
     acl_is_allowed (config_client_acl config) (sock_ip (peer c))) (sv_tasks s)"

lemma same_admission_ok:
  assumes "same_admission s s'"
  shows "counts_ok n s \<Longrightarrow> counts_ok n s'" "ids_ok n s \<Longrightarrow> ids_ok n s'" "clients_ok config s \<Longrightarrow> clients_ok config s'"
    "state_config (sv_state s') = state_config (sv_state s) \<Longrightarrow> permits_ok ops config s \<Longrightarrow> permits_ok ops config s'"
  using assms admissions_counters [of "counters s'" "counters s"]
  by (auto simp: same_admission_def counts_ok_def ids_ok_def clients_ok_def permits_ok_def admission_counters_def)

lemma ends_ok:
  assumes "server_step ops now (TaskEnds c sh) s = Some s'" and "task_change t now (shared (sv_state s)) sh"
  shows "counts_ok n s \<Longrightarrow> counts_ok n s'" "ids_ok n s \<Longrightarrow> ids_ok n s'" "clients_ok config s \<Longrightarrow> clients_ok config s'"
proof -
  note e = ends_step [OF assms(1)]
  show "counts_ok n s \<Longrightarrow> counts_ok n s'"
    using e assms(2) admissions_counters [of "counters s'" "counters s"]
    by (auto simp: counts_ok_def task_change_def admission_counters_def)
  have sub: "set (sv_tasks s') \<subseteq> set (sv_tasks s)" using e by (simp add: set_remove1_subset)
  show "ids_ok n s \<Longrightarrow> ids_ok n s'"
    using e sub by (auto simp: ids_ok_def distinct_map inj_on_def distinct_remove1)
  show "clients_ok config s \<Longrightarrow> clients_ok config s'"
    using sub by (auto simp: clients_ok_def list_all_iff)
qed

lemma fresh_id:
  fixes last :: u64
  assumes "unat last \<le> n" and "Suc n < 2 ^ 64"
  shows "unat (last + 1) = Suc (unat last)"
  using assms by (simp add: unat_word_ariths)

context semaphore
begin

lemma ends_permits:
  assumes "server_step ops now (TaskEnds c sh) s = Some s'" and "permits_ok ops config s"
  shows "permits_ok ops config s'"
proof -
  note e = ends_step [OF assms(1)]
  have "length (sv_tasks s) = Suc (length (sv_tasks s'))"
    using e length_pos_if_in_set [of c "sv_tasks s"] by (simp add: length_remove1)
  then show ?thesis
    using e assms(2) step_config [OF assms(1)] release_available [of "connection_permits (sv_state s)"]
    by (simp add: permits_ok_def)
qed

lemma admit_permits: "permits_ok ops config s \<Longrightarrow> permits_ok ops config (admit ops now client s)"
  using admit_rejected [of now client s] admit_admitted [of now client s]
  by (cases "may_enter now client s \<and> 0 < available_permits ops (connection_permits (sv_state s))")
     (auto simp: permits_ok_def admit_same)

lemma admit_counts: "counts_ok n s \<Longrightarrow> counts_ok (Suc n) (admit ops now client s)"
  using admit_rejected [of now client s] admit_admitted [of now client s]
  by (cases "may_enter now client s \<and> 0 < available_permits ops (connection_permits (sv_state s))")
     (auto simp: counts_ok_def)

lemma admit_clients: "state_config (sv_state s) = config \<Longrightarrow> clients_ok config s \<Longrightarrow>
    clients_ok config (admit ops now client s)"
  using admit_rejected [of now client s] admit_admitted [of now client s]
  by (cases "may_enter now client s \<and> 0 < available_permits ops (connection_permits (sv_state s))")
     (auto simp: clients_ok_def may_enter_def)

lemma admit_ids:
  assumes "ids_ok n s" and "Suc n < 2 ^ 64"
  shows "ids_ok (Suc n) (admit ops now client s)"
proof (cases "may_enter now client s \<and> 0 < available_permits ops (connection_permits (sv_state s))")
  case True
  let ?i = "last_connection_id (sv_state s)"
  have i: "unat (?i + 1) = Suc (unat ?i)" using assms by (auto simp: ids_ok_def intro: fresh_id)
  then have "?i < ?i + 1" by (simp add: word_less_nat_alt)
  then have "\<forall>c \<in> set (sv_tasks s). conn_id c < ?i + 1"
    using assms(1) by (auto simp: ids_ok_def intro: le_less_trans)
  then show ?thesis
    using assms(1) admit_admitted [of now client s] True i
    by (auto simp: ids_ok_def less_imp_le)
next
  case False
  then show ?thesis using assms(1) admit_rejected [OF False] by (auto simp: ids_ok_def)
qed

lemma reach_permits:
  assumes "server_run ops t0 (server_start ops t0 config) n now s"
  shows "permits_ok ops config s"
  using assms
proof induction
  case run_start
  then show ?case
    by (simp add: permits_ok_def server_start_unfold server_state_new_def new_available)
next
  case (run_step n now s now' event s')
  then show ?case
    using step_same_admission [OF run_step(4,3)] step_config [OF run_step(4)] same_admission_ok(4)
    by (cases event) (auto intro: ends_permits admit_permits dest: connects_step)
qed

lemma reach_counts_clients:
  assumes "server_run ops t0 (server_start ops t0 config) n now s"
  shows "counts_ok n s \<and> clients_ok config s"
  using assms
proof induction
  case run_start
  then show ?case
    by (simp add: counts_ok_def clients_ok_def server_start_unfold server_state_new_def stats_default_def admissions_def)
next
  case (run_step n now s now' event s')
  have c: "state_config (sv_state s) = config" using reach_permits [OF run_step(1)] by (simp add: permits_ok_def)
  show ?case
  proof (cases event)
    case (ClientConnects client)
    then show ?thesis
      using run_step c by (auto dest!: connects_step intro: admit_counts admit_clients)
  next
    case (TaskEnds x sh)
    then show ?thesis using run_step by (auto intro: ends_ok)
  qed (use run_step step_same_admission [OF run_step(4,3)] same_admission_ok in auto)
qed

lemma reach_ids:
  assumes "server_run ops t0 (server_start ops t0 config) n now s" and "n < 2 ^ 64"
  shows "ids_ok n s"
  using assms
proof induction
  case run_start
  then show ?case by (simp add: ids_ok_def server_start_unfold server_state_new_def)
next
  case (run_step n now s now' event s')
  show ?case
  proof (cases event)
    case (ClientConnects client)
    then show ?thesis
      using run_step by (auto dest!: connects_step intro: admit_ids)
  next
    case (TaskEnds x sh)
    then show ?thesis using run_step by (auto intro: ends_ok)
  qed (use run_step step_same_admission [OF run_step(4,3)] same_admission_ok(2) in auto)
qed

end

section \<open>Shutdown\<close>

text \<open>After the accept loop there is no way back: no client is admitted any more.\<close>

fun accepting :: "server_phase \<Rightarrow> bool" where
  "accepting Accepting = True"
| "accepting (BackingOff _) = True"
| "accepting _ = False"

lemma step_drains:
  assumes "server_step ops now event s = Some s'" and "\<not> accepting (sv_phase s)"
  shows "\<not> accepting (sv_phase s') \<and> set (sv_tasks s') \<subseteq> set (sv_tasks s) \<and>
    (\<forall>client. event \<noteq> ClientConnects client)"
  using assms
  by (cases event)
     (auto simp: server_step_def accept_loop_def drain_def finish_run_def log_stats_def report_stats_def purge_bans_def
        end_task_def log_line_def set_phase_def Let_def dest: set_mp [OF set_remove1_subset]
        split: server_phase.splits if_splits option.splits prod.splits)

lemma run_drains:
  assumes "server_run ops t s n now s'" and "\<not> accepting (sv_phase s)"
  shows "n = 0 \<and> \<not> accepting (sv_phase s') \<and> set (sv_tasks s') \<subseteq> set (sv_tasks s)"
  using assms by induction (auto dest!: step_drains)

text \<open>The deadlines of the two waits: the first one is fixed when the shutdown begins, the second one is
  never more than \<open>FORCE_CLOSE_WAIT\<close> away, and connections have been told to close by then.\<close>

definition drain_ok :: "instant \<Rightarrow> instant \<Rightarrow> 'sem socks_server \<Rightarrow> bool" where
  "drain_ok grace_end now s \<longleftrightarrow> (case sv_phase s of
     Draining d \<Rightarrow> d = grace_end
   | ForceClosing d \<Rightarrow> d \<le> now + from_secs 1 \<and> force_close (sv_state s)
   | Stopped \<Rightarrow> True
   | _ \<Rightarrow> False)"

lemma step_drain_ok:
  assumes "server_step ops now' event s = Some s'" and "drain_ok grace_end now s" and "now \<le> now'"
  shows "drain_ok grace_end now' s'"
  using assms
  by (cases event)
     (auto simp: server_step_def accept_loop_def drain_def finish_run_def log_stats_def report_stats_def purge_bans_def
        end_task_def log_line_def set_phase_def drain_ok_def FORCE_CLOSE_WAIT_def Let_def
        split: server_phase.splits if_splits option.splits prod.splits)

lemma run_drain_ok:
  assumes "server_run ops t s n now s'" and "drain_ok grace_end t s"
  shows "drain_ok grace_end now s'"
  using assms by induction (auto intro: step_drain_ok)

text \<open>A wait of the shutdown can end now, with every permit back or by giving up, and leads to a phase of \<open>P\<close>.\<close>

definition wait_ends_in :: "'sem semaphore_ops \<Rightarrow> instant \<Rightarrow> 'sem socks_server \<Rightarrow> ('sem socks_server \<Rightarrow> bool) \<Rightarrow> bool" where
  "wait_ends_in ops now s P \<longleftrightarrow> (\<forall>fds. \<exists>event s'.
     event \<in> {PermitsBack fds, WaitElapsed fds} \<and> server_step ops now event s = Some s' \<and> P s')"

fun deadline_of :: "server_phase \<Rightarrow> instant option" where
  "deadline_of (Draining d) = Some d"
| "deadline_of (ForceClosing d) = Some d"
| "deadline_of _ = None"

lemma wait_ends_inI:
  assumes "\<And>fds. \<exists>s'. server_step ops now
      (if all_permits_back ops (sv_state s) then PermitsBack fds else WaitElapsed fds) s = Some s' \<and> P s'"
  shows "wait_ends_in ops now s P"
  using assms unfolding wait_ends_in_def by (metis insertI1 insertI2)

lemma grace_ends:
  "sv_phase s = Draining d \<Longrightarrow> d \<le> now \<Longrightarrow> wait_ends_in ops now s
     (\<lambda>s'. sv_phase s' = Stopped \<or> sv_phase s' = ForceClosing (now + from_secs 1) \<and> force_close (sv_state s'))"
  by (rule wait_ends_inI)
     (auto simp: server_step_def drain_def finish_run_def log_stats_def log_line_def set_phase_def
        FORCE_CLOSE_WAIT_def Let_def)

lemma force_close_ends:
  "sv_phase s = ForceClosing d \<Longrightarrow> d \<le> now \<Longrightarrow> wait_ends_in ops now s (\<lambda>s'. sv_phase s' = Stopped)"
  by (rule wait_ends_inI)
     (auto simp: server_step_def drain_def finish_run_def log_stats_def log_line_def set_phase_def Let_def)

text \<open>There is one last wait, with one deadline, and no way out of the end.\<close>

lemma step_last_wait:
  assumes "server_step ops now event s = Some s'" and "sv_phase s \<in> {ForceClosing d, Stopped}"
  shows "sv_phase s' \<in> {ForceClosing d, Stopped}"
  using assms
  by (cases event)
     (auto simp: server_step_def accept_loop_def drain_def finish_run_def log_stats_def report_stats_def purge_bans_def
        end_task_def log_line_def set_phase_def Let_def split: if_splits option.splits prod.splits)

lemma run_last_wait:
  "server_run ops t s n now s' \<Longrightarrow> sv_phase s \<in> {ForceClosing d, Stopped} \<Longrightarrow> sv_phase s' \<in> {ForceClosing d, Stopped}"
proof (induction rule: server_run.induct)
  case (run_step n now s now' event s')
  then show ?case using step_last_wait [OF run_step(4)] by simp
qed simp

section \<open>A sample server\<close>

definition sample_server :: "nat socks_server" where
  "sample_server = server_start counting_semaphore 0 minimal_config"

definition sample_client :: socket_addr where
  "sample_client = SockV4 0xCB007107 40000"

lemma sample_accepting: "sv_phase sample_server = Accepting"
  by (simp add: sample_server_def server_start_unfold)

lemma sample_run0: "server_run counting_semaphore 0 (server_start counting_semaphore 0 minimal_config) 0 0 sample_server"
  unfolding sample_server_def by (rule run_start)

lemma sample_run1:
  "server_run counting_semaphore 0 (server_start counting_semaphore 0 minimal_config) 1 5
     (admit counting_semaphore 5 sample_client sample_server)"
  using run_step [OF sample_run0, of 5 "ClientConnects sample_client"]
  by (simp add: server_step_def accept_loop_def sample_accepting Let_def)

lemma sample_admitted:
  "sv_tasks (admit counting_semaphore 5 sample_client sample_server) = [\<lparr>conn_id = 1, peer = sample_client\<rparr>]"
  by (simp add: admit_def sample_server_def server_start_unfold server_state_new_def minimal_config_def
      acl_is_allowed_def sample_client_def is_banned_def ban_list_new_def counting_semaphore_def with_stats_def
      next_connection_id_def Let_def)

section \<open>Properties\<close>

text \<open>\<^bold>\<open>C7.\<close> In every reachable state of the server, whatever clients, connection tasks, timers and the
  shutdown do in whatever order: the open connections and the permits no connection holds add up to
  \<open>max_connections\<close>, so never more than that are open; every client that ever connected is counted in exactly one
  of the four admission counters (modulo their 64-bit width); every open connection belongs to a client the whitelist
  allows. \<open>active_connections\<close>, as the statistics report it, is the number of open connections, except
  while the shutdown waits for them: then it is \<open>max_connections\<close>, since the wait holds every free permit.\<close>

theorem server_accounting:
  assumes "semaphore ops" and "server_run ops t0 (server_start ops t0 config) n now s"
  shows "length (sv_tasks s) \<le> unat (max_connections config) \<and>
    length (sv_tasks s) + available_permits ops (connection_permits (sv_state s)) = unat (max_connections config) \<and>
    accepted (counters s) + rejected_not_whitelisted (counters s) + rejected_banned (counters s) +
      rejected_over_limit (counters s) = of_nat n \<and>
    list_all (\<lambda>c. acl_is_allowed (config_client_acl config) (sock_ip (peer c))) (sv_tasks s) \<and>
    active_connections ops (visible_state ops s) =
      (if deadline_of (sv_phase s) = None then length (sv_tasks s) else unat (max_connections config))"
  using semaphore.reach_permits [OF assms] semaphore.reach_counts_clients [OF assms]
    semaphore.new_available [OF assms(1), of 0]
  by (cases "sv_phase s") (auto simp: permits_ok_def counts_ok_def clients_ok_def admissions_def active_connections_def
      visible_state_def Let_def list_all_iff)

theorem server_accounting_witness:
  "let s = admit counting_semaphore 5 sample_client sample_server
   in length (sv_tasks s) = 1 \<and> active_connections counting_semaphore (visible_state counting_semaphore s) = 1 \<and>
      available_permits counting_semaphore (connection_permits (sv_state s)) = 4095"
  using server_accounting [OF counting.semaphore_axioms sample_run1]
  by (simp add: sample_admitted minimal_config_def admit_same sample_accepting)

text \<open>Connections are told apart by their identifier: as long as fewer than 2^64 clients have
  connected, no two open connections share one.\<close>

theorem connection_ids_unique:
  assumes "semaphore ops" and "server_run ops t0 (server_start ops t0 config) n now s" and "n < 2 ^ 64"
  shows "distinct (map conn_id (sv_tasks s))"
  using semaphore.reach_ids [OF assms] by (simp add: ids_ok_def)

theorem connection_ids_unique_witness:
  "let s = admit counting_semaphore 5 sample_client sample_server
   in map conn_id (sv_tasks s) = [1] \<and> distinct (map conn_id (sv_tasks s))"
  using connection_ids_unique [OF counting.semaphore_axioms sample_run1] by (simp add: sample_admitted)

text \<open>\<^bold>\<open>C10.\<close> A client is admitted exactly when it should be: while the server accepts, a client that connects
  gets a connection task if and only if the whitelist allows its address, it is not banned, and fewer than
  \<open>max_connections\<close> connections are open; otherwise the open connections stay as they are.\<close>

theorem admitted_iff:
  assumes "semaphore ops" and "server_run ops t0 (server_start ops t0 config) n t s" and "sv_phase s = Accepting"
  shows "\<exists>s'. server_step ops now (ClientConnects client) s = Some s' \<and>
    sv_tasks s' = sv_tasks s @
      (if acl_is_allowed (config_client_acl config) (canonical_ip (sock_ip client)) \<and>
          \<not> is_banned (bans s) (canonical_ip (sock_ip client)) now \<and>
          length (sv_tasks s) < unat (max_connections config)
       then [\<lparr>conn_id = last_connection_id (sv_state s) + 1, peer = canonical_sock client\<rparr>] else [])"
proof -
  have p: "permits_ok ops config s" using semaphore.reach_permits [OF assms(1,2)] .
  have "server_step ops now (ClientConnects client) s = Some (admit ops now client s)"
    using assms(3) by (simp add: server_step_def accept_loop_def Let_def)
  moreover have "may_enter now client s \<longleftrightarrow> acl_is_allowed (config_client_acl config) (canonical_ip (sock_ip client)) \<and>
          \<not> is_banned (bans s) (canonical_ip (sock_ip client)) now"
    using p by (simp add: may_enter_def permits_ok_def)
  moreover have "0 < available_permits ops (connection_permits (sv_state s)) \<longleftrightarrow>
      length (sv_tasks s) < unat (max_connections config)"
    using p by (auto simp: permits_ok_def)
  ultimately show ?thesis
    using semaphore.admit_admitted [OF assms(1), of now client s] semaphore.admit_rejected [OF assms(1), of now client s]
    by auto
qed

theorem admitted_iff_witness:
  "\<exists>s'. server_step counting_semaphore 5 (ClientConnects sample_client) sample_server = Some s' \<and>
     sv_tasks s' = [\<lparr>conn_id = 1, peer = sample_client\<rparr>]"
  using admitted_iff [OF counting.semaphore_axioms sample_run0 sample_accepting, of 5 sample_client]
  by (auto simp: sample_server_def server_start_unfold server_state_new_def minimal_config_def acl_is_allowed_def
      sample_client_def is_banned_def ban_list_new_def canonical_sock_def)

text \<open>\<^bold>\<open>C8.\<close> A banned client stays out: if a ban of its address, or of its IPv6 /64, is in force at \<open>t\<close>, then
  however the server runs on from there (failures recorded by connection tasks and purges of the
  background task included), until \<open>ban_duration\<close> has passed since the ban none of its
  connections is admitted.\<close>

theorem banned_client_stays_out:
  assumes "ban_valid bc (bans s)" and "snd (ban_view (bans s) t (ban_key (sock_ip client))) = Some at"
    and "server_run ops t s n t1 s'" and "t1 \<le> now" and "now - at < ban_duration bc"
  shows "sv_tasks (admit ops now client s') = sv_tasks s'"
proof -
  obtain es where es: "bans s' = run_events record_failure purged (bans s) es"
    "list_all (\<lambda>e. event_time e \<le> t1) es"
    using run_bans [OF assms(3)] by blast
  have config: "bl_config (bans s) = bc" "bl_config (bans s') = bc"
    using assms(1) run_events_inv [of "bans s" es] es(1) by (auto simp: ban_valid_def)
  then have "list_all (\<lambda>e. event_time e - at < ban_duration (bl_config (bans s))) es"
    using es(2) assms(4,5) by (auto simp: list_all_iff intro: le_less_trans [OF diff_le_mono])
  from bans_since_run [OF bans_since_view [OF assms(2)] this]
  have "is_banned (bans s') (sock_ip client) now"
    using assms(5) config(2) by (intro bans_since_banned [where at = at]) (simp_all add: es(1))
  then have "is_banned (bans s') (canonical_ip (sock_ip client)) now"
    by (simp add: is_banned_def ban_key_def)
  then show ?thesis
    by (simp add: admit_def log_line_def with_stats_def Let_def)
qed

definition banned_server :: "nat socks_server" where
  "banned_server = sample_server\<lparr>sv_state := (sv_state sample_server)\<lparr>shared :=
     \<lparr>ban_list_of = banned_example, stats = stats_default\<rparr>\<rparr>\<rparr>"

theorem banned_client_stays_out_witness:
  "sv_tasks (admit counting_semaphore 100 (SockV4 7 40000) (admit counting_semaphore 50 (SockV4 7 40001) banned_server)) = []"
proof -
  let ?s = "admit counting_semaphore 50 (SockV4 7 40001) banned_server"
  have p: "sv_phase banned_server = Accepting" "sv_tasks banned_server = []" "bans banned_server = banned_example"
    by (simp_all add: banned_server_def sample_server_def server_start_unfold)
  have valid: "ban_valid small_ban_config (bans banned_server)"
    by (simp add: p ban_valid_def enabled_config_def banned_example_def small_ban_config_def ban_inv_def entry_ok_def)
  have view: "snd (ban_view (bans banned_server) 5 (ban_key (sock_ip (SockV4 7 port)))) = Some 5" for port
    by (simp add: p banned_example_def small_ban_config_def ban_view_def ban_active_def ban_active_at_def ban_key_def
        saturating_duration_since_def)
  have "server_run counting_semaphore 5 banned_server 0 5 banned_server" by (rule run_start)
  from run_step [OF this, of 50 "ClientConnects (SockV4 7 40001)"]
  have r1: "server_run counting_semaphore 5 banned_server 1 50 ?s"
    by (simp add: server_step_def accept_loop_def p Let_def)
  have "server_run counting_semaphore 5 banned_server 0 5 banned_server" by (rule run_start)
  note first = banned_client_stays_out [OF valid view this, of 50 40001]
  then show ?thesis
    using banned_client_stays_out [OF valid view r1, of 100 40000] p(2) by (simp add: small_ban_config_def)
qed

text \<open>\<^bold>\<open>C21.\<close> The shutdown ends. When it is requested during the accept loop, the server stops admitting at
  once: from then on no client is taken and the open connections only become fewer. There are at most two waits. The
  grace period is over \<open>shutdown_grace\<close> later; from that moment on its wait can always end, either with the server
  stopped because every connection has ended, or with the remaining connections ordered to close and a last
  wait of one second. That wait is never prolonged or repeated, and from its deadline on it can always
  end, with the server stopped, whether or not connections are left.\<close>

theorem shutdown_ends:
  assumes "accepting (sv_phase s)"
  shows "\<exists>s1. server_step ops t ShutdownSignal s = Some s1 \<and> sv_tasks s1 = sv_tasks s \<and>
    sv_phase s1 = Draining (t + t_shutdown_grace (config_timeouts (state_config (sv_state s)))) \<and>
    (\<forall>n now s'. server_run ops t s1 n now s' \<longrightarrow>
       n = 0 \<and> set (sv_tasks s') \<subseteq> set (sv_tasks s) \<and>
       (case sv_phase s' of
          Draining d \<Rightarrow> d = t + t_shutdown_grace (config_timeouts (state_config (sv_state s))) \<and>
            (d \<le> now \<longrightarrow> wait_ends_in ops now s' (\<lambda>s''. sv_phase s'' = Stopped \<or>
               sv_phase s'' = ForceClosing (now + from_secs 1) \<and> force_close (sv_state s'')))
        | ForceClosing d \<Rightarrow> d \<le> now + from_secs 1 \<and> force_close (sv_state s') \<and>
            (d \<le> now \<longrightarrow> wait_ends_in ops now s' (\<lambda>s''. sv_phase s'' = Stopped)) \<and>
            (\<forall>m now' s''. server_run ops now s' m now' s'' \<longrightarrow> sv_phase s'' \<in> {ForceClosing d, Stopped})
        | Stopped \<Rightarrow> True
        | _ \<Rightarrow> False))"
proof -
  let ?d = "t + t_shutdown_grace (config_timeouts (state_config (sv_state s)))"
  obtain s1 where s1: "server_step ops t ShutdownSignal s = Some s1" "sv_phase s1 = Draining ?d"
    "sv_tasks s1 = sv_tasks s"
    using assms by (cases "sv_phase s")
      (auto simp: server_step_def accept_loop_def log_line_def set_phase_def Let_def)
  have drains: "n = 0 \<and> set (sv_tasks s') \<subseteq> set (sv_tasks s) \<and> drain_ok ?d now s'"
    if "server_run ops t s1 n now s'" for n now s'
    using run_drains [OF that] run_drain_ok [OF that, of ?d] s1(2,3) by (simp add: drain_ok_def)
  show ?thesis
  proof (intro exI [of _ s1] conjI allI impI s1)
    fix n now s' assume run: "server_run ops t s1 n now s'"
    show "n = 0" "set (sv_tasks s') \<subseteq> set (sv_tasks s)" using drains [OF run] by auto
    show "case sv_phase s' of
        Draining d \<Rightarrow> d = ?d \<and> (d \<le> now \<longrightarrow> wait_ends_in ops now s' (\<lambda>s''. sv_phase s'' = Stopped \<or>
               sv_phase s'' = ForceClosing (now + from_secs 1) \<and> force_close (sv_state s'')))
      | ForceClosing d \<Rightarrow> d \<le> now + from_secs 1 \<and> force_close (sv_state s') \<and>
            (d \<le> now \<longrightarrow> wait_ends_in ops now s' (\<lambda>s''. sv_phase s'' = Stopped)) \<and>
            (\<forall>m now' s''. server_run ops now s' m now' s'' \<longrightarrow> sv_phase s'' \<in> {ForceClosing d, Stopped})
      | Stopped \<Rightarrow> True
      | _ \<Rightarrow> False"
      using drains [OF run] grace_ends [of s'] force_close_ends [of s'] run_last_wait [of ops now s']
      by (auto simp: drain_ok_def split: server_phase.splits)
  qed
qed

theorem shutdown_ends_witness:
  "\<exists>s1. server_step counting_semaphore 7 ShutdownSignal sample_server = Some s1 \<and>
     sv_phase s1 = Draining (7 + from_secs 10) \<and>
     (\<forall>n now s'. server_run counting_semaphore 7 s1 n now s' \<longrightarrow> sv_tasks s' = [])"
proof -
  have a: "accepting (sv_phase sample_server)" by (simp add: sample_accepting)
  have t: "sv_tasks sample_server = []"
    "t_shutdown_grace (config_timeouts (state_config (sv_state sample_server))) = from_secs 10"
    by (simp_all add: sample_server_def server_start_unfold server_state_new_def minimal_config_def)
  from shutdown_ends [OF a, of counting_semaphore 7] show ?thesis unfolding t by auto
qed

end
