(* ===== verification/Scripted_Net.thy ===== *)
theory Scripted_Net
  imports Handshake
begin

text \<open>
  Environments in which the handshake can be followed to its end. The locale \<open>cooperative\<close> is a client
  whose bytes all arrive and take every answer, with nobody else touching the shared state meanwhile;
  \<open>scripted\<close> is such an environment, with a fixed input, fixed answers of resolver and peers and a fixed
  course of the relay.
\<close>

section \<open>Cooperative clients\<close>

definition same_shared :: "'w \<times> shared_state \<Rightarrow> 'w \<times> shared_state \<Rightarrow> bool" where
  "same_shared s s' \<longleftrightarrow> snd s' = snd s"

definition only_env :: "'w conn \<Rightarrow> 'w conn \<Rightarrow> bool" where
  "only_env c c' \<longleftrightarrow> (\<exists>w. c' = c\<lparr>c_env := w\<rparr>)"

locale cooperative =
  fixes net :: "'w net" and input :: "'w \<Rightarrow> u8 list"
  assumes net_u8: "simulates (\<lambda>s. input (fst s)) (read_u8 (net_read net)) (read_u8 slice_reader)"
    and net_u16: "simulates (\<lambda>s. input (fst s)) (read_u16 (net_read net)) (read_u16 slice_reader)"
    and net_exact: "simulates (\<lambda>s. input (fst s)) (read_exact (net_read net) n) (slice_read_exact n)"
    and net_u8_shared: "keeps same_shared (read_u8 (net_read net))"
    and net_u16_shared: "keeps same_shared (read_u16 (net_read net))"
    and net_exact_shared: "keeps same_shared (read_exact (net_read net) n)"
    and net_write: "\<exists>w'. net_write_all net bs (w, sh) = (Ready (Ok ()), (w', sh)) \<and> input w' = input w"

lemma only_env_refl: "only_env c c"
  by (metis conn.surjective conn.update_convs(1) only_env_def)

lemma only_env_trans: "only_env x y \<Longrightarrow> only_env y z \<Longrightarrow> only_env x z"
  by (auto simp: only_env_def)

lemma prim_simulates:
  fixes m :: "('w \<times> shared_state, 'a) async"
  assumes "simulates (\<lambda>s. input (fst s)) m n"
  shows "simulates (\<lambda>c. input (c_env c)) (prim as m) n"
  unfolding simulates_def
proof
  fix c :: "'w conn"
  obtain r w sh where "m (c_env c, c_shared c) = (r, w, sh)" by (metis prod.exhaust)
  moreover from assms have "fst (m (c_env c, c_shared c)) = fst (n (input (c_env c))) \<and>
      input (fst (snd (m (c_env c, c_shared c)))) = snd (n (input (c_env c)))"
    by (simp add: simulates_def)
  ultimately show "fst (prim as m c) = fst (n (input (c_env c))) \<and>
      input (c_env (snd (prim as m c))) = snd (n (input (c_env c)))"
    by (simp add: prim_def)
qed

lemma prim_only_env: "keeps same_shared m \<Longrightarrow> keeps only_env (prim [] m)"
proof -
  assume m: "keeps same_shared m"
  have "only_env c (snd (prim [] m c))" for c
  proof -
    obtain r w sh where r: "m (c_env c, c_shared c) = (r, w, sh)" by (metis prod.exhaust)
    with m have "sh = c_shared c" by (auto simp: same_shared_def dest: keepsD)
    with r show ?thesis by (auto simp: prim_def only_env_def)
  qed
  then show ?thesis by (simp add: keeps_def)
qed

sublocale cooperative \<subseteq> byte_reader "client_reader net" "\<lambda>c. input (c_env c)"
  by unfold_locales (simp_all add: client_reader_def prim_simulates net_u8 net_u16 net_exact)

sublocale cooperative \<subseteq> framed: invariant_reader "client_reader net" only_env
  by unfold_locales
     (auto simp: client_reader_def only_env_refl intro: only_env_trans prim_only_env net_u8_shared
        net_u16_shared net_exact_shared)

section \<open>The phases of a handshake with a cooperative client\<close>

text \<open>The state of a connection, by its fields.\<close>

abbreviation at :: "'w \<Rightarrow> shared_state \<Rightarrow> connection_report \<Rightarrow> action list \<Rightarrow> 'w conn" where
  "at w sh rep tr \<equiv> \<lparr>c_env = w, c_shared = sh, c_report = rep, c_trace = tr\<rparr>"

text \<open>The shared state after one failed authentication of \<open>peer\<close> at \<open>now\<close>.\<close>

definition after_failure :: "connection_context \<Rightarrow> instant \<Rightarrow> shared_state \<Rightarrow> shared_state" where
  "after_failure context now sh =
     \<lparr>ban_list_of = snd (record_failure (ban_list_of sh) (sock_ip (peer context)) now),
      stats = (stats sh)\<lparr>auth_failures := auth_failures (stats sh) + 1\<rparr>\<rparr>"

lemma await_modify [simp]: "await (modify f) k c = k () (f c)"
  by (simp add: modify_def)

lemma await_emit [simp]: "await (emit as) k c = k () (c\<lparr>c_trace := c_trace c @ as\<rparr>)"
  by (simp add: emit_def)

lemma response_bytes: "response_encode SUCCESS = [1, 0]" "response_encode FAILURE = [1, 1]"
  by (simp_all add: response_encode_def SUCCESS_def FAILURE_def socks_consts)

lemma selection_bytes: "selection_encode \<lparr>sel_method = METHOD_USER_PASS\<rparr> = [5, 2]"
    "selection_encode NO_ACCEPTABLE = [5, 0xFF]"
  by (simp_all add: selection_encode_def NO_ACCEPTABLE_def socks_consts)

lemma note_auth_failure_at:
  "note_auth_failure net context (at w sh rep tr) =
     (Ready (fst (record_failure (ban_list_of sh) (sock_ip (peer context)) (net_now net w))),
      at w (after_failure context (net_now net w) sh) rep tr)"
  by (simp add: note_auth_failure_def after_failure_def counter_increment_def counter_add_def
      split: prod.split)

context cooperative
begin

lemma run_framed:
  assumes "simulates (\<lambda>c. input (c_env c)) m n" and "keeps only_env m" and "n (input w) = (r, rest)"
  shows "\<exists>w'. m (at w sh rep tr) = (r, at w' sh rep tr) \<and> input w' = rest"
proof -
  from simulates_run [OF assms(1), of "at w sh rep tr"] assms(3) obtain c'
    where m: "m (at w sh rep tr) = (r, c')" and i: "input (c_env c') = rest" by auto
  from assms(2) m have "only_env (at w sh rep tr) c'" by (rule keepsD)
  with m i show ?thesis by (auto simp: only_env_def)
qed

lemmas read_greeting = run_framed [OF greeting_sim framed.keeps_greeting]
lemmas read_user_pass = run_framed [OF user_pass_sim framed.keeps_user_pass]
lemmas read_request = run_framed [OF request_sim framed.keeps_request]

lemma write_answer:
  "\<exists>w'. client_write_all net bs (at w sh rep tr) = (Ready (Ok ()), at w' sh rep (tr @ [Wrote bs])) \<and>
     input w' = input w"
  using net_write [of bs w sh] by (auto simp: client_write_all_def prim_def)

lemma negotiate_accepts:
  assumes "greeting_read_from slice_reader (input w) = (Ready (Ok g), rest)" and "offers g METHOD_USER_PASS"
  shows "\<exists>w'. negotiate_method net (at w sh rep tr) = (Ready (Ok ()), at w' sh rep (tr @ [Wrote [5, 2]])) \<and>
    input w' = rest"
proof -
  obtain w1 where g: "greeting_read_from (client_reader net) (at w sh rep tr) = (Ready (Ok g), at w1 sh rep tr)"
    and "input w1 = rest"
    using read_greeting [OF assms(1)] by blast
  with write_answer [of "[5, 2]" w1 sh rep tr] show ?thesis
    using assms(2) by (auto simp: negotiate_method_def selection_bytes)
qed

lemma negotiate_refuses:
  assumes "greeting_read_from slice_reader (input w) = (Ready (Ok g), rest)" and "\<not> offers g METHOD_USER_PASS"
  shows "\<exists>w'. negotiate_method net (at w sh rep tr) =
    (Ready (Err NoAcceptableAuthMethod), at w' sh rep (tr @ [Wrote [5, 0xFF]]))"
proof -
  obtain w1 where g: "greeting_read_from (client_reader net) (at w sh rep tr) = (Ready (Ok g), at w1 sh rep tr)"
    using read_greeting [OF assms(1)] by blast
  with write_answer [of "[5, 0xFF]" w1 sh rep tr] show ?thesis
    using assms(2) by (auto simp: negotiate_method_def selection_bytes)
qed

lemma authenticate_accepts:
  assumes "user_pass_read_from slice_reader (input w) = (Ready (Ok cr), rest)"
    and "verify (net_ct_eq net) (users config) (upr_username cr) (upr_password cr) = Some name"
  shows "\<exists>w'. authenticate net config context (at w sh rep tr) = (Ready (Ok ()),
      at w' sh (rep\<lparr>report_user := Some name\<rparr>) (tr @ [Wrote [1, 0]])) \<and> input w' = rest"
proof -
  obtain w1 where g: "user_pass_read_from (client_reader net) (at w sh rep tr) = (Ready (Ok cr), at w1 sh rep tr)"
    and "input w1 = rest"
    using read_user_pass [OF assms(1)] by blast
  with write_answer [of "[1, 0]" w1 sh "rep\<lparr>report_user := Some name\<rparr>" tr] show ?thesis
    using assms(2) by (auto simp: authenticate_def response_bytes)
qed

lemma authenticate_refuses:
  assumes "user_pass_read_from slice_reader (input w) = (Ready (Ok cr), rest)"
    and "verify (net_ct_eq net) (users config) (upr_username cr) (upr_password cr) = None"
  shows "\<exists>w' now. authenticate net config context (at w sh rep tr) = (Ready (Err AuthFailed),
      at w' (after_failure context now sh) rep (tr @ Wrote [1, 1] # auth_failure_lines (net_unicode net) config context cr
          (fst (record_failure (ban_list_of sh) (sock_ip (peer context)) now))))"
proof -
  obtain w1 where g: "user_pass_read_from (client_reader net) (at w sh rep tr) = (Ready (Ok cr), at w1 sh rep tr)"
    using read_user_pass [OF assms(1)] by blast
  moreover obtain w2 where "client_write_all net [1, 1] (at w1 (after_failure context (net_now net w1) sh) rep tr) =
      (Ready (Ok ()), at w2 (after_failure context (net_now net w1) sh) rep (tr @ [Wrote [1, 1]]))"
    using write_answer by blast
  ultimately show ?thesis
    using assms(2) by (intro exI [of _ w2] exI [of _ "net_now net w1"])
      (simp add: authenticate_def response_bytes note_auth_failure_at)
qed

lemma read_connect_accepts:
  assumes "request_read_from slice_reader (input w) = (Ready (Ok r), rest)" and "req_command r = Connect"
  shows "\<exists>w'. read_connect_request net limit (at w sh rep tr) = (Ready (Ok (req_target r)), at w' sh rep tr) \<and>
    input w' = rest"
  using read_request [OF assms(1), of sh rep tr] assms(2) by (auto simp: read_connect_request_def)

lemma handshake_ok:
  assumes "greeting_read_from slice_reader (input w) = (Ready (Ok g), rest1)"
    and "offers g METHOD_USER_PASS"
    and "user_pass_read_from slice_reader rest1 = (Ready (Ok cr), rest2)"
    and "verify (net_ct_eq net) (users config) (upr_username cr) (upr_password cr) = Some name"
    and "request_read_from slice_reader rest2 = (Ready (Ok r), rest3)" and "req_command r = Connect"
  shows "\<exists>w'. handshake net config context (at w sh rep tr) = (Ready (Ok (req_target r)),
      at w' sh (rep\<lparr>report_user := Some name\<rparr>) (tr @ [Wrote [5, 2], Wrote [1, 0]])) \<and> input w' = rest3"
proof -
  obtain w1 where n: "negotiate_method net (at w sh rep tr) = (Ready (Ok ()), at w1 sh rep (tr @ [Wrote [5, 2]]))"
    and "input w1 = rest1"
    using negotiate_accepts [OF assms(1,2)] by blast
  then obtain w2 where a: "authenticate net config context (at w1 sh rep (tr @ [Wrote [5, 2]])) =
      (Ready (Ok ()), at w2 sh (rep\<lparr>report_user := Some name\<rparr>) ((tr @ [Wrote [5, 2]]) @ [Wrote [1, 0]]))"
    and "input w2 = rest2"
    using authenticate_accepts [of w1 cr rest2 config name "context"] assms(3,4) by blast
  then obtain w3 where "read_connect_request net (t_handshake (config_timeouts config))
      (at w2 sh (rep\<lparr>report_user := Some name\<rparr>) ((tr @ [Wrote [5, 2]]) @ [Wrote [1, 0]])) =
      (Ready (Ok (req_target r)), at w3 sh (rep\<lparr>report_user := Some name\<rparr>) ((tr @ [Wrote [5, 2]]) @ [Wrote [1, 0]]))"
    and "input w3 = rest3"
    using read_connect_accepts assms(5,6) by blast
  with n a show ?thesis by (simp add: handshake_def)
qed

lemma handshake_bad_credentials:
  assumes "greeting_read_from slice_reader (input w) = (Ready (Ok g), rest1)"
    and "offers g METHOD_USER_PASS"
    and "user_pass_read_from slice_reader rest1 = (Ready (Ok cr), rest2)"
    and "verify (net_ct_eq net) (users config) (upr_username cr) (upr_password cr) = None"
  shows "\<exists>w' now. handshake net config context (at w sh rep tr) = (Ready (Err AuthFailed),
      at w' (after_failure context now sh) rep (tr @ Wrote [5, 2] # Wrote [1, 1] #
        auth_failure_lines (net_unicode net) config context cr
          (fst (record_failure (ban_list_of sh) (sock_ip (peer context)) now))))"
proof -
  obtain w1 where n: "negotiate_method net (at w sh rep tr) = (Ready (Ok ()), at w1 sh rep (tr @ [Wrote [5, 2]]))"
    and "input w1 = rest1"
    using negotiate_accepts [OF assms(1,2)] by blast
  then obtain w2 now where "authenticate net config context (at w1 sh rep (tr @ [Wrote [5, 2]])) =
      (Ready (Err AuthFailed), at w2 (after_failure context now sh) rep
        ((tr @ [Wrote [5, 2]]) @ Wrote [1, 1] # auth_failure_lines (net_unicode net) config context cr
          (fst (record_failure (ban_list_of sh) (sock_ip (peer context)) now))))"
    using authenticate_refuses [of w1 cr rest2 config "context"] assms(3,4) by blast
  with n show ?thesis by (intro exI [of _ w2] exI [of _ now]) (simp add: handshake_def)
qed

lemma handshake_no_method:
  assumes "greeting_read_from slice_reader (input w) = (Ready (Ok g), rest)" and "\<not> offers g METHOD_USER_PASS"
  shows "\<exists>w'. handshake net config context (at w sh rep tr) =
    (Ready (Err NoAcceptableAuthMethod), at w' sh rep (tr @ [Wrote [5, 0xFF]]))"
  using negotiate_refuses [OF assms, of sh rep tr] by (auto simp: handshake_def)

end

section \<open>A connection served to its end\<close>

text \<open>An environment in which, besides the client, timers, tuning, the peer at \<open>dest\<close> and the relay
  do their part and nothing is cancelled.\<close>

locale obliging = cooperative net input for net :: "'w net" and input +
  fixes dest :: socket_addr and course :: "instant \<times> relay_event list"
  assumes arm_input: "input (net_arm net d w) = input w"
    and disarm_input: "input (snd (net_disarm net w)) = input w"
    and sockets_accept: "socket_accepts (net_client_socket net)" "socket_accepts (net_target_socket net)"
    and client_socket_input: "socket_keeps (\<lambda>w w'. input w' = input w) (net_client_socket net)"
    and connect_ok: "\<exists>w'. net_connect net dest (w, sh) = (Ready (Ok ()), (w', sh))"
    and relay_course: "\<exists>w'. net_relay net d (w, sh) = (course, w', sh)"
    and not_cancelled: "\<exists>w'. net_cancelled net w = (False, w') \<and> input w' = input w"

text \<open>The resolver's answers, with the lookup it takes.\<close>

definition resolves :: "'w net \<Rightarrow> target_addr \<Rightarrow> socket_addr list \<Rightarrow> bool" where
  "resolves net target addrs \<longleftrightarrow> (case target of
     Ip a \<Rightarrow> addrs = [a]
   | DomainHost host port \<Rightarrow>
       (\<forall>w sh. \<exists>w'. net_lookup_host net host port (w, sh) = (Ready (Ok addrs), (w', sh))))"

definition lookups :: "target_addr \<Rightarrow> action list" where
  "lookups target = (case target of Ip _ \<Rightarrow> [] | DomainHost host port \<Rightarrow> [Resolved host port])"

lemma timeout_Ready:
  assumes "m (at (net_arm net limit w) sh rep tr) = (Ready a, at w1 sh1 rep1 tr1)"
  shows "timeout net limit m (at w sh rep tr) = (Ready (Ok a), at (snd (net_disarm net w1)) sh1 rep1 tr1)"
  using assms by (simp add: timeout_def split: prod.split)

lemma prim_at: "m (w, sh) = (r, w', sh') \<Longrightarrow> prim as m (at w sh rep tr) = (r, at w' sh' rep (tr @ as))"
  by (simp add: prim_def)

text \<open>The course of the relay, and what the log line and the counters say of a client served over it.\<close>

definition relay_of :: "server_config \<Rightarrow> instant \<times> relay_event list \<Rightarrow> relay_state" where
  "relay_of config course =
     relay_run (t_idle (config_timeouts config)) (relay_new (fst course) (t_idle (config_timeouts config))) (snd course)"

definition served_report :: "string \<Rightarrow> target_addr \<Rightarrow> socket_addr \<Rightarrow> relay_counters \<Rightarrow> connection_report" where
  "served_report name target dest counters = \<lparr>report_user = Some name, report_target = Some (target_show target),
     report_target_addr = Some dest, report_counters = counters\<rparr>"

definition add_bytes :: "relay_counters \<Rightarrow> shared_state \<Rightarrow> shared_state" where
  "add_bytes counters sh = sh\<lparr>stats := (stats sh)\<lparr>
     bytes_in := bytes_in (stats sh) + of_nat (client_to_target counters),
     bytes_out := bytes_out (stats sh) + of_nat (target_to_client counters)\<rparr>\<rparr>"

lemma close_connection_relayed:
  "close_connection net context started (close_of_relay_end result) (at w sh rep tr) =
     at w (add_bytes (report_counters rep) sh) rep (tr @ [LogClosed (closed_line_of context rep
       (close_of_relay_end result) (saturating_duration_since (net_now net w) started))])"
  by (cases result) (simp_all add: close_connection_def add_bytes_def counter_add_def Let_def)

context obliging
begin

lemma dial_target_ok:
  assumes "resolves net target addrs"
    and "select_allowed (policy_check policy) [] None addrs = (dest # others, denial)"
  shows "\<exists>w'. dial_target net policy target (at w sh rep tr) =
    (Ready (Ok \<lparr>ct_stream = (), ct_addr = dest\<rparr>), at w' sh rep (tr @ lookups target @ [Dialled dest]))"
proof -
  let ?lookup = "\<lambda>host port. prim [Resolved host port] (net_lookup_host net host port)"
  have "\<exists>w1. resolve_target ?lookup target (at w sh rep tr) =
      (Ready (Ok addrs), at w1 sh rep (tr @ lookups target))"
  proof (cases target)
    case (Ip a)
    with assms(1) show ?thesis by (auto simp: resolve_target_def resolves_def lookups_def)
  next
    case (DomainHost host port)
    with assms(1) obtain w1 where "net_lookup_host net host port (w, sh) = (Ready (Ok addrs), (w1, sh))"
      by (auto simp: resolves_def)
    with prim_at [of "net_lookup_host net host port", OF this] DomainHost show ?thesis by (auto simp: resolve_target_def lookups_def)
  qed
  then obtain w1 where r: "resolve_target ?lookup target (at w sh rep tr) =
      (Ready (Ok addrs), at w1 sh rep (tr @ lookups target))" by blast
  obtain w2 where "net_connect net dest (w1, sh) = (Ready (Ok ()), (w2, sh))" using connect_ok by blast
  note c = prim_at [of "net_connect net dest", OF this, of "[Dialled dest]" rep "tr @ lookups target"]
  show ?thesis
    using r assms(2) c by (simp add: dial_target_def connect_to_target_def MAX_CONNECT_ATTEMPTS_def)
qed

lemma tune_client_at: "\<exists>w'. tune_client net context (at w sh rep tr) = (Ready (), at w' sh rep tr) \<and> input w' = input w"
  using tune_accepts [OF sockets_accept(1), of w] tune_keeps [OF client_socket_input, of w]
  by (auto simp: tune_client_def emit_def modify_def split: prod.split)

lemma tune_target_at: "\<exists>w'. tune_target net context (at w sh rep tr) = (Ready (), at w' sh rep tr)"
  using tune_accepts [OF sockets_accept(2), of w] by (auto simp: tune_target_def emit_def modify_def split: prod.split)

lemma relay_tcp_at:
  assumes "relay_result (relay_run idle (relay_new (fst course) idle) (snd course)) = Some result"
  shows "\<exists>w'. relay_tcp net idle (at w sh rep tr) = (Ready result, at w' sh
    (rep\<lparr>report_counters := counters_of (relay_run idle (relay_new (fst course) idle) (snd course))\<rparr>) tr)"
proof -
  obtain w' where "net_relay net idle (w, sh) = (course, w', sh)" using relay_course by blast
  with assms show ?thesis by (cases course) (simp add: relay_tcp_def)
qed

lemma serve_target_ok:
  assumes "resolves net target addrs"
    and "select_allowed (policy_check (config_policy config)) [] None addrs = (dest # others, denial)"
    and "relay_result (relay_run (t_idle (config_timeouts config))
      (relay_new (fst course) (t_idle (config_timeouts config))) (snd course)) = Some result"
  shows "\<exists>w'. serve_target net config context target (at w sh rep tr) = (Ready (close_of_relay_end result),
    at w' sh (rep\<lparr>report_target_addr := Some dest, report_counters := counters_of (relay_run
        (t_idle (config_timeouts config)) (relay_new (fst course) (t_idle (config_timeouts config))) (snd course))\<rparr>)
      (tr @ lookups target @ [Dialled dest, Wrote (reply_encode (reply_new Succeeded))]))"
proof -
  let ?lim = "config_timeouts config"
  let ?arm = "net_arm net (t_connect ?lim) w"
  let ?tr1 = "tr @ lookups target @ [Dialled dest]"
  let ?rep1 = "rep\<lparr>report_target_addr := Some dest\<rparr>"
  let ?bytes = "reply_encode (reply_new Succeeded)"
  obtain w1 where "dial_target net (config_policy config) target (at ?arm sh rep tr) =
      (Ready (Ok \<lparr>ct_stream = (), ct_addr = dest\<rparr>), at w1 sh rep ?tr1)"
    using dial_target_ok [OF assms(1,2)] by blast
  note dial = timeout_Ready [of "dial_target net (config_policy config) target", OF this]
  obtain w2 where tune: "tune_target net context (at (snd (net_disarm net w1)) sh ?rep1 ?tr1) =
      (Ready (), at w2 sh ?rep1 ?tr1)"
    using tune_target_at by blast
  obtain w3 where "client_write_all net ?bytes (at (net_arm net (t_handshake ?lim) w2) sh ?rep1 ?tr1) =
      (Ready (Ok ()), at w3 sh ?rep1 (?tr1 @ [Wrote ?bytes]))"
    using write_answer by blast
  note wrote = timeout_Ready [of "client_write_all net ?bytes", OF this]
  obtain w4 where "relay_tcp net (t_idle ?lim) (at (snd (net_disarm net w3)) sh ?rep1 (?tr1 @ [Wrote ?bytes])) =
      (Ready result, at w4 sh (?rep1\<lparr>report_counters := counters_of (relay_run (t_idle ?lim)
        (relay_new (fst course) (t_idle ?lim)) (snd course))\<rparr>) (?tr1 @ [Wrote ?bytes]))"
    using relay_tcp_at [OF assms(3)] by blast
  with dial tune wrote show ?thesis
    by (intro exI [of _ w4]) (simp add: serve_target_def Let_def)
qed

lemma run_connection_ok:
  assumes hs: "\<And>w. input w = bytes \<Longrightarrow> \<exists>w'. handshake net config context (at w sh rep tr) =
      (Ready (Ok target), at w' sh rep1 tr1)"
    and serve: "\<And>w. \<exists>w'. serve_target net config context target
      (at w sh (rep1\<lparr>report_target := Some (target_show target)\<rparr>) tr1) = (Ready reason, at w' sh rep2 tr2)"
    and "input w = bytes"
  shows "\<exists>w'. run_connection net config context (at w sh rep tr) = (Ready reason, at w' sh rep2 tr2)"
proof -
  let ?limit = "t_handshake (config_timeouts config)"
  obtain w1 where tune: "tune_client net context (at w sh rep tr) = (Ready (), at w1 sh rep tr)"
    and w1: "input w1 = bytes"
    using tune_client_at assms(3) by blast
  then obtain w2 where "handshake net config context (at (net_arm net ?limit w1) sh rep tr) =
      (Ready (Ok target), at w2 sh rep1 tr1)"
    using hs arm_input by metis
  note h = timeout_Ready [of "handshake net config context", OF this]
  obtain w3 where "serve_target net config context target
      (at (snd (net_disarm net w2)) sh (rep1\<lparr>report_target := Some (target_show target)\<rparr>) tr1) =
      (Ready reason, at w3 sh rep2 tr2)"
    using serve by blast
  with tune h show ?thesis by (intro exI [of _ w3]) (simp add: run_connection_def)
qed

lemma serve_connection_ok:
  assumes "greeting_read_from slice_reader (input (c_env c)) = (Ready (Ok g), rest1)"
    and "offers g METHOD_USER_PASS"
    and "user_pass_read_from slice_reader rest1 = (Ready (Ok cr), rest2)"
    and "verify (net_ct_eq net) (users config) (upr_username cr) (upr_password cr) = Some name"
    and "request_read_from slice_reader rest2 = (Ready (Ok r), rest3)" and "req_command r = Connect"
    and "resolves net (req_target r) addrs"
    and "select_allowed (policy_check (config_policy config)) [] None addrs = (dest # others, denial)"
    and "relay_result (relay_of config course) = Some result"
  shows "\<exists>dur w'. serve_connection net config context c =
    (let rep = served_report name (req_target r) dest (counters_of (relay_of config course));
         reason = close_of_relay_end result
     in (reason, at w' (add_bytes (report_counters rep) (c_shared c)) rep
          (c_trace c @ [Wrote [5, 2], Wrote [1, 0]] @ lookups (req_target r) @
           [Dialled dest, Wrote (reply_encode (reply_new Succeeded)), LogClosed (closed_line_of context rep reason dur)])))"
proof -
  let ?rep = "served_report name (req_target r) dest (counters_of (relay_of config course))"
  let ?tr = "c_trace c @ [Wrote [5, 2], Wrote [1, 0]]"
  obtain w where w: "net_cancelled net (c_env c) = (False, w)" "input w = input (c_env c)"
    using not_cancelled by blast
  have "\<exists>w'. run_connection net config context (at w (c_shared c) report_default (c_trace c)) =
      (Ready (close_of_relay_end result), at w' (c_shared c) ?rep
        (?tr @ lookups (req_target r) @ [Dialled dest, Wrote (reply_encode (reply_new Succeeded))]))"
  proof (rule run_connection_ok [where ?target = "req_target r"])
    show "\<exists>w'. handshake net config context (at v (c_shared c) report_default (c_trace c)) =
        (Ready (Ok (req_target r)), at w' (c_shared c) (report_default\<lparr>report_user := Some name\<rparr>) ?tr)"
      if "input v = input w" for v
    proof -
      have "greeting_read_from slice_reader (input v) = (Ready (Ok g), rest1)"
        using assms(1) that w(2) by simp
      from handshake_ok [OF this assms(2-6)] show ?thesis by blast
    qed
    show "\<exists>w'. serve_target net config context (req_target r) (at v (c_shared c)
          (report_default\<lparr>report_user := Some name, report_target := Some (target_show (req_target r))\<rparr>) ?tr) =
        (Ready (close_of_relay_end result), at w' (c_shared c) ?rep
          (?tr @ lookups (req_target r) @ [Dialled dest, Wrote (reply_encode (reply_new Succeeded))]))" for v
      using serve_target_ok [OF assms(7,8) assms(9) [unfolded relay_of_def], of "context" v "c_shared c"
        "report_default\<lparr>report_user := Some name, report_target := Some (target_show (req_target r))\<rparr>" ?tr]
      by (simp add: served_report_def report_default_def relay_of_def)
  qed simp
  then obtain w' where run: "run_connection net config context (at w (c_shared c) report_default (c_trace c)) =
      (Ready (close_of_relay_end result), at w' (c_shared c) ?rep
        (?tr @ lookups (req_target r) @ [Dialled dest, Wrote (reply_encode (reply_new Succeeded))]))" by blast
  have eq: "c\<lparr>c_report := report_default, c_env := w\<rparr> = at w (c_shared c) report_default (c_trace c)"
    by (cases c) simp
  show ?thesis
    using w(1) run [folded eq] by (intro exI [of _ "saturating_duration_since (net_now net w') (net_now net (c_env c))"] exI [of _ w'])
      (simp add: serve_connection_def Let_def close_connection_relayed)
qed

end

section \<open>A scripted environment\<close>

definition lift_input :: "(u8 list, 'a) async \<Rightarrow> (u8 list \<times> shared_state, 'a) async" where
  "lift_input m = (\<lambda>(inp, sh). case m inp of (r, rest) \<Rightarrow> (r, rest, sh))"

definition willing_socket :: "'w socket_ops" where
  "willing_socket = \<lparr>set_nodelay = (\<lambda>_ w. (Ok (), w)), set_tcp_keepalive = (\<lambda>_ w. (Ok (), w)),
     set_tcp_user_timeout = (\<lambda>_ w. (Ok (), w))\<rparr>"

lemma willing_socket:
  "tune_tcp_stream willing_socket w = (Ok (), w)" "socket_accepts willing_socket"
  "(\<And>w. R w w) \<Longrightarrow> socket_keeps R willing_socket"
  by (simp_all add: willing_socket_def tune_tcp_stream_def socket_accepts_def socket_keeps_def)

definition scripted :: "(string \<Rightarrow> u16 \<Rightarrow> io_error + socket_addr list) \<Rightarrow> (socket_addr \<Rightarrow> io_error + unit) \<Rightarrow>
    instant \<times> relay_event list \<Rightarrow> u8 list net" where
  "scripted answers answer course = \<lparr>
     net_read = \<lparr>read_u8 = lift_input (read_u8 slice_reader), read_u16 = lift_input (read_u16 slice_reader),
                 read_exact = (\<lambda>n. lift_input (slice_read_exact n))\<rparr>,
     net_write_all = (\<lambda>bs s. (Ready (Ok ()), s)),
     net_lookup_host = (\<lambda>h p s. (Ready (answers h p), s)),
     net_connect = (\<lambda>a s. (Ready (answer a), s)),
     net_client_socket = willing_socket, net_target_socket = willing_socket,
     net_arm = (\<lambda>d w. w), net_disarm = (\<lambda>w. (False, w)),
     net_relay = (\<lambda>d s. (course, s)), net_cancelled = (\<lambda>w. (False, w)),
     net_now = (\<lambda>w. 0), net_ct_eq = (=),
     net_unicode = \<lparr>table_printable = (\<lambda>x. 160 \<le> x), grapheme_extend = (\<lambda>_. False)\<rparr>\<rparr>"

lemma lift_input_simulates: "simulates fst (lift_input m) m"
  by (auto simp: simulates_def lift_input_def split: prod.split)

lemma lift_input_shared: "keeps same_shared (lift_input m)"
  by (auto simp: keeps_def same_shared_def lift_input_def split: prod.split)

interpretation scripted_client: cooperative "scripted answers answer course" id
  by unfold_locales (simp_all add: scripted_def lift_input_simulates lift_input_shared)

interpretation scripted_world: obliging "scripted answers (\<lambda>_. Ok ()) course" id dest course
  by unfold_locales (simp_all add: scripted_def willing_socket)

section \<open>A sample client\<close>

text \<open>Alice asks for port 443 of 8.8.8.8, sends three bytes and closes; so does the target.\<close>

definition sample_target :: socket_addr where
  "sample_target = SockV4 0x08080808 443"

definition sample_context :: connection_context where
  "sample_context = \<lparr>conn_id = 1, peer = SockV4 0xCB007107 40000\<rparr>"

definition sample_course :: "instant \<times> relay_event list" where
  "sample_course = (0, sample_events)"

definition sample_net :: "u8 list net" where
  "sample_net = scripted (\<lambda>_ _. Ok []) (\<lambda>_. Ok ()) sample_course"

definition login_bytes :: "u8 list" where
  "login_bytes = [5, 1, 2] @ [1, 5, 97, 108, 105, 99, 101, 2, 112, 119]"

definition sample_conn :: "u8 list conn" where
  "sample_conn = at (login_bytes @ [5, 1, 0, 1, 8, 8, 8, 8, 1, 187])
     \<lparr>ban_list_of = ban_list_new (ban minimal_config), stats = stats_default\<rparr> report_default []"

lemma sample_greeting:
  "greeting_read_from slice_reader (login_bytes @ rest) =
     (Ready (Ok \<lparr>methods = [2]\<rparr>), [1, 5, 97, 108, 105, 99, 101, 2, 112, 119] @ rest)"
  by (simp add: greeting_read_from_def login_bytes_def socks_consts slice_read_exact_def)

lemma sample_user_pass:
  "user_pass_read_from slice_reader ([1, 5, 97, 108, 105, 99, 101, 2, 112, 119] @ rest) =
     (Ready (Ok \<lparr>upr_username = as_bytes ''alice'', upr_password = as_bytes ''pw''\<rparr>), rest)"
proof -
  let ?u = "\<lparr>upr_username = as_bytes ''alice'', upr_password = as_bytes ''pw''\<rparr>"
  have wf: "user_pass_wf ?u" by (simp add: user_pass_wf_def)
  moreover have "user_pass_encode ?u = Ok [1, 5, 97, 108, 105, 99, 101, 2, 112, 119]"
    using wf by (simp add: user_pass_encode_eq socks_consts as_bytes_def byte_of_char_def)
  ultimately show ?thesis by (rule user_pass_codec.read_encode)
qed

lemma sample_verify:
  "verify (net_ct_eq sample_net) (users minimal_config) (as_bytes ''alice'') (as_bytes ''pw'') = Some ''alice''"
  using verify_Some_iff [OF _ alice_store, of "(=)" "as_bytes ''alice''" "as_bytes ''pw''" "''alice''"]
  by (simp add: ct_eq_spec_def sample_net_def scripted_def minimal_config_def alice_def)

lemma sample_request:
  "request_read_from slice_reader [5, 1, 0, 1, 8, 8, 8, 8, 1, 187] =
     (Ready (Ok \<lparr>req_command = Connect, req_target = Ip sample_target\<rparr>), [])"
proof -
  let ?r = "\<lparr>req_command = Connect, req_target = Ip sample_target\<rparr>"
  have wf: "request_wf ?r" by (simp add: request_wf_def sample_target_def)
  moreover have "request_encode ?r = Ok [5, 1, 0, 1, 8, 8, 8, 8, 1, 187]"
    using wf by (simp add: request_encode_eq request_wf_def sample_target_def socks_consts v4_octets_split
        v4_octet_def be_bytes_2)
  ultimately have "request_read_from slice_reader ([5, 1, 0, 1, 8, 8, 8, 8, 1, 187] @ []) = (Ready (Ok ?r), [])"
    by (rule request_codec.read_encode)
  then show ?thesis by simp
qed

lemma sample_allowed: "policy_check (config_policy minimal_config) sample_target = Ok ()"
  by (simp add: policy_check_def minimal_config_def sample_target_def is_whitelisted_def classify_ip_def
      classify_v4_def v4_octets_split v4_octet_def v4_is_loopback_def v4_is_link_local_def v4_is_private_def Let_def)

lemma sample_relay:
  "relay_result (relay_of minimal_config sample_course) = Some relay_end.Completed"
  "counters_of (relay_of minimal_config sample_course) = \<lparr>client_to_target = 3, target_to_client = 0\<rparr>"
  by (simp_all add: relay_of_def sample_course_def sample_events_def relay_eval counters_of_def minimal_config_def)

lemma sample_served:
  "\<exists>dur w'. serve_connection sample_net minimal_config sample_context sample_conn =
    (let rep = served_report ''alice'' (Ip sample_target) sample_target \<lparr>client_to_target = 3, target_to_client = 0\<rparr>;
         reason = close_of_relay_end relay_end.Completed
     in (reason, at w' (add_bytes (report_counters rep) (c_shared sample_conn)) rep
          ([Wrote [5, 2], Wrote [1, 0]] @ lookups (Ip sample_target) @
           [Dialled sample_target, Wrote (reply_encode (reply_new Succeeded)),
            LogClosed (closed_line_of sample_context rep reason dur)])))"
proof -
  have g: "greeting_read_from slice_reader (id (c_env sample_conn)) = (Ready (Ok \<lparr>methods = [2]\<rparr>),
      [1, 5, 97, 108, 105, 99, 101, 2, 112, 119] @ [5, 1, 0, 1, 8, 8, 8, 8, 1, 187])"
    using sample_greeting by (simp add: sample_conn_def)
  have o: "offers \<lparr>methods = [2]\<rparr> METHOD_USER_PASS" by (simp add: offers_def socks_consts)
  have r: "resolves sample_net (Ip sample_target) [sample_target]" by (simp add: resolves_def)
  have "canonical_ip (sock_ip sample_target) = sock_ip sample_target" by (simp add: sample_target_def)
  then have s: "select_allowed (policy_check (config_policy minimal_config)) [] None [sample_target] =
      (sample_target # [], None)"
    using sample_allowed by (simp add: sample_target_def)
  show ?thesis
    using scripted_world.serve_connection_ok [OF g o sample_user_pass, of "\<lambda>_ _. Ok []" sample_course minimal_config
        "''alice''" "\<lparr>req_command = Connect, req_target = Ip sample_target\<rparr>" "[]" "[sample_target]"
        sample_target "[]" None relay_end.Completed sample_context, folded sample_net_def]
      sample_verify sample_request r s sample_relay
    by (simp add: sample_conn_def)
qed

end
