(* ===== verification/Connection_Safety.thy ===== *)
theory Connection_Safety
  imports Scripted_Net "HOL-Library.Sublist"
begin

text \<open>
  What a connection never does, in any environment: dial before the client has authenticated, dial an
  address the policy refuses, announce success without a connection, or end without its one log
  line. \<open>acts\<close> carries such statements through the code: the actions a future adds to the trace
  satisfy a predicate, and, when asked for, the authenticated user stays the same.
\<close>

section \<open>Tracking actions\<close>

definition within :: "(action \<Rightarrow> bool) \<Rightarrow> bool \<Rightarrow> 'w conn \<Rightarrow> 'w conn \<Rightarrow> bool" where
  "within Q keep c c' \<longleftrightarrow>
     (\<exists>acts. c_trace c' = c_trace c @ acts \<and> list_all Q acts) \<and>
     (keep \<longrightarrow> report_user (c_report c') = report_user (c_report c))"

abbreviation acts :: "(action \<Rightarrow> bool) \<Rightarrow> bool \<Rightarrow> ('w conn, 'a) async \<Rightarrow> bool" where
  "acts Q keep m \<equiv> keeps (within Q keep) m"

lemma within_refl [simp]: "within Q keep c c"
  by (simp add: within_def)

lemma within_trans: "within Q keep x y \<Longrightarrow> within Q keep y z \<Longrightarrow> within Q keep x z"
  by (auto simp: within_def)

lemma acts_ready: "acts Q keep (ready a)"
  by (simp add: keeps_ready)

lemma acts_await: "acts Q keep m \<Longrightarrow> (\<And>a. acts Q keep (k a)) \<Longrightarrow> acts Q keep (await m k)"
  by (rule keeps_await [OF within_trans])

lemma acts_try_await: "acts Q keep m \<Longrightarrow> (\<And>a. acts Q keep (k a)) \<Longrightarrow> acts Q keep (try_await m conv k)"
  by (rule keeps_try_await [OF within_refl within_trans])

lemma acts_prim: "list_all Q as \<Longrightarrow> acts Q keep (prim as m)"
  by (auto simp: keeps_def within_def prim_def split: prod.split)

lemma acts_write: "Q (Wrote bytes) \<Longrightarrow> acts Q keep (client_write_all net bytes)"
  unfolding client_write_all_def by (rule acts_prim) simp

lemma acts_emit: "list_all Q as \<Longrightarrow> acts Q keep (emit as)"
  by (auto simp: keeps_def within_def emit_def modify_def)

lemma acts_modify:
  "(\<And>c. c_trace (f c) = c_trace c \<and> (keep \<longrightarrow> report_user (c_report (f c)) = report_user (c_report c))) \<Longrightarrow>
     acts Q keep (modify f)"
  by (simp add: keeps_def within_def modify_def)

lemma acts_reads:
  "acts Q keep (read_u8 (client_reader net))"
  "acts Q keep (read_u16 (client_reader net))"
  "acts Q keep (read_exact (client_reader net) n)"
  by (simp_all add: client_reader_def acts_prim)

lemma timeout_snd:
  "snd (timeout net limit m c) =
     (let c1 = snd (m (c\<lparr>c_env := net_arm net limit (c_env c)\<rparr>)) in c1\<lparr>c_env := snd (net_disarm net (c_env c1))\<rparr>)"
  by (auto simp: timeout_def Let_def split: prod.split polled.split)

lemma acts_timeout: "acts Q keep m \<Longrightarrow> acts Q keep (timeout net limit m)"
  unfolding keeps_def timeout_snd
proof
  fix c
  assume m: "\<forall>s. within Q keep s (snd (m s))"
  have "within Q keep (c\<lparr>c_env := net_arm net limit (c_env c)\<rparr>) (snd (m (c\<lparr>c_env := net_arm net limit (c_env c)\<rparr>)))"
    using m by blast
  then show "within Q keep c (let c1 = snd (m (c\<lparr>c_env := net_arm net limit (c_env c)\<rparr>))
      in c1\<lparr>c_env := snd (net_disarm net (c_env c1))\<rparr>)"
    by (simp add: within_def Let_def)
qed

lemmas acts_intros = acts_ready acts_await acts_try_await acts_write acts_emit acts_reads acts_timeout

interpretation acts_reader: invariant_reader "client_reader net" "within Q keep"
  by unfold_locales (auto intro: within_trans acts_reads)

lemmas acts_messages = acts_reader.keeps_greeting acts_reader.keeps_user_pass acts_reader.keeps_request

section \<open>The handshake\<close>

lemma acts_send_reply: "Q (Wrote (reply_encode (reply_new code))) \<Longrightarrow> acts Q keep (send_reply net code limit)"
  unfolding send_reply_def by (intro acts_intros)

lemma acts_negotiate:
  "Q (Wrote [5, 2]) \<Longrightarrow> Q (Wrote [5, 0xFF]) \<Longrightarrow> acts Q keep (negotiate_method net)"
  unfolding negotiate_method_def Let_def
  by (auto intro!: acts_intros acts_messages
      simp: selection_encode_def NO_ACCEPTABLE_def socks_consts)

lemma acts_note_failure: "acts Q keep (note_auth_failure net context)"
  by (auto simp: keeps_def within_def note_auth_failure_def Let_def split: prod.split)

text \<open>What authentication may do: two answers and log lines.\<close>

definition auth_action :: "action \<Rightarrow> bool" where
  "auth_action a \<longleftrightarrow> (case a of Wrote bs \<Rightarrow> bs \<in> {[1, 0], [1, 1]} | LogAuthFailed _ _ _ _ \<Rightarrow> True
     | LogBanned _ _ _ \<Rightarrow> True | LogUntracked _ \<Rightarrow> True | _ \<Rightarrow> False)"

lemma acts_authenticate_lines:
  assumes "Q (Wrote [1, 0])" "Q (Wrote [1, 1])"
    and lines: "\<And>cr v. list_all Q (auth_failure_lines (net_unicode net) config context cr v)"
  shows "acts Q False (authenticate net config context)"
proof -
  have w: "Q (Wrote (response_encode SUCCESS))" "Q (Wrote (response_encode FAILURE))"
    using assms(1,2) by (simp_all add: response_encode_def SUCCESS_def FAILURE_def socks_consts)
  show ?thesis
    unfolding authenticate_def
    by (auto intro!: acts_intros acts_messages acts_note_failure acts_modify w lines split: option.split)
qed

lemma acts_authenticate:
  assumes "\<And>a. auth_action a \<Longrightarrow> Q a"
  shows "acts Q False (authenticate net config context)"
proof (rule acts_authenticate_lines)
  show "list_all Q (auth_failure_lines (net_unicode net) config context cr v)" for cr v
    by (cases v) (auto intro!: assms simp: auth_failure_lines_def auth_action_def)
qed (auto intro!: assms simp: auth_action_def)

lemma acts_read_connect:
  assumes "\<And>code. reply_code_as_byte code \<noteq> 0 \<Longrightarrow> Q (Wrote (reply_encode (reply_new code)))"
  shows "acts Q keep (read_connect_request net limit)"
  unfolding read_connect_request_def
  by (rule acts_await [OF acts_messages(3)])
     (auto intro!: acts_ready acts_await acts_send_reply assms split: sum.split protocol_error.split command.split)

text \<open>Actions of the handshake: the protocol's answers short of success, and log lines.\<close>

definition handshake_action :: "action \<Rightarrow> bool" where
  "handshake_action a \<longleftrightarrow> auth_action a \<or> a \<in> {Wrote [5, 2], Wrote [5, 0xFF]} \<or>
     (\<exists>code. reply_code_as_byte code \<noteq> 0 \<and> a = Wrote (reply_encode (reply_new code))) \<or>
     (\<exists>i e. a = LogTuneFailed i e)"

lemma acts_handshake: "acts handshake_action False (handshake net config context)"
  unfolding handshake_def
  by (intro acts_intros acts_negotiate acts_authenticate acts_read_connect)
     (auto simp: handshake_action_def)

text \<open>In the trace \<open>tr\<close> of a connection, the user \<open>name\<close> has logged in: at some point its credentials were read
  from the client, and the client was then told so.\<close>

definition logged_in :: "'w net \<Rightarrow> server_config \<Rightarrow> string \<Rightarrow> action list \<Rightarrow> bool" where
  "logged_in net config name tr \<longleftrightarrow> (\<exists>c1 credentials c2.
     user_pass_read_from (client_reader net) c1 = (Ready (Ok credentials), c2) \<and>
     verify (net_ct_eq net) (users config) (upr_username credentials) (upr_password credentials) = Some name \<and>
     prefix (c_trace c2 @ [Wrote [1, 0]]) tr)"

definition authenticated :: "'w net \<Rightarrow> server_config \<Rightarrow> 'w conn \<Rightarrow> bool" where
  "authenticated net config c \<longleftrightarrow>
     (\<exists>name. report_user (c_report c) = Some name \<and> logged_in net config name (c_trace c))"

lemma logged_in_extend: "logged_in net config name tr \<Longrightarrow> logged_in net config name (tr @ xs)"
  unfolding logged_in_def by (metis prefix_prefix)

lemma authenticated_within: "authenticated net config c \<Longrightarrow> within Q True c c' \<Longrightarrow> authenticated net config c'"
  by (auto simp: authenticated_def within_def logged_in_extend)

lemma authenticate_Ok:
  assumes "authenticate net config context c = (Ready (Ok x), c')"
  shows "authenticated net config c'"
proof -
  from assms obtain cr c1 where read: "user_pass_read_from (client_reader net) c = (Ready (Ok cr), c1)"
    and k: "(case verify (net_ct_eq net) (users config) (upr_username cr) (upr_password cr) of
       Some user \<Rightarrow>
         await (modify (\<lambda>c. c\<lparr>c_report := (c_report c)\<lparr>report_user := Some user\<rparr>\<rparr>)) (\<lambda>_.
         await (client_write_all net (response_encode SUCCESS)) (\<lambda>r.
         ready (map_err HandshakeIo r)))
     | None \<Rightarrow>
         await (note_auth_failure net context) (\<lambda>verdict.
         await (client_write_all net (response_encode FAILURE)) (\<lambda>_.
         await (emit (auth_failure_lines (net_unicode net) config context cr verdict)) (\<lambda>_.
         ready (Err AuthFailed))))) c1 = (Ready (Ok x), c')"
    unfolding authenticate_def by (rule try_await_OkE)
  show ?thesis
  proof (cases "verify (net_ct_eq net) (users config) (upr_username cr) (upr_password cr)")
    case None
    with k show ?thesis by (auto elim!: await_ReadyE)
  next
    case (Some user)
    have "await (client_write_all net [1, 0]) (\<lambda>r. ready (map_err HandshakeIo r))
        (c1\<lparr>c_report := (c_report c1)\<lparr>report_user := Some user\<rparr>\<rparr>) = (Ready (Ok x), c')"
      using k Some by (simp add: response_bytes)
    then have "c_trace c' = c_trace c1 @ [Wrote [1, 0]]" and "report_user (c_report c') = Some user"
      by (auto simp: client_write_all_def prim_def elim!: await_ReadyE split: prod.splits)
    with read Some show ?thesis
      unfolding authenticated_def logged_in_def by (metis prefix_order.refl)
  qed
qed

lemma handshake_Ok:
  assumes "handshake net config context c = (Ready (Ok target), c')"
  shows "authenticated net config c'"
proof -
  from assms obtain c1 x c2 where "authenticate net config context c1 = (Ready (Ok x), c2)"
    and read: "read_connect_request net (t_handshake (config_timeouts config)) c2 = (Ready (Ok target), c')"
    unfolding handshake_def by (auto elim!: try_await_OkE)
  then have "authenticated net config c2" by (blast intro: authenticate_Ok)
  moreover have "within (\<lambda>_. True) True c2 c'"
    using acts_read_connect [of "\<lambda>_. True" True] read by (rule keepsD) simp
  ultimately show ?thesis by (rule authenticated_within)
qed

section \<open>Dialling and serving\<close>

definition dial_action :: "destination_policy \<Rightarrow> action \<Rightarrow> bool" where
  "dial_action policy a \<longleftrightarrow> (case a of
     Dialled addr \<Rightarrow> policy_check policy addr = Ok () \<and> canonical_sock addr = addr
   | Resolved _ _ \<Rightarrow> True
   | _ \<Rightarrow> False)"

lemma acts_dial_each:
  "list_all (\<lambda>a. Q (Dialled a)) addrs \<Longrightarrow>
     acts Q keep (dial_each (\<lambda>addr. prim [Dialled addr] (net_connect net addr)) last_error addrs)"
  by (induction addrs arbitrary: last_error) (auto intro!: acts_intros acts_prim split: sum.split)

lemma acts_dial_target:
  assumes "\<And>a. dial_action policy a \<Longrightarrow> Q a"
  shows "acts Q keep (dial_target net policy target)"
proof -
  have r: "acts Q keep (resolve_target (\<lambda>host port. prim [Resolved host port] (net_lookup_host net host port)) target)"
    unfolding resolve_target_def
    by (auto intro!: acts_intros acts_prim assms simp: dial_action_def split: target_addr.split)
  have d: "list_all (\<lambda>a. Q (Dialled a)) (take MAX_CONNECT_ATTEMPTS as)"
    if "select_allowed (policy_check policy) [] None resolved = (as, denial)" for resolved as denial
    using policy_filter.select_allowed_sound [OF that]
    by (auto simp: list_all_iff dial_action_def intro!: assms dest!: in_set_takeD)
  show ?thesis
    unfolding dial_target_def connect_to_target_def
    by (rule acts_try_await [OF r]) (auto intro!: acts_ready acts_dial_each d split: prod.split)
qed

lemma acts_tune: "(\<And>i e. Q (LogTuneFailed i e)) \<Longrightarrow> acts Q keep (tune_client net context)"
  "(\<And>i e. Q (LogTuneFailed i e)) \<Longrightarrow> acts Q keep (tune_target net context)"
  by (auto simp: keeps_def within_def tune_client_def tune_target_def emit_def modify_def
      split: prod.split sum.split)

lemma acts_relay: "acts Q keep (relay_tcp net idle)"
  by (auto simp: keeps_def within_def relay_tcp_def Let_def split: prod.split option.split)

lemma reply_code_not_succeeded: "reply_code_as_byte (connect_error_reply_code e) \<noteq> 0"
  by (cases e rule: connect_error_reply_code.cases) (auto split: io_error_kind.split)

text \<open>Serving a target never closes with an authentication result and never logs the closing line; the
  success reply and the dials of allowed addresses are its only new actions.\<close>

definition serve_action :: "destination_policy \<Rightarrow> action \<Rightarrow> bool" where
  "serve_action policy a \<longleftrightarrow> dial_action policy a \<or> (\<exists>code. a = Wrote (reply_encode (reply_new code))) \<or>
     (\<exists>i e. a = LogTuneFailed i e)"

lemma acts_serve_target: "acts (serve_action (config_policy config)) True (serve_target net config context target)"
  unfolding serve_target_def Let_def
  by (rule acts_await [OF acts_timeout [OF acts_dial_target]])
     (auto simp: serve_action_def intro!: acts_intros acts_send_reply acts_modify acts_tune acts_relay
        split: sum.split)

definition run_action :: "destination_policy \<Rightarrow> action \<Rightarrow> bool" where
  "run_action policy a \<longleftrightarrow> handshake_action a \<or> serve_action policy a"

lemma within_mono: "within Q keep c c' \<Longrightarrow> (\<And>a. Q a \<Longrightarrow> Q' a) \<Longrightarrow> within Q' False c c'"
  unfolding within_def by (metis list.pred_mono_strong)

lemma not_dialled [simp]: "\<not> handshake_action (Dialled a)"
  by (simp add: handshake_action_def auth_action_def)

text \<open>The state of a timeout whose body completed.\<close>

lemma timeout_ReadyE:
  assumes "timeout net limit m c = (Ready (Ok a), c')"
  obtains c1 where "m (c\<lparr>c_env := net_arm net limit (c_env c)\<rparr>) = (Ready a, c1)"
    and "c_report c' = c_report c1" and "c_trace c' = c_trace c1"
proof -
  obtain r c1 where m: "m (c\<lparr>c_env := net_arm net limit (c_env c)\<rparr>) = (r, c1)"
    by (cases "m (c\<lparr>c_env := net_arm net limit (c_env c)\<rparr>)")
  then show thesis
    using assms that by (cases r) (auto simp: timeout_def Let_def split: prod.splits if_splits)
qed

lemma withinE:
  assumes "within Q keep c c'"
  obtains acts where "c_trace c' = c_trace c @ acts" and "list_all Q acts"
  using assms by (auto simp: within_def)

text \<open>A connection either stays in the handshake, or gets past it as an authenticated user and serves a
  target.\<close>

lemma run_connection_phases:
  assumes "run_connection net config context c = (r, c')"
  shows "within handshake_action False c c' \<or>
    (\<exists>c2 target. within handshake_action False c c2 \<and> authenticated net config c2 \<and>
       serve_target net config context target c2 = (r, c'))"
proof -
  let ?hs = "timeout net (t_handshake (config_timeouts config)) (handshake net config context)"
  obtain c1 where c1: "tune_client net context c = (Ready (), c1)"
    by (cases "tune_tcp_stream (net_client_socket net) (c_env c)") (auto simp: tune_client_def emit_def modify_def)
  have "acts handshake_action False (tune_client net context)"
    by (rule acts_tune) (simp add: handshake_action_def)
  then have w1: "within handshake_action False c c1" using c1 by (rule keepsD)
  obtain x c2 where x: "?hs c1 = (x, c2)" by (cases "?hs c1")
  have "within handshake_action False c1 c2"
    using acts_timeout [OF acts_handshake] x by (rule keepsD)
  with w1 have w2: "within handshake_action False c c2" by (rule within_trans)
  show ?thesis
  proof (cases "\<exists>target. x = Ready (Inr (Inr target))")
    case True
    then obtain target where t: "x = Ready (Inr (Inr target))" by blast
    with x obtain c0 where h: "handshake net config context (c1\<lparr>c_env := net_arm net (t_handshake (config_timeouts config)) (c_env c1)\<rparr>)
        = (Ready (Ok target), c0)" and rep: "c_report c2 = c_report c0" "c_trace c2 = c_trace c0"
      by (auto elim: timeout_ReadyE)
    let ?c3 = "c2\<lparr>c_report := (c_report c2)\<lparr>report_target := Some (target_show target)\<rparr>\<rparr>"
    from handshake_Ok [OF h] rep have "authenticated net config ?c3" by (simp add: authenticated_def)
    moreover have "within handshake_action False c ?c3" using w2 by (simp add: within_def)
    moreover have "serve_target net config context target ?c3 = (r, c')"
      using assms c1 x t by (simp add: run_connection_def modify_def await_def [of "\<lambda>s. (Ready (), _ s)"])
    ultimately show ?thesis by blast
  next
    case False
    then have "c' = c2"
      using assms c1 x
      by (cases x) (auto simp: run_connection_def split: sum.splits)
    with w2 show ?thesis by simp
  qed
qed

text \<open>What happened before the first address was dialled.\<close>

definition before_dials :: "action list \<Rightarrow> action list" where
  "before_dials tr = takeWhile (\<lambda>a. \<forall>addr. a \<noteq> Dialled addr) tr"

lemma before_dials_append:
  "(\<And>addr. Dialled addr \<notin> set xs) \<Longrightarrow> before_dials (xs @ ys) = xs @ before_dials ys"
  unfolding before_dials_def by (rule takeWhile_append2) auto

lemma run_connection_dials:
  assumes run: "run_connection net config context c = (r, c')" and "c_trace c = []"
    and dialled: "Dialled addr \<in> set (c_trace c')"
  shows "policy_check (config_policy config) addr = Ok () \<and> canonical_sock addr = addr \<and>
    (\<exists>name. report_user (c_report c') = Some name \<and> logged_in net config name (before_dials (c_trace c')))"
  using run_connection_phases [OF run]
proof
  assume "within handshake_action False c c'"
  then have "list_all handshake_action (c_trace c')" using assms(2) by (auto elim!: withinE)
  with dialled have False using not_dialled by (auto simp: list_all_iff simp del: not_dialled)
  then show ?thesis ..
next
  assume "\<exists>c2 target. within handshake_action False c c2 \<and> authenticated net config c2 \<and>
       serve_target net config context target c2 = (r, c')"
  then obtain c2 target where w2: "within handshake_action False c c2" and a2: "authenticated net config c2"
    and serve: "serve_target net config context target c2 = (r, c')" by blast
  have w: "within (serve_action (config_policy config)) True c2 c'"
    using acts_serve_target serve by (rule keepsD)
  have xs: "list_all handshake_action (c_trace c2)" using w2 assms(2) by (auto elim!: withinE)
  then have none: "Dialled a \<notin> set (c_trace c2)" for a by (auto simp: list_all_iff)
  obtain ys where ys: "c_trace c' = c_trace c2 @ ys" "list_all (serve_action (config_policy config)) ys"
    using w by (rule withinE)
  from a2 w obtain name where "report_user (c_report c') = Some name" and "logged_in net config name (c_trace c2)"
    by (auto simp: authenticated_def within_def)
  then have "\<exists>name. report_user (c_report c') = Some name \<and> logged_in net config name (before_dials (c_trace c'))"
    by (auto simp: ys before_dials_append [OF none] intro: logged_in_extend)
  moreover have "serve_action (config_policy config) (Dialled addr)"
    using dialled ys none by (auto simp: list_all_iff)
  ultimately show ?thesis by (auto simp: serve_action_def dial_action_def)
qed

section \<open>Properties\<close>

lemma serve_connection_cases:
  assumes "serve_connection net config context c = (reason, c')"
  obtains c0 c1 started where "c_trace c0 = c_trace c" and "c_report c0 = report_default"
    and "reason = Shutdown \<and> c1 = c0 \<or>
         (\<exists>r. run_connection net config context c0 = (r, c1) \<and>
              reason = (case r of Ready x \<Rightarrow> x | Interrupted \<Rightarrow> Shutdown))"
    and "c' = close_connection net context started reason c1"
proof -
  obtain k w where k: "net_cancelled net (c_env c) = (k, w)" by (cases "net_cancelled net (c_env c)")
  let ?c0 = "c\<lparr>c_report := report_default, c_env := w\<rparr>"
  obtain r c1 where r: "run_connection net config context ?c0 = (r, c1)"
    by (cases "run_connection net config context ?c0")
  show thesis
  proof (cases k)
    case True
    with assms k have "reason = Shutdown \<and> c' = close_connection net context (net_now net (c_env c)) reason ?c0"
      by (auto simp: serve_connection_def Let_def)
    then show thesis by (intro that [of ?c0 ?c0]) auto
  next
    case False
    with assms k r have "reason = (case r of Ready x \<Rightarrow> x | Interrupted \<Rightarrow> Shutdown) \<and>
        c' = close_connection net context (net_now net (c_env c)) reason c1"
      by (auto simp: serve_connection_def Let_def)
    with r show thesis by (intro that [of ?c0 c1]) auto
  qed
qed

lemma close_connection_trace:
  "\<exists>dur. c_trace (close_connection net context started reason c) =
     c_trace c @ [LogClosed (closed_line_of context (c_report c) reason dur)]"
  "c_report (close_connection net context started reason c) = c_report c"
  by (auto simp: close_connection_def Let_def)

lemma before_dials_close:
  assumes "Dialled addr \<in> set xs"
  shows "before_dials (xs @ ys) = before_dials xs"
  unfolding before_dials_def using assms by (auto intro: takeWhile_append1)

text \<open>\<^bold>\<open>C1.\<close> The proxy opens no connection for a client that has not authenticated, nor to a destination
  the policy refuses: in any environment, however operations are cut off, every address dialled
  while a client is served is a canonical address the policy allows, and before the first of them was
  dialled the client had sent the name and password of the configured user its log line names and had been
  told that they were accepted.\<close>

theorem dials_authenticated_and_allowed:
  assumes "serve_connection net config context c = (reason, c')" and "c_trace c = []"
    and "Dialled addr \<in> set (c_trace c')"
  shows "policy_check (config_policy config) addr = Ok () \<and> canonical_sock addr = addr \<and>
    (\<exists>name. report_user (c_report c') = Some name \<and> logged_in net config name (before_dials (c_trace c')))"
  using assms(1)
proof (rule serve_connection_cases)
  fix c0 c1 started
  assume c0: "c_trace c0 = c_trace c" and c': "c' = close_connection net context started reason c1"
    and run: "reason = Shutdown \<and> c1 = c0 \<or> (\<exists>r. run_connection net config context c0 = (r, c1) \<and>
              reason = (case r of Ready x \<Rightarrow> x | Interrupted \<Rightarrow> Shutdown))"
  obtain line where line: "c_trace c' = c_trace c1 @ [LogClosed line]"
    using close_connection_trace(1) [of net "context" started reason c1] unfolding c' by auto
  then have dialled: "Dialled addr \<in> set (c_trace c1)" using assms(3) by auto
  then obtain r where "run_connection net config context c0 = (r, c1)"
    using run c0 assms(2) by auto
  from run_connection_dials [OF this _ dialled] show ?thesis
    using c0 assms(2) line before_dials_close [OF dialled, of "[LogClosed line]"]
    by (simp add: c' close_connection_trace(2))
qed

theorem dials_authenticated_and_allowed_witness:
  "\<exists>reason c'. serve_connection sample_net minimal_config sample_context sample_conn = (reason, c') \<and>
     Dialled sample_target \<in> set (c_trace c') \<and>
     logged_in sample_net minimal_config ''alice'' (before_dials (c_trace c'))"
proof -
  obtain reason c' where s: "serve_connection sample_net minimal_config sample_context sample_conn = (reason, c')"
    "Dialled sample_target \<in> set (c_trace c')" "report_user (c_report c') = Some ''alice''"
    using sample_served by (auto simp: Let_def served_report_def)
  have "c_trace sample_conn = []" by (simp add: sample_conn_def)
  from dials_authenticated_and_allowed [OF s(1) this s(2)] s show ?thesis by auto
qed

lemma run_action_not_closed: "run_action policy a \<Longrightarrow> a \<noteq> LogClosed line"
  by (auto simp: run_action_def handshake_action_def auth_action_def serve_action_def dial_action_def)

lemma run_connection_acts:
  assumes "run_connection net config context c = (r, c')"
  shows "within (run_action (config_policy config)) False c c'"
  using run_connection_phases [OF assms]
proof
  assume "within handshake_action False c c'"
  then show ?thesis by (rule within_mono) (simp add: run_action_def)
next
  assume "\<exists>c2 target. within handshake_action False c c2 \<and> authenticated net config c2 \<and>
       serve_target net config context target c2 = (r, c')"
  then obtain c2 target where w2: "within handshake_action False c c2"
    and serve: "serve_target net config context target c2 = (r, c')" by blast
  have "within (serve_action (config_policy config)) True c2 c'"
    using acts_serve_target serve by (rule keepsD)
  then have "within (run_action (config_policy config)) False c2 c'"
    by (rule within_mono) (simp add: run_action_def)
  moreover have "within (run_action (config_policy config)) False c c2"
    using w2 by (rule within_mono) (simp add: run_action_def)
  ultimately show ?thesis by (blast intro: within_trans)
qed

text \<open>\<^bold>\<open>C24.\<close> Every connection, however it ends, writes exactly one "connection closed" line, as its last
  action, and the line names the reason the connection ended and the user, target and byte counts of
  its report.\<close>

theorem closed_line_once:
  assumes "serve_connection net config context c = (reason, c')"
  shows "\<exists>done line. c_trace c' = c_trace c @ done @ [LogClosed line] \<and>
    (\<forall>l. LogClosed l \<notin> set done) \<and> cl_reason line = close_reason_code reason \<and>
    cl_report line = c_report c'"
  using assms
proof (rule serve_connection_cases)
  fix c0 c1 started
  assume c0: "c_trace c0 = c_trace c" and c': "c' = close_connection net context started reason c1"
    and run: "reason = Shutdown \<and> c1 = c0 \<or> (\<exists>r. run_connection net config context c0 = (r, c1) \<and>
              reason = (case r of Ready x \<Rightarrow> x | Interrupted \<Rightarrow> Shutdown))"
  have "within (run_action (config_policy config)) False c0 c1"
    using run run_connection_acts by fastforce
  then obtain xs where xs: "c_trace c1 = c_trace c0 @ xs" "list_all (run_action (config_policy config)) xs"
    by (rule withinE)
  then have "\<forall>l. LogClosed l \<notin> set xs" using run_action_not_closed by (auto simp: list_all_iff)
  with xs c0 show ?thesis
    using close_connection_trace [of net "context" started reason c1]
    by (auto simp: c' closed_line_of_def)
qed

theorem closed_line_once_witness:
  "\<exists>c' done line. serve_connection sample_net minimal_config sample_context sample_conn =
       (close_reason.Completed, c') \<and>
     c_trace c' = done @ [LogClosed line] \<and> (\<forall>l. LogClosed l \<notin> set done) \<and> cl_reason line = ''completed''"
proof -
  obtain c' where s: "serve_connection sample_net minimal_config sample_context sample_conn =
      (close_reason.Completed, c')"
    using sample_served by (auto simp: Let_def)
  from closed_line_once [OF s] show ?thesis unfolding s by (auto simp: sample_conn_def)
qed

section \<open>The success reply\<close>

abbreviation success_reply :: action where
  "success_reply \<equiv> Wrote (reply_encode (reply_new Succeeded))"

lemma reply_new_bytes: "reply_encode (reply_new code) = [5, reply_code_as_byte code, 0, 1, 0, 0, 0, 0, 0, 0]"
  by (simp add: reply_encode_def reply_new_def v4_octets_split v4_octet_def be_bytes_2 socks_consts)

lemma handshake_no_success: "\<not> handshake_action success_reply"
  by (auto simp: handshake_action_def auth_action_def reply_new_bytes)

text \<open>The state keeps the connected address and what was done.\<close>

definition same_target :: "'w conn \<Rightarrow> 'w conn \<Rightarrow> bool" where
  "same_target c c' \<longleftrightarrow> report_target_addr (c_report c') = report_target_addr (c_report c) \<and>
     set (c_trace c) \<subseteq> set (c_trace c')"

lemma same_target_trans: "same_target x y \<Longrightarrow> same_target y z \<Longrightarrow> same_target x z"
  by (auto simp: same_target_def)

lemma keeps_same_target_await:
  "keeps same_target m \<Longrightarrow> (\<And>a. keeps same_target (k a)) \<Longrightarrow> keeps same_target (await m k)"
  by (rule keeps_await [OF same_target_trans])

lemma keeps_same_target:
  "keeps same_target (ready a)" "keeps same_target (tune_target net context)"
  "keeps same_target (prim as m)" "keeps same_target (relay_tcp net idle)"
  by (auto simp: keeps_def same_target_def tune_target_def emit_def modify_def prim_def relay_tcp_def Let_def
      split: prod.split option.split)

lemma keeps_same_target_timeout: "keeps same_target m \<Longrightarrow> keeps same_target (timeout net limit m)"
  unfolding keeps_def timeout_snd by (fastforce simp: same_target_def Let_def)

lemma dial_each_Ok:
  "dial_each (\<lambda>addr. prim [Dialled addr] (net_connect net addr)) last_error addrs c = (Ready (Ok t), c') \<Longrightarrow>
     Dialled (ct_addr t) \<in> set (c_trace c')"
proof (induction addrs arbitrary: last_error c)
  case (Cons a addrs)
  from Cons.prems obtain r c1 where r: "prim [Dialled a] (net_connect net a) c = (Ready r, c1)"
    and k: "(case r of Inr stream \<Rightarrow> ready (Ok \<lparr>ct_stream = stream, ct_addr = a\<rparr>)
      | Inl error \<Rightarrow> dial_each (\<lambda>addr. prim [Dialled addr] (net_connect net addr)) (Some error) addrs) c1
      = (Ready (Ok t), c')"
    unfolding dial_each.simps by (rule await_ReadyE)
  have "Dialled a \<in> set (c_trace c1)" using r by (auto simp: prim_def split: prod.splits)
  with k Cons.IH show ?case by (cases r) auto
qed simp

lemma dial_target_Ok:
  assumes "dial_target net policy target c = (Ready (Ok t), c')"
  shows "Dialled (ct_addr t) \<in> set (c_trace c')"
proof -
  from assms obtain resolved c1 where
    "(let (allowed, first_denial) = select_allowed (policy_check policy) [] None resolved in
        if allowed = []
        then ready (Err (case first_denial of None \<Rightarrow> NoAddresses | Some reason \<Rightarrow> Denied reason))
        else dial_each (\<lambda>addr. prim [Dialled addr] (net_connect net addr)) None
               (take MAX_CONNECT_ATTEMPTS allowed)) c1 = (Ready (Ok t), c')"
    unfolding dial_target_def connect_to_target_def by (rule try_await_OkE)
  then show ?thesis
    by (auto simp: Let_def dest: dial_each_Ok split: prod.splits if_splits)
qed

text \<open>Refusals send another reply; after a successful dial the connected address stays in the report.\<close>

lemma refusal_no_success:
  "reply_code_as_byte code \<noteq> 0 \<Longrightarrow>
     acts (\<lambda>a. a \<noteq> success_reply) False (await (send_reply net code limit) (\<lambda>_. ready reason))"
  by (intro acts_await acts_send_reply acts_ready) (simp add: reply_new_bytes)

lemma connected_keeps_target:
  "keeps same_target (await (tune_target net context) (\<lambda>_.
     await (timeout net limit (client_write_all net success)) (\<lambda>r.
     case r of
       Inl _ \<Rightarrow> ready HandshakeTimeout
     | Inr (Inl error) \<Rightarrow> ready (HandshakeIo error)
     | Inr (Inr _) \<Rightarrow> await (relay_tcp net idle) (\<lambda>result. ready (close_of_relay_end result)))))"
  by (auto intro!: keeps_same_target_await keeps_same_target keeps_same_target_timeout
      simp: client_write_all_def split: sum.split)

text \<open>Without a connection there is no success reply.\<close>

lemma serve_target_success:
  assumes "serve_target net config context target c = (r, c')"
  shows "within (\<lambda>a. a \<noteq> success_reply) False c c' \<or>
    (\<exists>addr. report_target_addr (c_report c') = Some addr \<and> Dialled addr \<in> set (c_trace c'))"
proof -
  let ?Q = "\<lambda>a. a \<noteq> success_reply"
  let ?dial = "timeout net (t_connect (config_timeouts config)) (dial_target net (config_policy config) target)"
  obtain x c1 where x: "?dial c = (x, c1)" by (cases "?dial c")
  have "acts ?Q False ?dial"
    by (rule acts_timeout [OF acts_dial_target]) (auto simp: dial_action_def)
  then have w1: "within ?Q False c c1" using x by (rule keepsD)
  note run = assms [unfolded serve_target_def Let_def]
  consider (interrupted) "x = Interrupted" | (elapsed) u where "x = Ready (Inl u)"
    | (failed) e where "x = Ready (Inr (Inl e))" | (connected) t where "x = Ready (Inr (Inr t))"
    by (cases x) (metis old.sum.exhaust, simp)
  then show ?thesis
  proof cases
    case interrupted
    with run x w1 show ?thesis by simp
  next
    case elapsed
    with run x have "within ?Q False c1 c'"
      by (auto intro: keepsD [OF refusal_no_success [of HostUnreachable]])
    with w1 show ?thesis by (blast intro: within_trans)
  next
    case (failed e)
    with run x have "within ?Q False c1 c'"
      by (auto intro: keepsD [OF refusal_no_success [OF reply_code_not_succeeded]])
    with w1 show ?thesis by (blast intro: within_trans)
  next
    case (connected t)
    let ?c2 = "c1\<lparr>c_report := (c_report c1)\<lparr>report_target_addr := Some (ct_addr t)\<rparr>\<rparr>"
    have "Dialled (ct_addr t) \<in> set (c_trace c1)"
      using x connected by (auto elim!: timeout_ReadyE dest!: dial_target_Ok)
    moreover have "same_target ?c2 c'"
      using run x connected by (auto dest: keepsD [OF connected_keeps_target])
    ultimately show ?thesis by (auto simp: same_target_def)
  qed
qed

text \<open>\<^bold>\<open>C19.\<close> A client is told that its request succeeded only if a connection to the address in the report
  was dialled for it: the success reply never follows a refusal, a failed or a timed-out connection.\<close>

theorem success_reply_means_connected:
  assumes "serve_connection net config context c = (reason, c')" and "c_trace c = []"
    and "Wrote (reply_encode (reply_new Succeeded)) \<in> set (c_trace c')"
  shows "\<exists>addr. report_target_addr (c_report c') = Some addr \<and> Dialled addr \<in> set (c_trace c')"
  using assms(1)
proof (rule serve_connection_cases)
  fix c0 c1 started
  assume c0: "c_trace c0 = c_trace c" and c': "c' = close_connection net context started reason c1"
    and run: "reason = Shutdown \<and> c1 = c0 \<or> (\<exists>r. run_connection net config context c0 = (r, c1) \<and>
              reason = (case r of Ready x \<Rightarrow> x | Interrupted \<Rightarrow> Shutdown))"
  have in1: "success_reply \<in> set (c_trace c1)"
    using assms(3) close_connection_trace(1) [of net "context" started reason c1] unfolding c' by auto
  then obtain r where "run_connection net config context c0 = (r, c1)"
    using run c0 assms(2) by auto
  from run_connection_phases [OF this]
  have "\<exists>addr. report_target_addr (c_report c1) = Some addr \<and> Dialled addr \<in> set (c_trace c1)"
  proof
    assume "within handshake_action False c0 c1"
    then have "success_reply \<notin> set (c_trace c1)"
      using handshake_no_success c0 assms(2) by (auto elim!: withinE simp: list_all_iff)
    with in1 show ?thesis by blast
  next
    assume "\<exists>c2 target. within handshake_action False c0 c2 \<and> authenticated net config c2 \<and>
       serve_target net config context target c2 = (r, c1)"
    then obtain c2 target where w2: "within handshake_action False c0 c2"
      and serve: "serve_target net config context target c2 = (r, c1)" by blast
    have "success_reply \<notin> set (c_trace c2)"
      using w2 handshake_no_success c0 assms(2) by (auto elim!: withinE simp: list_all_iff)
    with serve_target_success [OF serve] in1 show ?thesis
      by (auto elim!: withinE simp: list_all_iff)
  qed
  then show ?thesis
    using close_connection_trace [of net "context" started reason c1] by (auto simp: c')
qed

theorem success_reply_means_connected_witness:
  "\<exists>reason c' addr. serve_connection sample_net minimal_config sample_context sample_conn = (reason, c') \<and>
     Wrote [5, 0, 0, 1, 0, 0, 0, 0, 0, 0] \<in> set (c_trace c') \<and>
     report_target_addr (c_report c') = Some addr \<and> Dialled addr \<in> set (c_trace c')"
proof -
  obtain reason c' where s: "serve_connection sample_net minimal_config sample_context sample_conn = (reason, c')"
    "success_reply \<in> set (c_trace c')"
    using sample_served by (auto simp: Let_def)
  have "c_trace sample_conn = []" by (simp add: sample_conn_def)
  from success_reply_means_connected [OF s(1) this s(2)] s(2) show ?thesis
    unfolding s(1) by (auto simp: reply_new_bytes)
qed

end
