(* ===== verification/Service.thy ===== *)
theory Service
  imports Connection_Safety
begin

text \<open>
  What the proxy does for its clients: one that follows the protocol, knows a password and asks for an
  allowed destination is served; one that does not is refused with the answer the protocol
  prescribes, and a wrong password is counted against its address.
\<close>

section \<open>Logging in\<close>

text \<open>\<^bold>\<open>C3.\<close> A client that follows the protocol is served. In any environment in which its bytes arrive, its
  answers are taken, the peer accepts and nothing is cancelled: when the client's bytes are the encodings of
  a greeting that offers username/password, of credentials the server accepts and of a CONNECT request
  whose addresses include one the policy allows, then the proxy answers, dials the first allowed
  address, reports success, relays, and closes with the relay's result; the log line names the
  user, the target as requested, the address dialled and the bytes of each direction; the ban list is
  untouched and the bytes are added to the server's counters.\<close>

theorem legitimate_client_served:
  assumes "obliging net input dest course"
    and "greeting_wf g" "user_pass_wf cr" "request_wf r"
    and "greeting_encode g = Ok eg" "user_pass_encode cr = Ok eu" "request_encode r = Ok er"
    and "input (c_env c) = eg @ eu @ er @ rest"
    and "offers g METHOD_USER_PASS"
    and "verify (net_ct_eq net) (users config) (upr_username cr) (upr_password cr) = Some name"
    and "req_command r = Connect"
    and "resolves net (req_target r) addrs"
    and "select_allowed (policy_check (config_policy config)) [] None addrs = (dest # others, denial)"
    and "relay_result (relay_of config course) = Some result"
  shows "\<exists>dur c'. serve_connection net config context c = (close_of_relay_end result, c') \<and>
    c_report c' = served_report name (req_target r) dest (counters_of (relay_of config course)) \<and>
    c_shared c' = add_bytes (counters_of (relay_of config course)) (c_shared c) \<and>
    c_trace c' = c_trace c @ [Wrote [5, 2], Wrote [1, 0]] @ lookups (req_target r) @
      [Dialled dest, Wrote (reply_encode (reply_new Succeeded)),
       LogClosed (closed_line_of context (c_report c') (close_of_relay_end result) dur)]"
proof -
  have "greeting_read_from slice_reader (input (c_env c)) = (Ready (Ok g), eu @ er @ rest)"
    using greeting_codec.read_encode [OF assms(2,5)] assms(8) by simp
  from obliging.serve_connection_ok [OF assms(1) this assms(9) user_pass_codec.read_encode [OF assms(3,6)]
      assms(10) request_codec.read_encode [OF assms(4,7)] assms(11-14), of "context"]
  show ?thesis by (auto simp: Let_def served_report_def)
qed

lemma sample_bytes:
  "greeting_wf \<lparr>methods = [2]\<rparr>" "greeting_encode \<lparr>methods = [2]\<rparr> = Ok [5, 1, 2]"
  by (simp_all add: greeting_wf_def greeting_encode_eq socks_consts)

definition alice_login :: user_pass_request where
  "alice_login = \<lparr>upr_username = as_bytes ''alice'', upr_password = as_bytes ''pw''\<rparr>"

lemma alice_login_bytes:
  "user_pass_wf alice_login" "user_pass_encode alice_login = Ok [1, 5, 97, 108, 105, 99, 101, 2, 112, 119]"
proof -
  show wf: "user_pass_wf alice_login" by (simp add: alice_login_def user_pass_wf_def)
  then show "user_pass_encode alice_login = Ok [1, 5, 97, 108, 105, 99, 101, 2, 112, 119]"
    by (simp add: user_pass_encode_eq, simp add: alice_login_def socks_consts as_bytes_def byte_of_char_def)
qed

definition sample_req :: request where
  "sample_req = \<lparr>req_command = Connect, req_target = Ip sample_target\<rparr>"

lemma sample_req_bytes:
  "request_wf sample_req" "request_encode sample_req = Ok [5, 1, 0, 1, 8, 8, 8, 8, 1, 187]"
proof -
  show wf: "request_wf sample_req" by (simp add: sample_req_def request_wf_def sample_target_def)
  then show "request_encode sample_req = Ok [5, 1, 0, 1, 8, 8, 8, 8, 1, 187]"
    by (simp add: request_encode_eq request_wf_def)
       (simp add: sample_req_def sample_target_def socks_consts v4_octets_split v4_octet_def be_bytes_2)
qed

lemma sample_select:
  "select_allowed (policy_check (config_policy minimal_config)) [] None [sample_target] = ([sample_target], None)"
  using sample_allowed by (simp add: sample_target_def)

theorem legitimate_client_served_witness:
  "\<exists>dur c'. serve_connection sample_net minimal_config sample_context sample_conn = (close_reason.Completed, c') \<and>
     report_user (c_report c') = Some ''alice'' \<and> report_target_addr (c_report c') = Some sample_target \<and>
     bytes_in (stats (c_shared c')) = 3 \<and>
     c_trace c' = [Wrote [5, 2], Wrote [1, 0], Dialled sample_target, Wrote [5, 0, 0, 1, 0, 0, 0, 0, 0, 0],
       LogClosed (closed_line_of sample_context (c_report c') close_reason.Completed dur)]"
proof -
  have env: "obliging sample_net id sample_target sample_course"
    unfolding sample_net_def by (rule scripted_world.obliging_axioms)
  have bytes: "id (c_env sample_conn) = [5, 1, 2] @ [1, 5, 97, 108, 105, 99, 101, 2, 112, 119] @
      [5, 1, 0, 1, 8, 8, 8, 8, 1, 187] @ []"
    by (simp add: sample_conn_def login_bytes_def)
  have o: "offers \<lparr>methods = [2]\<rparr> METHOD_USER_PASS" by (simp add: offers_def socks_consts)
  have v: "verify (net_ct_eq sample_net) (users minimal_config) (upr_username alice_login) (upr_password alice_login)
      = Some ''alice''"
    using sample_verify by (simp add: alice_login_def)
  have c: "req_command sample_req = Connect" and r: "resolves sample_net (req_target sample_req) [sample_target]"
    by (simp_all add: sample_req_def resolves_def)
  obtain dur c' where s: "serve_connection sample_net minimal_config sample_context sample_conn =
      (close_of_relay_end relay_end.Completed, c')"
    "c_report c' = served_report ''alice'' (req_target sample_req) sample_target
      (counters_of (relay_of minimal_config sample_course))"
    "c_shared c' = add_bytes (counters_of (relay_of minimal_config sample_course)) (c_shared sample_conn)"
    "c_trace c' = c_trace sample_conn @ [Wrote [5, 2], Wrote [1, 0]] @ lookups (req_target sample_req) @
      [Dialled sample_target, Wrote (reply_encode (reply_new Succeeded)), LogClosed (closed_line_of sample_context
         (c_report c') (close_of_relay_end relay_end.Completed) dur)]"
    using legitimate_client_served [OF env sample_bytes(1) alice_login_bytes(1) sample_req_bytes(1)
      sample_bytes(2) alice_login_bytes(2) sample_req_bytes(2) bytes o v c r sample_select sample_relay(1),
      of sample_context] by blast
  have "bytes_in (stats (c_shared c')) = 3"
    unfolding s(3) sample_relay(2) by (simp add: add_bytes_def sample_conn_def stats_default_def)
  moreover have "report_user (c_report c') = Some ''alice''" "report_target_addr (c_report c') = Some sample_target"
    unfolding s(2) by (simp_all add: served_report_def)
  moreover have "c_trace c' = [Wrote [5, 2], Wrote [1, 0], Dialled sample_target, Wrote [5, 0, 0, 1, 0, 0, 0, 0, 0, 0],
       LogClosed (closed_line_of sample_context (c_report c') close_reason.Completed dur)]"
    using s(4) by (simp add: sample_conn_def sample_req_def lookups_def reply_new_bytes)
  ultimately show ?thesis using s(1) by auto
qed

text \<open>\<^bold>\<open>C23.\<close> A wrong name or password costs the client: the handshake ends with \<open>AuthFailed\<close> after the failure
  answer, nothing further is read or dialled, the failure is counted once in the statistics, and it
  is recorded against the client's address in the ban list, with the log lines its verdict calls for.\<close>

theorem bad_credentials_refused:
  assumes "cooperative net input"
    and "greeting_wf g" "user_pass_wf cr"
    and "greeting_encode g = Ok eg" "user_pass_encode cr = Ok eu"
    and "input (c_env c) = eg @ eu @ rest"
    and "offers g METHOD_USER_PASS"
    and "verify (net_ct_eq net) (users config) (upr_username cr) (upr_password cr) = None"
  shows "\<exists>now c'. handshake net config context c = (Ready (Err AuthFailed), c') \<and>
    c_report c' = c_report c \<and>
    ban_list_of (c_shared c') = snd (record_failure (ban_list_of (c_shared c)) (sock_ip (peer context)) now) \<and>
    stats (c_shared c') = (stats (c_shared c))\<lparr>auth_failures := auth_failures (stats (c_shared c)) + 1\<rparr> \<and>
    c_trace c' = c_trace c @ [Wrote [5, 2], Wrote [1, 1]] @ auth_failure_lines (net_unicode net) config context cr
      (fst (record_failure (ban_list_of (c_shared c)) (sock_ip (peer context)) now))"
proof -
  have c: "c = at (c_env c) (c_shared c) (c_report c) (c_trace c)" by simp
  have "greeting_read_from slice_reader (input (c_env c)) = (Ready (Ok g), eu @ rest)"
    using greeting_codec.read_encode [OF assms(2,4)] assms(6) by simp
  from cooperative.handshake_bad_credentials [OF assms(1) this assms(7) user_pass_codec.read_encode [OF assms(3,5)]
      assms(8), of "context" "c_shared c" "c_report c" "c_trace c", folded c]
  show ?thesis by (auto simp: after_failure_def)
qed

theorem bad_credentials_refused_witness:
  "\<exists>now c'. handshake sample_net minimal_config sample_context
       (at ([5, 1, 2] @ [1, 1, 120, 1, 121] @ []) (c_shared sample_conn) report_default []) =
     (Ready (Err AuthFailed), c') \<and> auth_failures (stats (c_shared c')) = 1 \<and>
     take 2 (c_trace c') = [Wrote [5, 2], Wrote [1, 1]]"
proof -
  let ?cr = "\<lparr>upr_username = [120], upr_password = [121]\<rparr>"
  let ?c = "at ([5, 1, 2] @ [1, 1, 120, 1, 121] @ []) (c_shared sample_conn) report_default []"
  have env: "cooperative sample_net id"
    unfolding sample_net_def by (rule scripted_client.cooperative_axioms)
  have u: "user_pass_wf ?cr" "user_pass_encode ?cr = Ok [1, 1, 120, 1, 121]"
    by (simp_all add: user_pass_wf_def user_pass_encode_eq socks_consts)
  have o: "offers \<lparr>methods = [2]\<rparr> METHOD_USER_PASS" by (simp add: offers_def socks_consts)
  have "verify (=) \<lparr>us_users = [stored_of alice]\<rparr> [120] [121] \<noteq> Some n" for n
    using verify_Some_iff [OF _ alice_store, of "(=)" "[120]" "[121]"]
    by (simp add: ct_eq_spec_def alice_def as_bytes_def)
  then have "verify (=) \<lparr>us_users = [stored_of alice]\<rparr> [120] [121] = None"
    by (metis option.exhaust)
  then have v: "verify (net_ct_eq sample_net) (users minimal_config) (upr_username ?cr) (upr_password ?cr) = None"
    by (simp add: sample_net_def scripted_def minimal_config_def)
  have i: "id (c_env ?c) = [5, 1, 2] @ [1, 1, 120, 1, 121] @ []" by simp
  from bad_credentials_refused [OF env sample_bytes(1) u(1) sample_bytes(2) u(2) i o v, of sample_context]
  show ?thesis by (auto simp: sample_conn_def stats_default_def)
qed

text \<open>A client that does not offer username/password gets the "no acceptable methods" answer and
  nothing else: the handshake ends without a failure being counted against it and without its
  credentials being read.\<close>

theorem no_acceptable_method_refused:
  assumes "cooperative net input" and "greeting_wf g" "greeting_encode g = Ok eg"
    and "input (c_env c) = eg @ rest" and "2 \<notin> set (methods g)"
  shows "\<exists>c'. handshake net config context c = (Ready (Err NoAcceptableAuthMethod), c') \<and>
    c_shared c' = c_shared c \<and> c_report c' = c_report c \<and> c_trace c' = c_trace c @ [Wrote [5, 0xFF]]"
proof -
  have c: "c = at (c_env c) (c_shared c) (c_report c) (c_trace c)" by simp
  have "greeting_read_from slice_reader (input (c_env c)) = (Ready (Ok g), rest)"
    using greeting_codec.read_encode [OF assms(2,3)] assms(4) by simp
  moreover have "\<not> offers g METHOD_USER_PASS" using assms(5) by (simp add: offers_def socks_consts)
  ultimately show ?thesis
    using cooperative.handshake_no_method [OF assms(1), of "c_env c" g rest config "context" "c_shared c"
      "c_report c" "c_trace c", folded c] by auto
qed

theorem no_acceptable_method_refused_witness:
  "\<exists>c'. handshake sample_net minimal_config sample_context
       (at ([5, 1, 0] @ []) (c_shared sample_conn) report_default []) = (Ready (Err NoAcceptableAuthMethod), c') \<and>
     c_trace c' = [Wrote [5, 0xFF]]"
proof -
  have env: "cooperative sample_net id"
    unfolding sample_net_def by (rule scripted_client.cooperative_axioms)
  have g: "greeting_wf \<lparr>methods = [0]\<rparr>" "greeting_encode \<lparr>methods = [0]\<rparr> = Ok [5, 1, 0]"
    by (simp_all add: greeting_wf_def greeting_encode_eq socks_consts)
  show ?thesis
    using no_acceptable_method_refused [OF env g, of "at ([5, 1, 0] @ []) (c_shared sample_conn) report_default []"
      "[]" minimal_config sample_context] by auto
qed

end
