(* ===== verification/Task_Effect.thy ===== *)
theory Task_Effect
  imports Server_Invariants Service
begin

text \<open>
  What a connection task does to the state it shares. The server's invariants assume that tasks leave the
  admission counters alone and change the ban list only by recording failures; here this is shown of
  \<open>serve_connection\<close>, given that whatever else runs while the task waits does the same.
\<close>

definition shared_fine :: "shared_state \<Rightarrow> shared_state \<Rightarrow> bool" where
  "shared_fine sh sh' \<longleftrightarrow> admission_counters (stats sh') = admission_counters (stats sh) \<and>
     (\<exists>es. ban_list_of sh' = run_events record_failure purged (ban_list_of sh) es)"

definition world_fine :: "'w \<times> shared_state \<Rightarrow> 'w \<times> shared_state \<Rightarrow> bool" where
  "world_fine s s' \<longleftrightarrow> shared_fine (snd s) (snd s')"

definition conn_fine :: "'w conn \<Rightarrow> 'w conn \<Rightarrow> bool" where
  "conn_fine c c' \<longleftrightarrow> shared_fine (c_shared c) (c_shared c')"

lemma shared_fine_refl [simp]: "shared_fine sh sh"
  by (auto simp: shared_fine_def intro: exI [of _ "[]"])

lemma shared_fine_trans: "shared_fine x y \<Longrightarrow> shared_fine y z \<Longrightarrow> shared_fine x z"
  unfolding shared_fine_def by (metis run_events_append)

lemma conn_fine_refl [simp]: "conn_fine c c"
  by (simp add: conn_fine_def)

lemma conn_fine_trans: "conn_fine x y \<Longrightarrow> conn_fine y z \<Longrightarrow> conn_fine x z"
  unfolding conn_fine_def by (rule shared_fine_trans)

lemma fine_await: "keeps conn_fine m \<Longrightarrow> (\<And>a. keeps conn_fine (k a)) \<Longrightarrow> keeps conn_fine (await m k)"
  by (rule keeps_await [OF conn_fine_trans])

lemma fine_try: "keeps conn_fine m \<Longrightarrow> (\<And>a. keeps conn_fine (k a)) \<Longrightarrow> keeps conn_fine (try_await m conv k)"
  by (rule keeps_try_await [OF conn_fine_refl conn_fine_trans])

lemma fine_ready: "keeps conn_fine (ready a)"
  by (simp add: keeps_ready)

lemma fine_prim:
  fixes m :: "('w \<times> shared_state, 'a) async"
  assumes "keeps world_fine m"
  shows "keeps conn_fine (prim as m)"
  unfolding keeps_def
proof
  fix c :: "'w conn"
  obtain r w sh where "m (c_env c, c_shared c) = (r, w, sh)" by (metis prod.exhaust)
  with assms show "conn_fine c (snd (prim as m c))"
    by (auto simp: prim_def conn_fine_def world_fine_def dest: keepsD)
qed

lemma fine_local:
  "keeps conn_fine (emit as)"
  "keeps conn_fine (tune_client net context)" "keeps conn_fine (tune_target net context)"
  by (auto simp: keeps_def conn_fine_def emit_def modify_def tune_client_def tune_target_def split: prod.split)

lemma fine_modify: "(\<And>c. c_shared (f c) = c_shared c) \<Longrightarrow> keeps conn_fine (modify f)"
  by (simp add: keeps_def conn_fine_def modify_def)

lemma fine_timeout: "keeps conn_fine m \<Longrightarrow> keeps conn_fine (timeout net limit m)"
  unfolding keeps_def timeout_snd conn_fine_def Let_def
  by (metis conn.select_convs(2) conn.surjective conn.update_convs(1))

lemma fine_note_failure:
  fixes net :: "'w net"
  shows "keeps conn_fine (note_auth_failure net context)"
  unfolding keeps_def
proof
  fix c :: "'w conn"
  let ?es = "[Failure (sock_ip (peer context)) (net_now net (c_env c))]"
  have "ban_list_of (c_shared (snd (note_auth_failure net context c))) =
      run_events record_failure purged (ban_list_of (c_shared c)) ?es"
    by (simp add: note_auth_failure_def Let_def split: prod.split)
  then show "conn_fine c (snd (note_auth_failure net context c))"
    unfolding conn_fine_def shared_fine_def
    by (auto simp: note_auth_failure_def admission_counters_def Let_def split: prod.split intro: exI [of _ ?es])
qed

lemma fine_close: "conn_fine c (close_connection net context started reason c)"
  by (cases reason)
     (auto simp: conn_fine_def shared_fine_def close_connection_def admission_counters_def Let_def
        intro: exI [of _ "[]"])

text \<open>The surroundings of a task: while it waits, others may change the shared state, as tasks do.\<close>

locale fair_world =
  fixes net :: "'w net"
  assumes reads_fine: "keeps world_fine (read_u8 (net_read net))" "keeps world_fine (read_u16 (net_read net))"
      "keeps world_fine (read_exact (net_read net) n)"
    and writes_fine: "keeps world_fine (net_write_all net bytes)"
    and dials_fine: "keeps world_fine (net_lookup_host net host port)" "keeps world_fine (net_connect net addr)"
    and relay_fine: "world_fine s (snd (net_relay net d s))"
begin

lemma fine_reads:
  "keeps conn_fine (read_u8 (client_reader net))" "keeps conn_fine (read_u16 (client_reader net))"
  "keeps conn_fine (read_exact (client_reader net) k)"
  by (simp_all add: client_reader_def fine_prim reads_fine)

lemma fine_write: "keeps conn_fine (client_write_all net bytes)"
  unfolding client_write_all_def by (rule fine_prim [OF writes_fine])

end

sublocale fair_world \<subseteq> fine_reader: invariant_reader "client_reader net" conn_fine
  by unfold_locales (auto intro: conn_fine_trans fine_reads)

context fair_world
begin

lemmas fine_intros = fine_await fine_try fine_ready fine_write fine_local fine_timeout fine_note_failure
  fine_reader.keeps_greeting fine_reader.keeps_user_pass fine_reader.keeps_request

lemma fine_send_reply: "keeps conn_fine (send_reply net code limit)"
  unfolding send_reply_def by (intro fine_intros)

lemma fine_handshake: "keeps conn_fine (handshake net config context)"
proof -
  have "keeps conn_fine (negotiate_method net)"
    unfolding negotiate_method_def Let_def by (auto intro!: fine_intros)
  moreover have "keeps conn_fine (authenticate net config context)"
    unfolding authenticate_def by (auto intro!: fine_intros fine_modify split: option.split)
  moreover have "keeps conn_fine (read_connect_request net limit)" for limit
    unfolding read_connect_request_def
    by (rule fine_await) (auto intro!: fine_intros fine_send_reply split: sum.split protocol_error.split command.split)
  ultimately show ?thesis unfolding handshake_def by (intro fine_try)
qed

lemma fine_dial: "keeps conn_fine (dial_target net policy target)"
proof -
  have "keeps conn_fine (dial_each (\<lambda>addr. prim [Dialled addr] (net_connect net addr)) last addrs)" for last addrs
    by (induction addrs arbitrary: last) (auto intro!: fine_intros fine_prim dials_fine split: sum.split)
  moreover have "keeps conn_fine (resolve_target (\<lambda>host port. prim [Resolved host port] (net_lookup_host net host port)) target)"
    unfolding resolve_target_def by (auto intro!: fine_intros fine_prim dials_fine split: target_addr.split)
  ultimately show ?thesis
    unfolding dial_target_def connect_to_target_def
    by (intro fine_try) (auto intro!: fine_ready split: prod.split)
qed

lemma fine_relay: "keeps conn_fine (relay_tcp net idle)"
  unfolding keeps_def
proof
  fix c :: "'w conn"
  have "shared_fine (c_shared c) (snd (snd (net_relay net idle (c_env c, c_shared c))))"
    using relay_fine [of "(c_env c, c_shared c)" idle] by (simp add: world_fine_def)
  then show "conn_fine c (snd (relay_tcp net idle c))"
    by (auto simp: relay_tcp_def conn_fine_def Let_def split: prod.splits option.split)
qed

lemma fine_serve_target: "keeps conn_fine (serve_target net config context target)"
  unfolding serve_target_def Let_def
  by (auto intro!: fine_intros fine_send_reply fine_modify fine_dial fine_relay split: sum.split)

lemma fine_run_connection: "keeps conn_fine (run_connection net config context)"
  unfolding run_connection_def
  by (auto intro!: fine_intros fine_modify fine_handshake fine_serve_target split: sum.split)

end

interpretation scripted_fair: fair_world "scripted answers answer course"
  by unfold_locales
     (auto simp: keeps_def world_fine_def scripted_def lift_input_def split: prod.split)

text \<open>\<^bold>\<open>C25.\<close> A connection keeps its hands off what is not its own: whatever its client does and however it
  ends, it never changes a counter of the admission (accepted or rejected connections), and the ban list
  it leaves is the one it found with some failures recorded, provided that the tasks that run while
  it waits behave likewise.\<close>

theorem connection_leaves_admission_alone:
  assumes "fair_world net" and "serve_connection net config context c = (reason, c')"
  shows "admission_counters (stats (c_shared c')) = admission_counters (stats (c_shared c)) \<and>
    (\<exists>es. ban_list_of (c_shared c') = run_events record_failure purged (ban_list_of (c_shared c)) es)"
proof -
  obtain k w where k: "net_cancelled net (c_env c) = (k, w)" by (cases "net_cancelled net (c_env c)")
  let ?c0 = "c\<lparr>c_report := report_default, c_env := w\<rparr>"
  obtain r c1 where r: "run_connection net config context ?c0 = (r, c1)"
    by (cases "run_connection net config context ?c0")
  have "conn_fine ?c0 c1" using fair_world.fine_run_connection [OF assms(1)] r by (rule keepsD)
  moreover have "\<exists>c2 started. c2 \<in> {?c0, c1} \<and> c' = close_connection net context started reason c2"
    using assms(2) k r by (cases k) (auto simp: serve_connection_def Let_def)
  ultimately have "conn_fine ?c0 c'" using fine_close conn_fine_trans by blast
  then show ?thesis by (simp add: conn_fine_def shared_fine_def)
qed

theorem connection_leaves_admission_alone_witness:
  "\<exists>reason c'. serve_connection sample_net minimal_config sample_context sample_conn = (reason, c') \<and>
     admission_counters (stats (c_shared c')) = (0, 0, 0, 0)"
proof -
  have env: "fair_world sample_net"
    unfolding sample_net_def by (rule scripted_fair.fair_world_axioms)
  obtain reason c' where s: "serve_connection sample_net minimal_config sample_context sample_conn = (reason, c')"
    by (cases "serve_connection sample_net minimal_config sample_context sample_conn")
  from connection_leaves_admission_alone [OF env s] s show ?thesis
    by (auto simp: sample_conn_def stats_default_def admission_counters_def)
qed

end
