(* ===== verification/Socks_Client.thy ===== *)
theory Socks_Client
  imports Service
begin

text \<open>
  \<open>src/socks/client.rs\<close>: the client's side of the handshake, and that the two sides of the repository
  agree: the client understands what the server answers to what the client sends.
\<close>

section \<open>Model\<close>

fun reply_code_show :: "reply_code \<Rightarrow> string" where
  "reply_code_show Succeeded = ''succeeded''"
| "reply_code_show GeneralFailure = ''general SOCKS server failure''"
| "reply_code_show NotAllowed = ''connection not allowed by ruleset''"
| "reply_code_show NetworkUnreachable = ''network unreachable''"
| "reply_code_show HostUnreachable = ''host unreachable''"
| "reply_code_show ConnectionRefused = ''connection refused''"
| "reply_code_show TtlExpired = ''TTL expired''"
| "reply_code_show reply_code.CommandNotSupported = ''command not supported''"
| "reply_code_show reply_code.AddressTypeNotSupported = ''address type not supported''"
| "reply_code_show (Unassigned value) = ''unassigned reply code '' @ hex_byte value"

datatype client_error =
    ClientProtocol protocol_error
  | MethodRejected u8
  | AuthRejected
  | RequestRejected reply_code

fun client_error_show :: "client_error \<Rightarrow> string" where
  "client_error_show (ClientProtocol error) = protocol_error_show error"
| "client_error_show (MethodRejected method) =
     ''proxy does not accept username/password authentication (answered '' @ hex_byte method @ '')''"
| "client_error_show AuthRejected = ''proxy rejected the credentials''"
| "client_error_show (RequestRejected code) = ''proxy refused the request: '' @ reply_code_show code"

definition client_io :: "io_error \<Rightarrow> client_error" where
  "client_io error = ClientProtocol (Io error)"

definition client_handshake :: "'s async_read \<Rightarrow> (u8 list \<Rightarrow> ('s, io_error + unit) async) \<Rightarrow> string \<Rightarrow> string \<Rightarrow>
    target_addr \<Rightarrow> ('s, client_error + reply) async" where
  "client_handshake reader write_all username password target =
     (let g = \<lparr>methods = [METHOD_USER_PASS]\<rparr> in
      try_await (ready (greeting_encode g)) ClientProtocol (\<lambda>bytes.
      try_await (write_all bytes) client_io (\<lambda>_.
      try_await (selection_read_from reader) ClientProtocol (\<lambda>selection.
      if sel_method selection \<noteq> METHOD_USER_PASS then ready (Err (MethodRejected (sel_method selection)))
      else let credentials = \<lparr>upr_username = as_bytes username, upr_password = as_bytes password\<rparr> in
      try_await (ready (user_pass_encode credentials)) ClientProtocol (\<lambda>bytes.
      try_await (write_all bytes) client_io (\<lambda>_.
      try_await (response_read_from reader) ClientProtocol (\<lambda>response.
      if \<not> is_success response then ready (Err AuthRejected)
      else let r = \<lparr>req_command = Connect, req_target = target\<rparr> in
      try_await (ready (request_encode r)) ClientProtocol (\<lambda>bytes.
      try_await (write_all bytes) client_io (\<lambda>_.
      try_await (reply_read_from reader) ClientProtocol (\<lambda>reply.
      if rep_code reply \<noteq> Succeeded then ready (Err (RequestRejected (rep_code reply)))
      else ready (Ok reply)))))))))))"

section \<open>Streams that work\<close>

text \<open>A stream whose input is a known byte string and whose output is collected.\<close>

locale client_stream = byte_reader R pending for R :: "'s async_read" and pending +
  fixes write_all :: "u8 list \<Rightarrow> ('s, io_error + unit) async" and sent :: "'s \<Rightarrow> u8 list"
  assumes reads_keep_sent: "keeps (\<lambda>s s'. sent s' = sent s) (read_u8 R)" "keeps (\<lambda>s s'. sent s' = sent s) (read_u16 R)"
      "keeps (\<lambda>s s'. sent s' = sent s) (read_exact R n)"
    and write_ok: "\<exists>s'. write_all bs s = (Ready (Ok ()), s') \<and> sent s' = sent s @ bs \<and> pending s' = pending s"

definition lift_pending :: "(u8 list, 'a) async \<Rightarrow> (u8 list \<times> u8 list, 'a) async" where
  "lift_pending m = (\<lambda>(inp, out). case m inp of (r, rest) \<Rightarrow> (r, rest, out))"

definition pipe_reader :: "(u8 list \<times> u8 list) async_read" where
  "pipe_reader = \<lparr>read_u8 = lift_pending (read_u8 slice_reader), read_u16 = lift_pending (read_u16 slice_reader),
     read_exact = (\<lambda>n. lift_pending (slice_read_exact n))\<rparr>"

definition pipe_write :: "u8 list \<Rightarrow> (u8 list \<times> u8 list, io_error + unit) async" where
  "pipe_write bs = (\<lambda>(inp, out). (Ready (Ok ()), inp, out @ bs))"

lemma lift_pending_laws:
  "simulates fst (lift_pending m) m" "keeps (\<lambda>s s'. snd s' = snd s) (lift_pending m)"
  by (auto simp: simulates_def keeps_def lift_pending_def split: prod.split)

interpretation pipe: client_stream pipe_reader fst pipe_write snd
  by unfold_locales (auto simp: pipe_reader_def pipe_write_def lift_pending_laws)

sublocale client_stream \<subseteq> sender: invariant_reader R "\<lambda>s s'. sent s' = sent s"
  by unfold_locales (auto intro: reads_keep_sent)

context client_stream
begin

lemma read_step:
  assumes "simulates pending m n" and "keeps (\<lambda>s s'. sent s' = sent s) m" and "n (pending s) = (r, rest)"
  shows "\<exists>s'. m s = (r, s') \<and> pending s' = rest \<and> sent s' = sent s"
  using simulates_run [OF assms(1,3)] keepsD [OF assms(2)] by metis

lemmas read_selection = read_step [OF selection_sim sender.keeps_selection]
lemmas read_response = read_step [OF response_sim sender.keeps_response]
lemmas read_reply = read_step [OF reply_sim sender.keeps_reply]

text \<open>The proxy answers with a method other than username/password.\<close>

lemma client_method_rejected:
  assumes "selection_read_from slice_reader (pending s) = (Ready (Ok sel), rest)" and "sel_method sel \<noteq> 2"
  shows "\<exists>s'. client_handshake R write_all username password target s =
    (Ready (Err (MethodRejected (sel_method sel))), s') \<and> sent s' = sent s @ [5, 1, 2]"
proof -
  obtain s1 where w: "write_all [5, 1, 2] s = (Ready (Ok ()), s1)" "sent s1 = sent s @ [5, 1, 2]" "pending s1 = pending s"
    using write_ok by blast
  moreover obtain s2 where "selection_read_from R s1 = (Ready (Ok sel), s2)" "sent s2 = sent s1"
    using read_selection [of s1 "Ready (Ok sel)" rest] assms(1) w(3) by auto
  ultimately show ?thesis
    using assms(2) by (simp add: client_handshake_def greeting_encode_eq socks_consts Let_def)
qed

lemma client_ok:
  assumes "selection_read_from slice_reader (pending s) = (Ready (Ok \<lparr>sel_method = 2\<rparr>), rest1)"
    and "response_read_from slice_reader rest1 = (Ready (Ok \<lparr>upr_status = 0\<rparr>), rest2)"
    and "reply_read_from slice_reader rest2 = (Ready (Ok rep), rest3)" and "rep_code rep = Succeeded"
    and "user_pass_encode \<lparr>upr_username = as_bytes username, upr_password = as_bytes password\<rparr> = Ok eu"
    and "request_encode \<lparr>req_command = Connect, req_target = target\<rparr> = Ok er"
  shows "\<exists>s'. client_handshake R write_all username password target s = (Ready (Ok rep), s') \<and>
    pending s' = rest3 \<and> sent s' = sent s @ [5, 1, 2] @ eu @ er"
proof -
  obtain s1 where w1: "write_all [5, 1, 2] s = (Ready (Ok ()), s1)" "sent s1 = sent s @ [5, 1, 2]" "pending s1 = pending s"
    using write_ok by blast
  obtain s2 where r1: "selection_read_from R s1 = (Ready (Ok \<lparr>sel_method = 2\<rparr>), s2)" "pending s2 = rest1" "sent s2 = sent s1"
    using read_selection assms(1) w1(3) by metis
  obtain s3 where w2: "write_all eu s2 = (Ready (Ok ()), s3)" "sent s3 = sent s2 @ eu" "pending s3 = rest1"
    using write_ok r1(2) by metis
  obtain s4 where r2: "response_read_from R s3 = (Ready (Ok \<lparr>upr_status = 0\<rparr>), s4)" "pending s4 = rest2" "sent s4 = sent s3"
    using read_response assms(2) w2(3) by metis
  obtain s5 where w3: "write_all er s4 = (Ready (Ok ()), s5)" "sent s5 = sent s4 @ er" "pending s5 = rest2"
    using write_ok r2(2) by metis
  obtain s6 where r3: "reply_read_from R s5 = (Ready (Ok rep), s6)" "pending s6 = rest3" "sent s6 = sent s5"
    using read_reply assms(3) w3(3) by metis
  show ?thesis
    using w1 r1 w2 r2 w3 r3 assms(4-6)
    by (simp add: client_handshake_def greeting_encode_eq is_success_def socks_consts Let_def)
qed

end

section \<open>Both sides together\<close>

text \<open>What the server put on the wire.\<close>

definition wire_bytes :: "action list \<Rightarrow> u8 list" where
  "wire_bytes tr = concat (map (\<lambda>a. case a of Wrote bs \<Rightarrow> bs | _ \<Rightarrow> []) tr)"

lemma wire_bytes_simps [simp]:
  "wire_bytes [] = []" "wire_bytes (Wrote bs # tr) = bs @ wire_bytes tr"
  "wire_bytes (Resolved h p # tr) = wire_bytes tr" "wire_bytes (Dialled a # tr) = wire_bytes tr"
  "wire_bytes (LogClosed l # tr) = wire_bytes tr" "wire_bytes (tr @ tr') = wire_bytes tr @ wire_bytes tr'"
  by (simp_all add: wire_bytes_def)

lemma wire_bytes_lookups [simp]: "wire_bytes (lookups target) = []"
  by (simp add: lookups_def split: target_addr.split)

lemma served_answers:
  "selection_read_from slice_reader ([5, 2] @ rest) = (Ready (Ok \<lparr>sel_method = 2\<rparr>), rest)"
  "response_read_from slice_reader ([1, 0] @ rest) = (Ready (Ok \<lparr>upr_status = 0\<rparr>), rest)"
  "reply_read_from slice_reader (reply_encode (reply_new Succeeded)) = (Ready (Ok (reply_new Succeeded)), [])"
proof -
  show "selection_read_from slice_reader ([5, 2] @ rest) = (Ready (Ok \<lparr>sel_method = 2\<rparr>), rest)"
    by (simp add: selection_read_from_def socks_consts)
  show "response_read_from slice_reader ([1, 0] @ rest) = (Ready (Ok \<lparr>upr_status = 0\<rparr>), rest)"
    by (simp add: response_read_from_def socks_consts)
  have "reply_wf (reply_new Succeeded)" by (simp add: reply_wf_def reply_new_def)
  from reply_codec.read_encode [OF this refl, of "[]"]
  show "reply_read_from slice_reader (reply_encode (reply_new Succeeded)) = (Ready (Ok (reply_new Succeeded)), [])"
    by simp
qed

text \<open>\<^bold>\<open>C16.\<close> The two sides agree. When the server's input is what \<open>client_handshake\<close> sends for a configured user
  and an allowed target, and the client's input is what the server then writes, the client's handshake
  succeeds: it has sent exactly that input, consumed every byte of the answers and returns the
  server's success reply.\<close>

theorem client_and_server_agree:
  assumes "obliging net input dest course" and "c_trace c = []"
    and "length username \<le> 255" "length password \<le> 255" "target_wf target"
    and "user_pass_encode \<lparr>upr_username = as_bytes username, upr_password = as_bytes password\<rparr> = Ok eu"
    and "request_encode \<lparr>req_command = Connect, req_target = target\<rparr> = Ok er"
    and "input (c_env c) = [5, 1, 2] @ eu @ er @ rest"
    and "verify (net_ct_eq net) (users config) (as_bytes username) (as_bytes password) = Some name"
    and "resolves net target addrs"
    and "select_allowed (policy_check (config_policy config)) [] None addrs = (dest # others, denial)"
    and "relay_result (relay_of config course) = Some result"
  shows "\<exists>c'. serve_connection net config context c = (close_of_relay_end result, c') \<and>
    client_handshake pipe_reader pipe_write username password target (wire_bytes (c_trace c'), []) =
      (Ready (Ok (reply_new Succeeded)), ([], [5, 1, 2] @ eu @ er))"
proof -
  let ?u = "\<lparr>upr_username = as_bytes username, upr_password = as_bytes password\<rparr>"
  let ?r = "\<lparr>req_command = Connect, req_target = target\<rparr>"
  have wf: "user_pass_wf ?u" "request_wf ?r" using assms(3-5) by (simp_all add: user_pass_wf_def request_wf_def)
  have g: "greeting_read_from slice_reader (input (c_env c)) = (Ready (Ok \<lparr>methods = [2]\<rparr>), eu @ er @ rest)"
    using greeting_codec.read_encode [OF sample_bytes, of "eu @ er @ rest"] assms(8) by simp
  have o: "offers \<lparr>methods = [2]\<rparr> METHOD_USER_PASS" by (simp add: offers_def socks_consts)
  obtain c' where c': "serve_connection net config context c = (close_of_relay_end result, c')"
    "wire_bytes (c_trace c') = [5, 2] @ [1, 0] @ reply_encode (reply_new Succeeded)"
    using obliging.serve_connection_ok [OF assms(1) g o user_pass_codec.read_encode [OF wf(1) assms(6)]
        _ request_codec.read_encode [OF wf(2) assms(7)], of config name addrs others denial result "context"]
      assms(2,9-12)
    by (auto simp: Let_def)
  from pipe.client_ok [of "(wire_bytes (c_trace c'), [])", OF _ served_answers(2,3) _ assms(6,7)] c'(2) served_answers(1)
  have "client_handshake pipe_reader pipe_write username password target (wire_bytes (c_trace c'), []) =
      (Ready (Ok (reply_new Succeeded)), ([], [5, 1, 2] @ eu @ er))"
    by (auto simp: reply_new_def)
  with c'(1) show ?thesis by blast
qed

theorem client_and_server_agree_witness:
  "\<exists>c'. serve_connection sample_net minimal_config sample_context sample_conn = (close_reason.Completed, c') \<and>
     client_handshake pipe_reader pipe_write ''alice'' ''pw'' (Ip sample_target) (wire_bytes (c_trace c'), []) =
       (Ready (Ok (reply_new Succeeded)), ([], c_env sample_conn))"
proof -
  have env: "obliging sample_net id sample_target sample_course"
    unfolding sample_net_def by (rule scripted_world.obliging_axioms)
  have len: "length ''alice'' \<le> 255" "length ''pw'' \<le> 255" by simp_all
  have t: "target_wf (Ip sample_target)" by (simp add: sample_target_def)
  have r: "resolves sample_net (Ip sample_target) [sample_target]" by (simp add: resolves_def)
  have "c_trace sample_conn = []" by (simp add: sample_conn_def)
  moreover have "id (c_env sample_conn) = [5, 1, 2] @ [1, 5, 97, 108, 105, 99, 101, 2, 112, 119] @
      [5, 1, 0, 1, 8, 8, 8, 8, 1, 187] @ []"
    by (simp add: sample_conn_def login_bytes_def)
  ultimately show ?thesis
    using client_and_server_agree [OF env _ len t alice_login_bytes(2) [unfolded alice_login_def]
      sample_req_bytes(2) [unfolded sample_req_def] _ sample_verify r sample_select sample_relay(1), of sample_conn "[]" sample_context]
    by (auto simp: sample_conn_def login_bytes_def)
qed

end
