(* ===== verification/Session_Protocol.thy ===== *)
theory Session_Protocol
  imports Connection_Safety
begin

text \<open>
  The order of everything a connection does, as a state machine over its actions, and the proof that
  \<open>serve_connection\<close> implements it in every environment. \<open>conforms P m R\<close> is a Hoare triple over the phases:
  from a phase in \<open>P\<close> the future \<open>m\<close> takes steps of the machine only, and when it completes
  with \<open>a\<close> the session is in a phase of \<open>R a\<close>; it may be interrupted in any phase.
\<close>

section \<open>The machine\<close>

datatype phase =
    Greeting
  | Authenticating
  | Requesting
  | Dialling nat \<comment> \<open>attempts made\<close>
  | Relaying
  | Rejecting
  | Rejected bool \<comment> \<open>whether the failure was counted\<close>
  | Ended

inductive session_step :: "phase \<Rightarrow> action \<Rightarrow> phase \<Rightarrow> bool" where
  tune_client: "session_step Greeting (LogTuneFailed i e) Greeting"
| select: "session_step Greeting (Wrote [5, 2]) Authenticating"
| no_method: "session_step Greeting (Wrote [5, 0xFF]) Ended"
| accept: "session_step Authenticating (Wrote [1, 0]) Requesting"
| reject: "session_step Authenticating (Wrote [1, 1]) Rejecting"
| log_failed: "session_step Rejecting (LogAuthFailed i p name n) (Rejected (n \<noteq> None))"
| log_banned: "session_step (Rejected False) (LogBanned i p d) Ended"
| log_untracked: "session_step (Rejected False) (LogUntracked p) Ended"
| resolve: "session_step Requesting (Resolved host port) (Dialling 0)"
| first_dial: "session_step Requesting (Dialled addr) (Dialling 1)"
| next_dial: "n < MAX_CONNECT_ATTEMPTS \<Longrightarrow> session_step (Dialling n) (Dialled addr) (Dialling (Suc n))"
| refuse: "code \<noteq> Succeeded \<Longrightarrow> session_step Requesting (Wrote (reply_encode (reply_new code))) Ended"
| fail: "code \<noteq> Succeeded \<Longrightarrow> session_step (Dialling n) (Wrote (reply_encode (reply_new code))) Ended"
| tune_target: "session_step (Dialling (Suc n)) (LogTuneFailed i e) (Dialling (Suc n))"
| succeed: "session_step (Dialling (Suc n)) (Wrote (reply_encode (reply_new Succeeded))) Relaying"

inductive session_run :: "phase \<Rightarrow> action list \<Rightarrow> phase \<Rightarrow> bool" where
  run_Nil: "session_run p [] p"
| run_snoc: "session_run p as q \<Longrightarrow> session_step q a r \<Longrightarrow> session_run p (as @ [a]) r"

text \<open>The phase in which a connection may end for a reason.\<close>

fun reason_phase :: "close_reason \<Rightarrow> phase \<Rightarrow> bool" where
  "reason_phase NoAcceptableAuthMethod p = (p = Ended)"
| "reason_phase AuthFailed p = (p = Ended \<or> (\<exists>counted. p = Rejected counted))"
| "reason_phase (CommandNotSupported _) p = (p = Ended)"
| "reason_phase (DeniedByPolicy _) p = (p = Ended)"
| "reason_phase (ResolveFailed _) p = (p = Ended)"
| "reason_phase ResolvedToNothing p = (p = Ended)"
| "reason_phase (ConnectFailed _) p = (p = Ended)"
| "reason_phase ConnectTimeout p = (p = Ended)"
| "reason_phase Completed p = (p = Relaying)"
| "reason_phase IdleTimeout p = (p = Relaying)"
| "reason_phase (ClientError _) p = (p = Relaying)"
| "reason_phase (TargetError _) p = (p = Relaying)"
| "reason_phase _ p = True"

section \<open>Conformance\<close>

definition phases :: "(phase \<Rightarrow> bool) \<Rightarrow> (phase \<Rightarrow> bool) \<Rightarrow> ('w conn, 'a) async \<Rightarrow> ('a \<Rightarrow> phase \<Rightarrow> bool) \<Rightarrow> bool" where
  "phases I P m R \<longleftrightarrow> (\<forall>c c' r p. P p \<longrightarrow> session_run Greeting (c_trace c) p \<longrightarrow> m c = (r, c') \<longrightarrow>
     (\<exists>q. session_run Greeting (c_trace c') q \<and> (case r of Ready a \<Rightarrow> R a q | Interrupted \<Rightarrow> I q)))"

abbreviation conforms :: "(phase \<Rightarrow> bool) \<Rightarrow> ('w conn, 'a) async \<Rightarrow> ('a \<Rightarrow> phase \<Rightarrow> bool) \<Rightarrow> bool" where
  "conforms \<equiv> phases (\<lambda>_. True)"

lemma phasesD:
  assumes "phases I P m R" "P p" "session_run Greeting (c_trace c) p" "m c = (r, c')"
  shows "\<exists>q. session_run Greeting (c_trace c') q \<and> (case r of Ready a \<Rightarrow> R a q | Interrupted \<Rightarrow> I q)"
  using assms unfolding phases_def by metis

lemma phases_conseq:
  assumes "phases I P m R" and "\<And>p. P' p \<Longrightarrow> P p" and "\<And>a q. R a q \<Longrightarrow> R' a q" and "\<And>q. I q \<Longrightarrow> I' q"
  shows "phases I' P' m R'"
  unfolding phases_def
proof (intro allI impI)
  fix c c' r p
  assume "P' p" "session_run Greeting (c_trace c) p" "m c = (r, c')"
  from phasesD [OF assms(1) assms(2) [OF this(1)] this(2,3)]
  show "\<exists>q. session_run Greeting (c_trace c') q \<and> (case r of Ready a \<Rightarrow> R' a q | Interrupted \<Rightarrow> I' q)"
    using assms(3,4) by (auto split: polled.splits)
qed

lemma phases_ready: "(\<And>p. P p \<Longrightarrow> R a p) \<Longrightarrow> phases I P (ready a) R"
  by (auto simp: phases_def)

lemma phases_await:
  assumes "phases I P m S" and "\<And>a. phases I (S a) (k a) R"
  shows "phases I P (await m k) R"
  unfolding phases_def
proof (intro allI impI)
  fix c c' r p
  assume p: "P p" "session_run Greeting (c_trace c) p" and run: "await m k c = (r, c')"
  obtain x c1 where x: "m c = (x, c1)" by (cases "m c")
  from phasesD [OF assms(1) p x] obtain q where q: "session_run Greeting (c_trace c1) q"
    "case x of Ready a \<Rightarrow> S a q | Interrupted \<Rightarrow> I q" by blast
  show "\<exists>q. session_run Greeting (c_trace c') q \<and> (case r of Ready a \<Rightarrow> R a q | Interrupted \<Rightarrow> I q)"
  proof (cases x)
    case (Ready a)
    with run x have "k a c1 = (r, c')" by simp
    with q Ready show ?thesis by (intro phasesD [OF assms(2), of a q]) auto
  qed (use run x q in auto)
qed

lemma phases_try_await:
  assumes "phases I P m S" and "\<And>e q. S (Inl e) q \<Longrightarrow> R (Inl (conv e)) q" and "\<And>a. phases I (S (Inr a)) (k a) R"
  shows "phases I P (try_await m conv k) R"
  unfolding try_await_def
  by (rule phases_await [OF assms(1)]) (auto intro!: phases_ready assms(2,3) split: sum.split)

lemma phases_trace:
  assumes "\<And>c. c_trace (snd (m c)) = c_trace c @ as"
    and "\<And>p tr. P p \<Longrightarrow> session_run Greeting tr p \<Longrightarrow> \<exists>q. session_run Greeting (tr @ as) q \<and> I q \<and> (\<forall>a. R a q)"
  shows "phases I P m R"
  unfolding phases_def
proof (intro allI impI)
  fix c c' r p
  assume "P p" "session_run Greeting (c_trace c) p" "m c = (r, c')"
  with assms(1) [of c] assms(2) [of p "c_trace c"]
  show "\<exists>q. session_run Greeting (c_trace c') q \<and> (case r of Ready a \<Rightarrow> R a q | Interrupted \<Rightarrow> I q)"
    by (auto split: polled.split)
qed

lemma phases_silent:
  "acts (\<lambda>_. False) keep m \<Longrightarrow> (\<And>a q. P q \<Longrightarrow> I q \<and> R a q) \<Longrightarrow> phases I P m R"
  by (rule phases_trace [where as = "[]"]) (auto simp: keeps_def within_def list_all_iff)

lemma phases_prim:
  "(\<And>p. P p \<Longrightarrow> \<exists>q. session_step p a q \<and> I q \<and> (\<forall>x. R x q)) \<Longrightarrow> phases I P (prim [a] m) R"
  by (rule phases_trace [where as = "[a]"]) (simp add: prim_def split: prod.split, metis run_snoc)

lemma phases_write:
  "(\<And>p. P p \<Longrightarrow> \<exists>q. session_step p (Wrote bs) q \<and> I q \<and> (\<forall>x. R x q)) \<Longrightarrow> phases I P (client_write_all net bs) R"
  unfolding client_write_all_def by (rule phases_prim)

lemma conforms_silent: "acts (\<lambda>_. False) keep m \<Longrightarrow> conforms P m (\<lambda>_. P)"
  by (rule phases_silent) auto

lemma conforms_modify: "(\<And>c. c_trace (f c) = c_trace c) \<Longrightarrow> conforms P (modify f) (\<lambda>_. P)"
  by (rule phases_trace [where as = "[]"]) (auto simp: modify_def)

lemma conforms_timeout:
  assumes "phases (R (Inl ())) P m (\<lambda>a. R (Inr a))"
  shows "conforms P (timeout net limit m) R"
  unfolding phases_def
proof (intro allI impI)
  fix c c' r p
  assume p: "P p" "session_run Greeting (c_trace c) p" and run: "timeout net limit m c = (r, c')"
  let ?c = "c\<lparr>c_env := net_arm net limit (c_env c)\<rparr>"
  obtain x c1 where x: "m ?c = (x, c1)" by (cases "m ?c")
  from phasesD [OF assms p(1) _ x] p(2) obtain q where
    "session_run Greeting (c_trace c1) q" "case x of Ready a \<Rightarrow> R (Inr a) q | Interrupted \<Rightarrow> R (Inl ()) q" by auto
  with run x show "\<exists>q. session_run Greeting (c_trace c') q \<and> (case r of Ready a \<Rightarrow> R a q | Interrupted \<Rightarrow> True)"
    by (cases x) (auto simp: timeout_def Let_def split: prod.splits if_splits)
qed

lemma conforms_write_ready:
  assumes "session_step p (Wrote bs) q" and "\<And>r. R (f r) q"
  shows "conforms ((=) p) (await (client_write_all net bs) (\<lambda>r. ready (f r))) R"
  by (rule phases_await [where S = "\<lambda>_. (=) q"])
    (use assms in \<open>auto intro!: phases_write phases_ready\<close>)

section \<open>The handshake\<close>

abbreviation step_result :: "(phase \<Rightarrow> bool) \<Rightarrow> close_reason + 'a \<Rightarrow> phase \<Rightarrow> bool" where
  "step_result P r q \<equiv> (case r of Inr _ \<Rightarrow> P q | Inl e \<Rightarrow> reason_phase e q)"

lemma reason_phase_protocol: "reason_phase (close_of_protocol_error e) q"
  by (cases e rule: close_of_protocol_error.cases) auto

lemma step_result_io: "P q \<Longrightarrow> step_result P (map_err HandshakeIo r) q"
  by (simp add: map_err_def split: sum.split)

lemma send_reply_trace:
  "c_trace (snd (send_reply net code limit c)) = c_trace c @ [Wrote (reply_encode (reply_new code))]"
  by (auto simp: send_reply_def await_cases timeout_snd client_write_all_def prim_def Let_def
      split: prod.split polled.split)

definition answerable :: "phase \<Rightarrow> bool" where
  "answerable p \<longleftrightarrow> p = Requesting \<or> (\<exists>n. p = Dialling n)"

lemma answerable_simps [simp]: "answerable Requesting" "answerable (Dialling n)"
  by (simp_all add: answerable_def)

lemma conforms_refusal:
  assumes "code \<noteq> Succeeded" and "\<And>p. P p \<Longrightarrow> answerable p" and "R a Ended"
  shows "conforms P (await (send_reply net code limit) (\<lambda>_. ready a)) R"
proof (rule phases_await [where S = "\<lambda>_. (=) Ended"])
  show "conforms P (send_reply net code limit) (\<lambda>_. (=) Ended)"
  proof (rule phases_trace [OF send_reply_trace])
    show "\<exists>q. session_run Greeting (tr @ [Wrote (reply_encode (reply_new code))]) q \<and> True \<and> (\<forall>a :: unit. Ended = q)"
      if "P p" "session_run Greeting tr p" for p tr
      using assms(2) [OF that(1)] that(2) assms(1)
      by (auto simp: answerable_def intro: run_snoc refuse fail)
  qed
qed (use assms(3) in \<open>auto intro: phases_ready\<close>)

lemma conforms_negotiate: "conforms ((=) Greeting) (negotiate_method net) (step_result ((=) Authenticating))"
  unfolding negotiate_method_def Let_def
proof (rule phases_try_await [OF conforms_silent [OF acts_messages(1)]])
  fix greeting :: greeting
  show "conforms ((=) Greeting)
     (if \<not> offers greeting METHOD_USER_PASS
      then await (client_write_all net (selection_encode NO_ACCEPTABLE)) (\<lambda>_. ready (Err NoAcceptableAuthMethod))
      else await (client_write_all net (selection_encode \<lparr>sel_method = METHOD_USER_PASS\<rparr>))
             (\<lambda>r. ready (map_err HandshakeIo r)))
     (step_result ((=) Authenticating))"
    by (auto simp: selection_encode_def NO_ACCEPTABLE_def socks_consts
        intro!: conforms_write_ready [OF select] conforms_write_ready [OF no_method] step_result_io)
qed (auto intro: reason_phase_protocol)

lemma auth_failure_run:
  assumes "session_run p tr Rejecting"
  shows "\<exists>q. session_run p (tr @ auth_failure_lines tables config context credentials verdict) q \<and> reason_phase AuthFailed q"
proof -
  have step: "session_run p (tr @ [LogAuthFailed i c n k]) (Rejected (k \<noteq> None))" for i c n k
    using assms log_failed by (rule run_snoc)
  have more: "session_run p (tr @ [LogAuthFailed i c n None, l]) q"
    if "session_step (Rejected False) l q" for i c n l q
    using run_snoc [OF step [of i c n None], of l q] that by simp
  have "session_run p (tr @ auth_failure_lines tables config context credentials verdict)
      (case verdict of Counted _ \<Rightarrow> Rejected True | Disabled \<Rightarrow> Rejected False | _ \<Rightarrow> Ended)"
    using step [of _ _ _ None] step [of _ _ _ "Some _"] more [OF log_banned] more [OF log_untracked]
    by (simp add: auth_failure_lines_def split: failure_verdict.split)
  moreover have "reason_phase AuthFailed
      (case verdict of Counted _ \<Rightarrow> Rejected True | Disabled \<Rightarrow> Rejected False | _ \<Rightarrow> Ended)"
    by (auto split: failure_verdict.split)
  ultimately show ?thesis by blast
qed

lemma conforms_authenticate:
  "conforms ((=) Authenticating) (authenticate net config context) (step_result ((=) Requesting))"
  unfolding authenticate_def
proof (rule phases_try_await [OF conforms_silent [OF acts_messages(2)]])
  fix cr
  let ?lines = "auth_failure_lines (net_unicode net) config context cr"
  have ok: "conforms ((=) Authenticating)
     (await (modify (\<lambda>c. c\<lparr>c_report := (c_report c)\<lparr>report_user := Some user\<rparr>\<rparr>)) (\<lambda>_.
      await (client_write_all net (response_encode SUCCESS)) (\<lambda>r. ready (map_err HandshakeIo r))))
     (step_result ((=) Requesting))" for user
    by (rule phases_await [OF conforms_modify])
      (auto simp: response_bytes intro!: conforms_write_ready [OF accept] step_result_io)
  have lines: "conforms ((=) Rejecting) (emit (?lines verdict)) (\<lambda>_. reason_phase AuthFailed)" for verdict
    by (rule phases_trace [where as = "?lines verdict"])
      (auto simp: emit_def modify_def dest!: auth_failure_run simp del: reason_phase.simps)
  have "conforms ((=) Authenticating)
     (await (note_auth_failure net context) (\<lambda>verdict.
      await (client_write_all net (response_encode FAILURE)) (\<lambda>_.
      await (emit (?lines verdict)) (\<lambda>_. ready (Err AuthFailed :: close_reason + unit)))))
     (step_result ((=) Requesting))"
    by (rule phases_await [OF conforms_silent [OF acts_note_failure]],
        rule phases_await [where S = "\<lambda>_. (=) Rejecting"])
      (auto simp: response_bytes intro!: phases_write reject phases_await [OF lines] phases_ready
        simp del: reason_phase.simps)
  with ok show "conforms ((=) Authenticating)
     (case verify (net_ct_eq net) (users config) (upr_username cr) (upr_password cr) of
       Some user \<Rightarrow>
         await (modify (\<lambda>c. c\<lparr>c_report := (c_report c)\<lparr>report_user := Some user\<rparr>\<rparr>)) (\<lambda>_.
         await (client_write_all net (response_encode SUCCESS)) (\<lambda>r.
         ready (map_err HandshakeIo r)))
     | None \<Rightarrow>
         await (note_auth_failure net context) (\<lambda>verdict.
         await (client_write_all net (response_encode FAILURE)) (\<lambda>_.
         await (emit (?lines verdict)) (\<lambda>_.
         ready (Err AuthFailed)))))
     (step_result ((=) Requesting))"
    by (simp split: option.split)
qed (auto intro: reason_phase_protocol)

lemma conforms_read_connect:
  "conforms ((=) Requesting) (read_connect_request net limit) (step_result ((=) Requesting))"
  unfolding read_connect_request_def
  by (rule phases_await [OF conforms_silent [OF acts_messages(3)]])
    (auto intro!: phases_ready conforms_refusal simp: answerable_def
      split: sum.split protocol_error.split command.split)

lemma conforms_handshake:
  "conforms ((=) Greeting) (handshake net config context) (step_result ((=) Requesting))"
  unfolding handshake_def
  by (rule phases_try_await [OF conforms_negotiate], simp,
      simp, rule phases_try_await [OF conforms_authenticate], simp, simp, rule conforms_read_connect)

section \<open>Dialling and serving\<close>

lemma conforms_dial_each:
  "n + length addrs \<le> MAX_CONNECT_ATTEMPTS \<Longrightarrow>
   phases answerable (\<lambda>p. p = Dialling n \<or> p = Requesting \<and> n = 0)
     (dial_each (\<lambda>addr. prim [Dialled addr] (net_connect net addr)) last_error addrs)
     (\<lambda>r p. answerable p \<and> (\<forall>t. r = Inr t \<longrightarrow> (\<exists>k. p = Dialling (Suc k))))"
proof (induction addrs arbitrary: n last_error)
  case Nil
  show ?case unfolding dial_each.simps by (rule phases_ready) (auto simp: answerable_def)
next
  case (Cons a addrs)
  let ?dial = "dial_each (\<lambda>addr. prim [Dialled addr] (net_connect net addr))"
  have step: "phases answerable (\<lambda>p. p = Dialling n \<or> p = Requesting \<and> n = 0)
      (prim [Dialled a] (net_connect net a)) (\<lambda>_ p. p = Dialling (Suc n))"
    using Cons.prems by (intro phases_prim) (auto intro: next_dial first_dial [simplified])
  have "phases answerable (\<lambda>p. p = Dialling (Suc n)) (?dial e addrs)
      (\<lambda>r p. answerable p \<and> (\<forall>t. r = Inr t \<longrightarrow> (\<exists>k. p = Dialling (Suc k))))" for e
    using Cons.prems by (intro phases_conseq [OF Cons.IH [of "Suc n"]]) auto
  then show ?case
    unfolding dial_each.simps by (intro phases_await [OF step]) (auto intro!: phases_ready split: sum.split)
qed

lemma conforms_dial_target:
  "phases answerable ((=) Requesting) (dial_target net policy target)
     (\<lambda>r p. answerable p \<and> (\<forall>t. r = Inr t \<longrightarrow> (\<exists>k. p = Dialling (Suc k))))"
  unfolding dial_target_def connect_to_target_def
proof (rule phases_try_await [where S = "\<lambda>_ p. p = Requesting \<or> p = Dialling 0"])
  show "phases answerable ((=) Requesting)
     (resolve_target (\<lambda>host port. prim [Resolved host port] (net_lookup_host net host port)) target)
     (\<lambda>_ p. p = Requesting \<or> p = Dialling 0)"
    by (cases target)
      (auto simp: resolve_target_def intro!: phases_ready
        phases_await [where S = "\<lambda>_ p. p = Dialling 0"] phases_prim resolve)
next
  fix resolved
  show "phases answerable (\<lambda>p. p = Requesting \<or> p = Dialling 0)
     (let (allowed, first_denial) = select_allowed (policy_check policy) [] None resolved in
        if allowed = []
        then ready (Err (case first_denial of None \<Rightarrow> NoAddresses | Some reason \<Rightarrow> Denied reason))
        else dial_each (\<lambda>addr. prim [Dialled addr] (net_connect net addr)) None (take MAX_CONNECT_ATTEMPTS allowed))
     (\<lambda>r p. answerable p \<and> (\<forall>t. r = Inr t \<longrightarrow> (\<exists>k. p = Dialling (Suc k))))"
    by (auto simp: Let_def intro!: phases_ready
        phases_conseq [OF conforms_dial_each [of 0]] split: prod.split)
qed (auto simp: answerable_def)

lemma reason_phase_connect_error: "reason_phase (close_of_connect_error e) Ended"
  by (cases e) auto

lemma reason_phase_relay: "reason_phase (close_of_relay_end e) Relaying"
  by (cases e) auto

lemma conforms_tune:
  "conforms ((=) Greeting) (tune_client net context) (\<lambda>_. (=) Greeting)"
  "conforms (\<lambda>p. \<exists>k. p = Dialling (Suc k)) (tune_target net context) (\<lambda>_ p. \<exists>k. p = Dialling (Suc k))"
  unfolding phases_def tune_client_def tune_target_def emit_def modify_def
  by (auto split: prod.splits sum.splits intro: run_snoc tune_client tune_target)

lemma conforms_connected:
  "conforms (\<lambda>p. \<exists>k. p = Dialling (Suc k))
     (await (tune_target net context) (\<lambda>_.
      await (timeout net limit (client_write_all net (reply_encode (reply_new Succeeded)))) (\<lambda>r.
      case r of
        Inl _ \<Rightarrow> ready HandshakeTimeout
      | Inr (Inl error) \<Rightarrow> ready (HandshakeIo error)
      | Inr (Inr _) \<Rightarrow> await (relay_tcp net idle) (\<lambda>result. ready (close_of_relay_end result)))))
     reason_phase"
proof (rule phases_await [OF conforms_tune(2)])
  have relay: "conforms ((=) Relaying) (await (relay_tcp net idle) (\<lambda>result. ready (close_of_relay_end result))) reason_phase"
    by (rule phases_await [OF conforms_silent [OF acts_relay]])
      (auto intro!: phases_ready reason_phase_relay)
  show "conforms (\<lambda>p. \<exists>k. p = Dialling (Suc k))
     (await (timeout net limit (client_write_all net (reply_encode (reply_new Succeeded)))) (\<lambda>r.
      case r of
        Inl _ \<Rightarrow> ready HandshakeTimeout
      | Inr (Inl error) \<Rightarrow> ready (HandshakeIo error)
      | Inr (Inr _) \<Rightarrow> await (relay_tcp net idle) (\<lambda>result. ready (close_of_relay_end result)))) reason_phase"
    by (rule phases_await [where S = "\<lambda>r q. r = Inl () \<or> q = Relaying"])
      (auto intro!: conforms_timeout phases_write succeed phases_ready phases_conseq [OF relay] split: sum.split)
qed

lemma conforms_serve_target: "conforms ((=) Requesting) (serve_target net config context target) reason_phase"
  unfolding serve_target_def Let_def
proof (rule phases_await [where S = "\<lambda>r p. answerable p \<and> (\<forall>t. r = Inr (Inr t) \<longrightarrow> (\<exists>k. p = Dialling (Suc k)))"])
  show "conforms ((=) Requesting)
      (timeout net (t_connect (config_timeouts config)) (dial_target net (config_policy config) target))
      (\<lambda>r p. answerable p \<and> (\<forall>t. r = Inr (Inr t) \<longrightarrow> (\<exists>k. p = Dialling (Suc k))))"
    by (rule conforms_timeout) (rule phases_conseq [OF conforms_dial_target], auto)
  have code: "connect_error_reply_code e \<noteq> Succeeded" for e
    using reply_code_not_succeeded [of e] by auto
  show "conforms (\<lambda>p. answerable p \<and> (\<forall>t. r = Inr (Inr t) \<longrightarrow> (\<exists>k. p = Dialling (Suc k))))
     (case r of
       Inl _ \<Rightarrow> await (send_reply net HostUnreachable limit) (\<lambda>_. ready ConnectTimeout)
     | Inr (Inl error) \<Rightarrow>
         await (send_reply net (connect_error_reply_code error) limit) (\<lambda>_. ready (close_of_connect_error error))
     | Inr (Inr connected) \<Rightarrow>
         await (modify (\<lambda>c. c\<lparr>c_report := (c_report c)\<lparr>report_target_addr := Some (ct_addr connected)\<rparr>\<rparr>)) (\<lambda>_.
         await (tune_target net context) (\<lambda>_.
         await (timeout net limit (client_write_all net (reply_encode (reply_new Succeeded)))) (\<lambda>r.
         case r of
           Inl _ \<Rightarrow> ready HandshakeTimeout
         | Inr (Inl error) \<Rightarrow> ready (HandshakeIo error)
         | Inr (Inr _) \<Rightarrow> await (relay_tcp net idle) (\<lambda>result. ready (close_of_relay_end result))))))
     reason_phase" for r :: "unit + connect_error + unit connected_target" and limit idle
    by (auto intro!: conforms_refusal code reason_phase_connect_error
        phases_await [OF conforms_modify] phases_conseq [OF conforms_connected] split: sum.split)
qed

lemma conforms_run_connection: "conforms ((=) Greeting) (run_connection net config context) reason_phase"
  unfolding run_connection_def
proof (rule phases_await [OF conforms_tune(1)], rule phases_await)
  show "conforms ((=) Greeting) (timeout net (t_handshake (config_timeouts config)) (handshake net config context))
     (\<lambda>r q. case r of Inl _ \<Rightarrow> True | Inr x \<Rightarrow> step_result ((=) Requesting) x q)"
    by (rule conforms_timeout) (simp add: conforms_handshake)
  show "conforms (\<lambda>q. case r of Inl _ \<Rightarrow> True | Inr x \<Rightarrow> step_result ((=) Requesting) x q)
     (case r of
       Inl _ \<Rightarrow> ready HandshakeTimeout
     | Inr (Inl reason) \<Rightarrow> ready reason
     | Inr (Inr target) \<Rightarrow>
         await (modify (\<lambda>c. c\<lparr>c_report := (c_report c)\<lparr>report_target := Some (target_show target)\<rparr>\<rparr>)) (\<lambda>_.
         serve_target net config context target)) reason_phase" for r :: "unit + close_reason + target_addr"
    by (auto intro!: phases_ready phases_await [OF conforms_modify] conforms_serve_target split: sum.split)
qed

section \<open>Properties\<close>

text \<open>What the machine bounds: answers and dials by phase.\<close>

fun is_answer :: "action \<Rightarrow> bool" where
  "is_answer (Wrote _) = True"
| "is_answer _ = False"

fun is_dial :: "action \<Rightarrow> bool" where
  "is_dial (Dialled _) = True"
| "is_dial _ = False"

fun phase_bounds :: "phase \<Rightarrow> nat \<Rightarrow> nat \<Rightarrow> bool" where
  "phase_bounds Greeting answers dials = (answers = 0 \<and> dials = 0)"
| "phase_bounds Authenticating answers dials = (answers = 1 \<and> dials = 0)"
| "phase_bounds Requesting answers dials = (answers = 2 \<and> dials = 0)"
| "phase_bounds (Dialling n) answers dials = (answers = 2 \<and> dials = n \<and> n \<le> MAX_CONNECT_ATTEMPTS)"
| "phase_bounds Relaying answers dials = (answers = 3 \<and> 0 < dials \<and> dials \<le> MAX_CONNECT_ATTEMPTS)"
| "phase_bounds Rejecting answers dials = (answers = 2 \<and> dials = 0)"
| "phase_bounds (Rejected _) answers dials = (answers = 2 \<and> dials = 0)"
| "phase_bounds Ended answers dials = (answers \<le> 3 \<and> dials \<le> MAX_CONNECT_ATTEMPTS)"

lemma session_run_bounds:
  "session_run p tr q \<Longrightarrow> p = Greeting \<Longrightarrow>
     phase_bounds q (length (filter is_answer tr)) (length (filter is_dial tr))"
proof (induction rule: session_run.induct)
  case (run_snoc p tr q a r)
  from run_snoc.hyps(2) run_snoc.IH [OF run_snoc.prems] show ?case
    by cases (simp_all add: MAX_CONNECT_ATTEMPTS_def)
qed simp

text \<open>\<^bold>\<open>C4.\<close> The server speaks the protocol in order, in every environment and wherever it is cut off: what a
  connection does is a run of the session machine (method selection, then the verdict on the credentials, then
  at most one lookup and at most eight dials, then one reply, success only after a dial; after a refused login
  nothing but its log lines), followed by the closing line; and the reason in that line fits the phase the session
  had reached.\<close>

theorem session_refines_protocol:
  assumes "serve_connection net config context c = (reason, c')" and "c_trace c = []"
  shows "\<exists>done line p. c_trace c' = done @ [LogClosed line] \<and> session_run Greeting done p \<and>
    reason_phase reason p \<and> cl_reason line = close_reason_code reason"
  using assms(1)
proof (rule serve_connection_cases)
  fix c0 c1 started
  assume c0: "c_trace c0 = c_trace c" and c': "c' = close_connection net context started reason c1"
    and run: "reason = Shutdown \<and> c1 = c0 \<or> (\<exists>r. run_connection net config context c0 = (r, c1) \<and>
              reason = (case r of Ready x \<Rightarrow> x | Interrupted \<Rightarrow> Shutdown))"
  have "session_run Greeting (c_trace c0) Greeting" using c0 assms(2) by (simp add: run_Nil)
  then have "\<exists>p. session_run Greeting (c_trace c1) p \<and> reason_phase reason p"
    using run phasesD [OF conforms_run_connection [of net config "context"]]
    by (fastforce split: polled.splits)
  then show ?thesis
    using close_connection_trace(1) [of net "context" started reason c1]
    by (auto simp: c' closed_line_of_def)
qed

theorem session_refines_protocol_witness:
  "\<exists>c' done line. serve_connection sample_net minimal_config sample_context sample_conn =
       (close_reason.Completed, c') \<and> c_trace c' = done @ [LogClosed line] \<and> session_run Greeting done Relaying"
proof -
  obtain c' where s: "serve_connection sample_net minimal_config sample_context sample_conn =
      (close_reason.Completed, c')"
    using sample_served by (auto simp: Let_def)
  have "c_trace sample_conn = []" by (simp add: sample_conn_def)
  from session_refines_protocol [OF s this] s show ?thesis by auto
qed

end
