(* ===== verification/Deadlines.thy ===== *)
theory Deadlines
  imports Connection_Safety
begin

text \<open>
  How long a client can hold a connection that is not relaying. The locale \<open>clocked\<close> is what the program relies
  on of the runtime's clock and timers: while an operation waits, time goes on but not past a running
  timer, for then the operation is cut off; \<open>timers\<close> lists the deadlines of the \<open>timeout\<close> calls the
  task is in, innermost first. The program's own steps take no time.
\<close>

section \<open>Clock and timers\<close>

definition waits :: "('w \<Rightarrow> instant) \<Rightarrow> ('w \<Rightarrow> instant list) \<Rightarrow> 'w \<Rightarrow> 'w \<Rightarrow> bool" where
  "waits now timers w w' \<longleftrightarrow> timers w' = timers w \<and> now w \<le> now w' \<and>
     list_all (\<lambda>t. now w \<le> t \<longrightarrow> now w' \<le> t) (timers w)"

definition at_once :: "('w \<Rightarrow> instant) \<Rightarrow> ('w \<Rightarrow> instant list) \<Rightarrow> 'w \<Rightarrow> 'w \<Rightarrow> bool" where
  "at_once now timers w w' \<longleftrightarrow> timers w' = timers w \<and> now w' = now w"

lemma at_once_trans: "at_once now timers x y \<Longrightarrow> at_once now timers y z \<Longrightarrow> at_once now timers x z"
  by (simp add: at_once_def)

locale clocked =
  fixes net :: "'w net" and timers :: "'w \<Rightarrow> instant list"
  assumes read_u8_waits: "waits (net_now net) timers w (fst (snd (read_u8 (net_read net) (w, sh))))"
    and read_u16_waits: "waits (net_now net) timers w (fst (snd (read_u16 (net_read net) (w, sh))))"
    and read_exact_waits: "waits (net_now net) timers w (fst (snd (read_exact (net_read net) n (w, sh))))"
    and write_waits: "waits (net_now net) timers w (fst (snd (net_write_all net bs (w, sh))))"
    and lookup_waits: "waits (net_now net) timers w (fst (snd (net_lookup_host net host port (w, sh))))"
    and connect_waits: "waits (net_now net) timers w (fst (snd (net_connect net addr (w, sh))))"
    and sockets_at_once: "socket_keeps (at_once (net_now net) timers) (net_client_socket net)"
      "socket_keeps (at_once (net_now net) timers) (net_target_socket net)"
    and cancelled_at_once: "at_once (net_now net) timers w (snd (net_cancelled net w))"
    and arm: "timers (net_arm net limit w) = (net_now net w + limit) # timers w"
      "net_now net (net_arm net limit w) = net_now net w"
    and disarm: "timers (snd (net_disarm net w)) = tl (timers w)"
      "net_now net (snd (net_disarm net w)) = net_now net w"
begin

definition idles :: "'w conn \<Rightarrow> 'w conn \<Rightarrow> bool" where
  "idles c c' \<longleftrightarrow> waits (net_now net) timers (c_env c) (c_env c')"

lemma idles_refl: "idles c c"
  by (simp add: idles_def waits_def list_all_iff)

lemma idles_trans: "idles x y \<Longrightarrow> idles y z \<Longrightarrow> idles x z"
  by (auto simp: idles_def waits_def list_all_iff)

lemma keeps_idles_prim:
  assumes "\<And>w sh. waits (net_now net) timers w (fst (snd (m (w, sh))))"
  shows "keeps idles (prim as m)"
  unfolding keeps_def
proof
  fix c
  show "idles c (snd (prim as m c))"
    using assms [of "c_env c" "c_shared c"] by (auto simp: idles_def prim_def split: prod.split)
qed

lemma keeps_idles_await: "keeps idles m \<Longrightarrow> (\<And>a. keeps idles (k a)) \<Longrightarrow> keeps idles (await m k)"
  by (rule keeps_await [OF idles_trans])

lemma keeps_idles_try: "keeps idles m \<Longrightarrow> (\<And>a. keeps idles (k a)) \<Longrightarrow> keeps idles (try_await m conv k)"
  by (rule keeps_try_await [OF idles_refl idles_trans])

lemma keeps_idles_ready: "keeps idles (ready a)"
  by (rule keeps_ready) (rule idles_refl)

lemma keeps_idles_same: "(\<And>c. c_env (snd (m c)) = c_env c) \<Longrightarrow> keeps idles m"
  using idles_refl by (simp add: keeps_def idles_def)

lemma keeps_idles_write: "keeps idles (client_write_all net bs)"
  unfolding client_write_all_def by (intro keeps_idles_prim write_waits)

text \<open>A timeout ends within its limit, whatever it waits for.\<close>

lemma timeout_within:
  assumes "keeps idles m"
  shows "idles c (snd (timeout net limit m c))"
    and "net_now net (c_env (snd (timeout net limit m c))) \<le> net_now net (c_env c) + limit"
proof -
  have "idles (c\<lparr>c_env := net_arm net limit (c_env c)\<rparr>) (snd (m (c\<lparr>c_env := net_arm net limit (c_env c)\<rparr>)))"
    using assms by (simp add: keeps_def)
  then show "idles c (snd (timeout net limit m c))"
    and "net_now net (c_env (snd (timeout net limit m c))) \<le> net_now net (c_env c) + limit"
    by (auto simp: timeout_snd Let_def idles_def waits_def arm disarm)
qed

lemma keeps_idles_timeout: "keeps idles m \<Longrightarrow> keeps idles (timeout net limit m)"
  using timeout_within(1) by (auto simp: keeps_def)

lemma idles_reader: "invariant_reader (client_reader net) idles"
  by unfold_locales
    (auto simp: client_reader_def intro: idles_refl idles_trans keeps_idles_prim
      read_u8_waits read_u16_waits read_exact_waits)

lemmas idles_intros = keeps_idles_await keeps_idles_try keeps_idles_ready keeps_idles_write keeps_idles_timeout
  invariant_reader.keeps_greeting [OF idles_reader] invariant_reader.keeps_user_pass [OF idles_reader]
  invariant_reader.keeps_request [OF idles_reader]

lemma send_reply_idles: "keeps idles (send_reply net code limit)"
  unfolding send_reply_def by (intro idles_intros)

lemma handshake_idles: "keeps idles (handshake net config context)"
proof -
  have silent: "keeps idles (note_auth_failure net context)" "keeps idles (emit as)"
    "(\<And>c. c_env (f c) = c_env c) \<Longrightarrow> keeps idles (modify f)" for as and f :: "'w conn \<Rightarrow> 'w conn"
    by (auto intro!: keeps_idles_same simp: note_auth_failure_def emit_def modify_def Let_def split: prod.split)
  show ?thesis
    unfolding handshake_def negotiate_method_def authenticate_def read_connect_request_def Let_def
    by (auto intro!: idles_intros silent send_reply_idles split: option.split sum.split protocol_error.split command.split)
qed

lemma dial_target_idles: "keeps idles (dial_target net policy target)"
proof -
  have "keeps idles (dial_each (\<lambda>addr. prim [Dialled addr] (net_connect net addr)) e addrs)" for e addrs
    by (induction addrs arbitrary: e)
      (auto intro!: idles_intros keeps_idles_prim connect_waits split: sum.split)
  then show ?thesis
    unfolding dial_target_def connect_to_target_def resolve_target_def
    by (auto intro!: idles_intros keeps_idles_prim lookup_waits split: target_addr.split prod.split)
qed

abbreviation clock :: "'w conn \<Rightarrow> instant" where
  "clock c \<equiv> net_now net (c_env c)"

lemma timeout_clock:
  assumes "keeps idles m" and "timeout net limit m c = (r, c')"
  shows "clock c' \<le> clock c + limit"
  using timeout_within(2) [OF assms(1), of limit c] assms(2) by simp

lemma send_reply_clock: "clock (snd (send_reply net code limit c)) \<le> clock c + limit"
proof -
  have "clock (snd (timeout net limit (client_write_all net bs) c)) \<le> clock c + limit" for bs
    by (rule timeout_within(2)) (rule keeps_idles_write)
  then show ?thesis by (simp add: send_reply_def await_cases split: polled.split)
qed

lemma refusal_clock:
  assumes "await (send_reply net code limit) (\<lambda>_. ready a) c = (r, c')"
  shows "clock c' \<le> clock c + limit"
  using send_reply_clock [of code limit c] assms by (simp add: await_cases split: polled.splits)

lemma tune_clock:
  "\<exists>c'. tune_client net context c = (Ready (), c') \<and> clock c' = clock c"
  "\<exists>c'. tune_target net context c = (Ready (), c') \<and> clock c' = clock c"
  using tune_keeps [OF sockets_at_once(1) at_once_trans, where w = "c_env c"]
    tune_keeps [OF sockets_at_once(2) at_once_trans, where w = "c_env c"]
  by (auto simp: tune_client_def tune_target_def emit_def modify_def at_once_def split: prod.split)

text \<open>How a connection may outlast the bound: the client was told of success, and the relay ended or was
  cancelled.\<close>

definition relayed :: "close_reason polled \<Rightarrow> 'w conn \<Rightarrow> bool" where
  "relayed r c' \<longleftrightarrow> success_reply \<in> set (c_trace c') \<and> (r = Interrupted \<or> (\<exists>e. r = Ready (close_of_relay_end e)))"

lemma relay_phase:
  assumes "await (relay_tcp net idle) (\<lambda>result. ready (close_of_relay_end result)) c = (r, c')"
    and "success_reply \<in> set (c_trace c)"
  shows "relayed r c'"
  using assms by (auto simp: relayed_def relay_tcp_def await_cases Let_def split: prod.splits option.splits)

lemma serve_target_clock:
  assumes "serve_target net config context target c = (r, c')"
  shows "clock c' \<le> clock c + t_connect (config_timeouts config) + t_handshake (config_timeouts config) \<or> relayed r c'"
proof -
  let ?dial = "timeout net (t_connect (config_timeouts config)) (dial_target net (config_policy config) target)"
  let ?limit = "t_handshake (config_timeouts config)"
  obtain x c1 where x: "?dial c = (x, c1)" by (cases "?dial c")
  have c1: "clock c1 \<le> clock c + t_connect (config_timeouts config)"
    using dial_target_idles x by (rule timeout_clock)
  note run = assms [unfolded serve_target_def Let_def]
  consider (interrupted) "x = Interrupted" | (elapsed) u where "x = Ready (Inl u)"
    | (failed) e where "x = Ready (Inr (Inl e))" | (connected) t where "x = Ready (Inr (Inr t))"
    by (cases x) (metis old.sum.exhaust, simp)
  then show ?thesis
  proof cases
    case interrupted
    with run x c1 show ?thesis by simp
  next
    case elapsed
    with run x have "clock c' \<le> clock c1 + ?limit" by (auto intro: refusal_clock)
    with c1 show ?thesis by simp
  next
    case failed
    with run x have "clock c' \<le> clock c1 + ?limit" by (auto intro: refusal_clock)
    with c1 show ?thesis by simp
  next
    case (connected t)
    let ?c2 = "c1\<lparr>c_report := (c_report c1)\<lparr>report_target_addr := Some (ct_addr t)\<rparr>\<rparr>"
    let ?success = "timeout net ?limit (client_write_all net (reply_encode (reply_new Succeeded)))"
    obtain c3 where c3: "tune_target net context ?c2 = (Ready (), c3)" "clock c3 = clock c1"
      using tune_clock(2) [of "context" ?c2] by auto
    obtain y c4 where y: "?success c3 = (y, c4)" by (cases "?success c3")
    have c4: "clock c4 \<le> clock c3 + ?limit" using keeps_idles_write y by (rule timeout_clock)
    have "success_reply \<in> set (c_trace (snd (?success c3)))"
      by (auto simp: timeout_snd client_write_all_def prim_def Let_def split: prod.split)
    with y have told: "success_reply \<in> set (c_trace c4)" by simp
    show ?thesis
    proof (cases "\<exists>u. y = Ready (Inr (Inr u))")
      case True
      then have "await (relay_tcp net (t_idle (config_timeouts config))) (\<lambda>result. ready (close_of_relay_end result)) c4 = (r, c')"
        using run x connected c3 y by auto
      with told show ?thesis by (blast intro: relay_phase)
    next
      case False
      then have "c' = c4" using run x connected c3 y by (cases y) (auto split: sum.splits)
      with c1 c3 c4 show ?thesis by simp
    qed
  qed
qed

lemma run_connection_clock:
  assumes "run_connection net config context c = (r, c')"
  shows "clock c' \<le> clock c + 2 * t_handshake (config_timeouts config) + t_connect (config_timeouts config) \<or> relayed r c'"
proof -
  let ?hs = "timeout net (t_handshake (config_timeouts config)) (handshake net config context)"
  obtain c1 where c1: "tune_client net context c = (Ready (), c1)" "clock c1 = clock c"
    using tune_clock(1) by blast
  obtain x c2 where x: "?hs c1 = (x, c2)" by (cases "?hs c1")
  have c2: "clock c2 \<le> clock c1 + t_handshake (config_timeouts config)"
    using handshake_idles x by (rule timeout_clock)
  show ?thesis
  proof (cases "\<exists>target. x = Ready (Inr (Inr target))")
    case True
    then obtain target where t: "x = Ready (Inr (Inr target))" by blast
    have "serve_target net config context target
        (c2\<lparr>c_report := (c_report c2)\<lparr>report_target := Some (target_show target)\<rparr>\<rparr>) = (r, c')"
      using assms c1 x t by (simp add: run_connection_def)
    from serve_target_clock [OF this] c1 c2 show ?thesis by auto
  next
    case False
    then have "c' = c2" using assms c1 x by (cases x) (auto simp: run_connection_def split: sum.splits)
    with c1 c2 show ?thesis by simp
  qed
qed

lemma serve_connection_clock:
  assumes "serve_connection net config context c = (reason, c')"
  shows "clock c' \<le> clock c + 2 * t_handshake (config_timeouts config) + t_connect (config_timeouts config) \<or>
    success_reply \<in> set (c_trace c') \<and> (reason = Shutdown \<or> (\<exists>e. reason = close_of_relay_end e))"
proof -
  obtain k w where k: "net_cancelled net (c_env c) = (k, w)" by (cases "net_cancelled net (c_env c)")
  with cancelled_at_once [of "c_env c"] have w: "net_now net w = clock c" by (simp add: at_once_def)
  let ?c0 = "c\<lparr>c_report := report_default, c_env := w\<rparr>"
  obtain r c1 where r: "run_connection net config context ?c0 = (r, c1)"
    by (cases "run_connection net config context ?c0")
  have env: "c_env (close_connection net context started why x) = c_env x"
    "set (c_trace x) \<subseteq> set (c_trace (close_connection net context started why x))" for started why x
    by (auto simp: close_connection_def Let_def)
  show ?thesis
  proof (cases k)
    case True
    with assms k w show ?thesis by (auto simp: serve_connection_def Let_def env)
  next
    case False
    with assms k r have c': "reason = (case r of Ready x \<Rightarrow> x | Interrupted \<Rightarrow> Shutdown)"
      "c' = close_connection net context (clock c) reason c1"
      by (auto simp: serve_connection_def Let_def)
    from run_connection_clock [OF r] show ?thesis
      using c' w env [where x = c1 and why = reason and started = "clock c"] by (auto simp: relayed_def)
  qed
qed

end

text \<open>\<^bold>\<open>C6.\<close> A client that is not being relayed cannot hold a connection: however slowly it reads and writes,
  and however slowly names resolve and targets answer, the connection is over within twice the handshake
  timeout plus the connect timeout, unless the client was told that its request succeeded and the relay
  has ended or was cut short by the shutdown.\<close>

theorem unserved_client_bounded:
  assumes "clocked net timers" and "serve_connection net config context c = (reason, c')"
  shows "net_now net (c_env c') \<le>
      net_now net (c_env c) + 2 * t_handshake (config_timeouts config) + t_connect (config_timeouts config) \<or>
    Wrote (reply_encode (reply_new Succeeded)) \<in> set (c_trace c') \<and>
      (reason = Shutdown \<or> (\<exists>e. reason = close_of_relay_end e))"
  using assms by (rule clocked.serve_connection_clock)

section \<open>A slow environment\<close>

text \<open>Every operation takes its lag, or is cut off at the earliest deadline; otherwise the environment is the
  scripted one.\<close>

record timed_world =
  tw_now :: instant
  tw_timers :: "instant list"
  tw_input :: "u8 list"

definition lagged :: "duration \<Rightarrow> (u8 list \<times> shared_state, 'a) async \<Rightarrow> (timed_world \<times> shared_state, 'a) async" where
  "lagged lag m = (\<lambda>(w, sh).
     let t = tw_now w + lag; deadlines = filter (\<lambda>d. tw_now w \<le> d) (tw_timers w) in
     if list_all (\<lambda>d. t \<le> d) deadlines
     then case m (tw_input w, sh) of (r, inp, sh') \<Rightarrow> (r, w\<lparr>tw_now := t, tw_input := inp\<rparr>, sh')
     else (Interrupted, w\<lparr>tw_now := foldr min deadlines t\<rparr>, sh))"

definition slow :: "duration \<Rightarrow> duration \<Rightarrow> duration \<Rightarrow> u8 list net \<Rightarrow> timed_world net" where
  "slow client_lag lookup_lag connect_lag base = \<lparr>
     net_read = \<lparr>read_u8 = lagged client_lag (read_u8 (net_read base)),
                 read_u16 = lagged client_lag (read_u16 (net_read base)),
                 read_exact = (\<lambda>n. lagged client_lag (read_exact (net_read base) n))\<rparr>,
     net_write_all = (\<lambda>bs. lagged client_lag (net_write_all base bs)),
     net_lookup_host = (\<lambda>h p. lagged lookup_lag (net_lookup_host base h p)),
     net_connect = (\<lambda>a. lagged connect_lag (net_connect base a)),
     net_client_socket = willing_socket, net_target_socket = willing_socket,
     net_arm = (\<lambda>d w. w\<lparr>tw_timers := (tw_now w + d) # tw_timers w\<rparr>),
     net_disarm = (\<lambda>w. (tw_timers w \<noteq> [] \<and> hd (tw_timers w) \<le> tw_now w, w\<lparr>tw_timers := tl (tw_timers w)\<rparr>)),
     net_relay = (\<lambda>d (w, sh). case net_relay base d (tw_input w, sh) of
        (course, inp, sh') \<Rightarrow> (course, w\<lparr>tw_input := inp\<rparr>, sh')),
     net_cancelled = (\<lambda>w. (False, w)),
     net_now = tw_now, net_ct_eq = net_ct_eq base, net_unicode = net_unicode base\<rparr>"

lemma foldr_min_le: "foldr min ds t \<le> (t :: nat)" "d \<in> set ds \<Longrightarrow> foldr min ds t \<le> d"
  by (induction ds) auto

lemma foldr_min_ge: "\<lbrakk>\<forall>d\<in>set ds. n \<le> d; n \<le> (t :: nat)\<rbrakk> \<Longrightarrow> n \<le> foldr min ds t"
  by (induction ds) auto

lemma lagged_waits: "waits tw_now tw_timers w (fst (snd (lagged lag m (w, sh))))"
proof (cases "m (tw_input w, sh)")
  case (fields r inp sh')
  then show ?thesis
    by (auto simp: waits_def lagged_def Let_def list_all_iff intro: foldr_min_le foldr_min_ge)
qed

interpretation slow_client: clocked "slow client_lag lookup_lag connect_lag base" tw_timers
  by unfold_locales (simp_all add: slow_def lagged_waits at_once_def willing_socket)

text \<open>A client that sends its bytes at one per minute is dropped after ten seconds.\<close>

definition stalling_conn :: "timed_world conn" where
  "stalling_conn = at \<lparr>tw_now = 7, tw_timers = [], tw_input = login_bytes\<rparr> (c_shared sample_conn) report_default []"

definition stalling_net :: "timed_world net" where
  "stalling_net = slow (from_secs 60) 0 0 sample_net"

lemma stalling_served:
  "\<exists>c'. serve_connection stalling_net minimal_config sample_context stalling_conn = (HandshakeTimeout, c') \<and>
     net_now stalling_net (c_env c') = 7 + from_secs 10 \<and> net_now stalling_net (c_env stalling_conn) = 7 \<and>
     success_reply \<notin> set (c_trace c')"
  by (simp add: serve_connection_def run_connection_def tune_client_def timeout_def Let_def stalling_net_def
      slow_def stalling_conn_def emit_def modify_def handshake_def negotiate_method_def greeting_read_from_def
      client_reader_def prim_def lagged_def from_secs_def minimal_config_def try_await_def await_def
      close_connection_def willing_socket)

theorem unserved_client_bounded_witness:
  "\<exists>c'. serve_connection stalling_net minimal_config sample_context stalling_conn = (HandshakeTimeout, c') \<and>
     net_now stalling_net (c_env c') \<le> 7 + 2 * from_secs 10 + from_secs 15"
proof -
  obtain c' where c': "serve_connection stalling_net minimal_config sample_context stalling_conn = (HandshakeTimeout, c')"
    "net_now stalling_net (c_env stalling_conn) = 7" "success_reply \<notin> set (c_trace c')"
    using stalling_served by blast
  have "clocked stalling_net tw_timers"
    unfolding stalling_net_def by (rule slow_client.clocked_axioms)
  from unserved_client_bounded [OF this c'(1)] c' show ?thesis by (auto simp: minimal_config_def)
qed

end
