(* ===== verification/Log_Hygiene.thy ===== *)
theory Log_Hygiene
  imports Connection_Safety
begin

text \<open>
  What untrusted or secret text reaches the log: the name of a failed login is escaped before it is
  written, and the \<open>Debug\<close> texts of the types that hold credentials leave the password out.
\<close>

definition clean_line :: "action \<Rightarrow> bool" where
  "clean_line a \<longleftrightarrow> (\<forall>i p name n. a = LogAuthFailed i p name n \<longrightarrow> clean_text name)"

definition tables_hide_controls :: "unicode_tables \<Rightarrow> bool" where
  "tables_hide_controls tables \<longleftrightarrow> (\<forall>x\<in>{127..159}. \<not> table_printable tables x)"

lemma clean_failure_lines:
  assumes "tables_hide_controls tables"
  shows "list_all clean_line (auth_failure_lines tables config context credentials verdict)"
proof -
  have "clean_text (escape_debug tables s)" for s
    using assms by (intro escape_debug_clean) (auto simp: tables_hide_controls_def)
  then show ?thesis
    by (auto simp: auth_failure_lines_def clean_line_def split: failure_verdict.split)
qed

lemma clean_line_simps [simp]:
  "clean_line (Wrote bs)" "clean_line (LogTuneFailed i e)" "clean_line (LogClosed l)"
  by (simp_all add: clean_line_def)

lemma acts_clean_handshake:
  assumes "tables_hide_controls (net_unicode net)"
  shows "acts clean_line False (handshake net config context)"
  unfolding handshake_def
  by (intro acts_intros acts_negotiate acts_authenticate_lines acts_read_connect clean_failure_lines assms clean_line_simps)

lemma acts_clean_serve: "acts clean_line False (serve_target net config context target)"
  unfolding keeps_def
proof
  fix c
  have "within (serve_action (config_policy config)) True c (snd (serve_target net config context target c))"
    using acts_serve_target unfolding keeps_def by blast
  then show "within clean_line False c (snd (serve_target net config context target c))"
    by (rule within_mono) (auto simp: serve_action_def dial_action_def clean_line_def)
qed

lemma acts_clean_run:
  assumes "tables_hide_controls (net_unicode net)"
  shows "acts clean_line False (run_connection net config context)"
  unfolding run_connection_def
  by (auto intro!: acts_intros acts_tune acts_clean_handshake assms acts_modify acts_clean_serve split: sum.split)

text \<open>\<^bold>\<open>C18.\<close> A client cannot forge log lines through its user name: whatever bytes it sends as the name, the name
  in the "authentication failed" line is valid UTF-8 without control characters (no line breaks, no
  terminal escapes), provided that the library's table of printable characters has none of the controls
  U+007F to U+009F.\<close>

theorem logged_names_clean:
  assumes "tables_hide_controls (net_unicode net)"
    and "serve_connection net config context c = (reason, c')" and "c_trace c = []"
    and "LogAuthFailed i p name n \<in> set (c_trace c')"
  shows "utf8_valid (as_bytes name) \<and> list_all (\<lambda>x. \<not> is_control (code_point x)) (chars name)"
  using assms(2)
proof (rule serve_connection_cases)
  fix c0 c1 started
  assume c0: "c_trace c0 = c_trace c" and c': "c' = close_connection net context started reason c1"
    and run: "reason = Shutdown \<and> c1 = c0 \<or> (\<exists>r. run_connection net config context c0 = (r, c1) \<and>
              reason = (case r of Ready x \<Rightarrow> x | Interrupted \<Rightarrow> Shutdown))"
  have "within clean_line False c0 c1"
    using run keepsD [OF acts_clean_run [OF assms(1)]] by fastforce
  then have "list_all clean_line (c_trace c1)" using c0 assms(3) by (auto elim!: withinE)
  then have "clean_line (LogAuthFailed i p name n)"
    using assms(4) close_connection_trace(1) [of net "context" started reason c1]
    by (auto simp: c' list_all_iff)
  then show ?thesis by (auto simp: clean_line_def clean_text_def)
qed

text \<open>A client that tries: its name is a line break, an escape character and a stray byte.\<close>

definition forging_conn :: "u8 list conn" where
  "forging_conn = at ([5, 1, 2] @ [1, 3, 10, 27, 0xFF, 1, 121]) (c_shared sample_conn) report_default []"

definition forged_name :: string where
  "forged_name = escape_debug (net_unicode sample_net) (from_utf8_lossy [10, 27, 0xFF])"

lemma forged_name_text: "forged_name = [backslash, CHR ''n''] @ [backslash] @ ''u{1b}'' @ [CHR 0xEF, CHR 0xBF, CHR 0xBD]"
  by (simp add: forged_name_def escape_debug_def chars_from_utf8_lossy utf8_step_def Let_def between_def
      escape_char_def ESCAPE_ALL_def is_printable_def to_radix.simps digit_char_def REPLACEMENT_def string_of_bytes_def
      char_of_byte_def sample_net_def scripted_def char_of_def bit_0)

lemma forging_served:
  "\<exists>reason c' n. serve_connection sample_net minimal_config sample_context forging_conn = (reason, c') \<and>
     LogAuthFailed 1 (peer sample_context) forged_name n \<in> set (c_trace c')"
proof -
  let ?cr = "\<lparr>upr_username = [10, 27, 0xFF], upr_password = [121]\<rparr>" and ?sh = "c_shared sample_conn"
  have env: "cooperative sample_net id"
    unfolding sample_net_def by (rule scripted_client.cooperative_axioms)
  have g: "greeting_read_from slice_reader (id (c_env forging_conn)) =
      (Ready (Ok \<lparr>methods = [2]\<rparr>), [1, 3, 10, 27, 0xFF, 1, 121])"
    by (simp add: forging_conn_def greeting_read_from_def socks_consts slice_read_exact_def)
  have u: "user_pass_read_from slice_reader [1, 3, 10, 27, 0xFF, 1, 121] = (Ready (Ok ?cr), [])"
    using user_pass_codec.read_encode [of ?cr "[1, 3, 10, 27, 0xFF, 1, 121]" "[]"]
    by (simp add: user_pass_wf_def user_pass_encode_eq socks_consts)
  have o: "offers \<lparr>methods = [2]\<rparr> METHOD_USER_PASS" by (simp add: offers_def socks_consts)
  have "verify (=) \<lparr>us_users = [stored_of alice]\<rparr> [10, 27, 0xFF] [121] \<noteq> Some n" for n
    using verify_Some_iff [OF _ alice_store, of "(=)" "[10, 27, 0xFF]" "[121]"]
    by (simp add: ct_eq_spec_def alice_def as_bytes_def)
  then have v: "verify (net_ct_eq sample_net) (users minimal_config) (upr_username ?cr) (upr_password ?cr) = None"
    by (simp add: sample_net_def scripted_def minimal_config_def) (metis option.exhaust)
  from cooperative.handshake_bad_credentials [OF env g o u v, of sample_context ?sh report_default "[]"]
  obtain w' now where h: "handshake sample_net minimal_config sample_context forging_conn =
      (Ready (Err AuthFailed), at w' (after_failure sample_context now ?sh) report_default
        (Wrote [5, 2] # Wrote [1, 1] # auth_failure_lines (net_unicode sample_net) minimal_config sample_context ?cr
          (fst (record_failure (ban_list_of ?sh) (sock_ip (peer sample_context)) now))))"
    by (auto simp: forging_conn_def)
  define tr where "tr = Wrote [5, 2] # Wrote [1, 1] # auth_failure_lines (net_unicode sample_net) minimal_config
    sample_context ?cr (fst (record_failure (ban_list_of ?sh) (sock_ip (peer sample_context)) now))"
  have tr: "\<exists>n. LogAuthFailed 1 (peer sample_context) forged_name n \<in> set tr"
    by (auto simp: tr_def auth_failure_lines_def forged_name_def sample_context_def)
  note h = h [folded tr_def]
  let ?c' = "close_connection sample_net sample_context 0 AuthFailed
    (at w' (after_failure sample_context now ?sh) report_default tr)"
  have "serve_connection sample_net minimal_config sample_context forging_conn = (AuthFailed, ?c')"
    using h by (simp add: serve_connection_def run_connection_def tune_client_def timeout_def Let_def
        sample_net_def scripted_def forging_conn_def emit_def modify_def willing_socket)
  moreover have "set tr \<subseteq> set (c_trace ?c')"
    using close_connection_trace(1) [of sample_net sample_context 0 AuthFailed
      "at w' (after_failure sample_context now ?sh) report_default tr"] by auto
  ultimately show ?thesis using tr by blast
qed

theorem logged_names_clean_witness:
  "\<exists>reason c' n. serve_connection sample_net minimal_config sample_context forging_conn = (reason, c') \<and>
     LogAuthFailed 1 (peer sample_context) forged_name n \<in> set (c_trace c') \<and>
     utf8_valid (as_bytes forged_name) \<and> list_all (\<lambda>x. \<not> is_control (code_point x)) (chars forged_name)"
proof -
  obtain reason c' n where s: "serve_connection sample_net minimal_config sample_context forging_conn = (reason, c')"
    "LogAuthFailed 1 (peer sample_context) forged_name n \<in> set (c_trace c')"
    using forging_served by blast
  have "tables_hide_controls (net_unicode sample_net)"
    by (simp add: tables_hide_controls_def sample_net_def scripted_def)
  from logged_names_clean [OF this s(1) _ s(2)] s show ?thesis by (auto simp: forging_conn_def)
qed

section \<open>Debug texts\<close>

text \<open>\<open>f.debug_struct(name).field(...).finish()\<close> in the compact form.\<close>

fun debug_fields :: "(string \<times> string) list \<Rightarrow> string" where
  "debug_fields [] = []"
| "debug_fields [(name, value)] = name @ '': '' @ value"
| "debug_fields ((name, value) # fs) = name @ '': '' @ value @ '', '' @ debug_fields fs"

definition debug_struct :: "string \<Rightarrow> (string \<times> string) list \<Rightarrow> string" where
  "debug_struct name fs = name @ '' { '' @ debug_fields fs @ '' }''"

fun debug_items :: "string list \<Rightarrow> string" where
  "debug_items [] = []"
| "debug_items [x] = x"
| "debug_items (x # xs) = x @ '', '' @ debug_items xs"

definition user_credentials_debug :: "unicode_tables \<Rightarrow> user_credentials \<Rightarrow> string" where
  "user_credentials_debug tables c = debug_struct ''UserCredentials''
     [(''username'', debug_str tables (uc_username c)), (''password'', debug_str tables ''<redacted>'')]"

definition user_settings_debug :: "unicode_tables \<Rightarrow> user_settings_model \<Rightarrow> string" where
  "user_settings_debug tables u = debug_struct ''UserSettingsModel''
     [(''username'', debug_str tables (usm_username u)), (''password'', debug_str tables ''<redacted>'')]"

definition user_pass_debug :: "unicode_tables \<Rightarrow> user_pass_request \<Rightarrow> string" where
  "user_pass_debug tables u = debug_struct ''UserPassRequest''
     [(''username'', debug_str tables (from_utf8_lossy (upr_username u))),
      (''password'', debug_str tables ''<redacted>'')]"

definition user_store_debug :: "unicode_tables \<Rightarrow> user_store \<Rightarrow> string" where
  "user_store_debug tables store = debug_struct ''UserStore''
     [(''users'', ''['' @ debug_items (map (debug_str tables) (usernames store)) @ '']'')]"

text \<open>Each text is one clean line, whatever the names and passwords are.\<close>

lemma clean_text_append: "clean_text s \<Longrightarrow> clean_text t \<Longrightarrow> clean_text (s @ t)"
proof -
  assume s: "clean_text s" and t: "clean_text t"
  have "clean_chars (chars s @ chars t)"
    using s t lossy_chars_utf8 [of "as_bytes s"] lossy_chars_utf8 [of "as_bytes t"]
    by (auto simp: clean_chars_def clean_text_def chars_def list_all_iff)
  moreover have "as_bytes (s @ t) = concat (chars s @ chars t)"
    using s t by (simp add: clean_text_def chars_def lossy_chars_valid) (simp add: as_bytes_def)
  ultimately show ?thesis by (rule clean_textI [rotated])
qed

lemma clean_text_plain:
  assumes "list_all plain s"
  shows "clean_text s"
proof (rule clean_textI [OF _ plain_clean [OF assms]])
  show "as_bytes s = concat (map (\<lambda>c. [byte_of_char c]) s)" by (induction s) (auto simp: as_bytes_def)
qed

lemma clean_text_Cons: "plain c \<Longrightarrow> clean_text s \<Longrightarrow> clean_text (c # s)"
  using clean_text_append [OF clean_text_plain [of "[c]"]] by simp

lemma debug_str_clean:
  assumes "tables_hide_controls tables"
  shows "clean_text (debug_str tables s)"
proof -
  obtain ds where "as_bytes (concat (map (escape_char tables (ESCAPE_ALL\<lparr>single_quote := False\<rparr>)) (chars s))) = concat ds"
    "clean_chars ds"
    using escape_chars_clean [of tables "chars s" "ESCAPE_ALL\<lparr>single_quote := False\<rparr>"]
      lossy_chars_utf8 [of "as_bytes s"] assms
    by (auto simp: tables_hide_controls_def chars_def)
  then have "clean_text (concat (map (escape_char tables (ESCAPE_ALL\<lparr>single_quote := False\<rparr>)) (chars s)))"
    by (rule clean_textI)
  moreover have "clean_text [CHR 0x22]" by (rule clean_text_plain) (simp add: plain_def)
  ultimately show ?thesis unfolding debug_str_def by (intro clean_text_append)
qed

lemma debug_fields_clean:
  "list_all (\<lambda>(name, value). list_all plain name \<and> clean_text value) fs \<Longrightarrow> clean_text (debug_fields fs)"
  by (induction fs rule: debug_fields.induct)
    (auto intro!: clean_text_append clean_text_Cons intro: clean_text_plain simp: plain_def)

lemma debug_items_clean: "list_all clean_text xs \<Longrightarrow> clean_text (debug_items xs)"
  by (induction xs rule: debug_items.induct)
    (auto intro!: clean_text_append clean_text_Cons intro: clean_text_plain simp: plain_def)

lemma debug_struct_clean:
  assumes "list_all plain name" and "list_all (\<lambda>(name, value). list_all plain name \<and> clean_text value) fs"
  shows "clean_text (debug_struct name fs)"
  unfolding debug_struct_def
  by (intro clean_text_append debug_fields_clean assms clean_text_plain) (simp_all add: plain_def)

lemma debug_texts_clean:
  assumes "tables_hide_controls tables"
  shows "clean_text (user_credentials_debug tables c)" and "clean_text (user_settings_debug tables u)"
    and "clean_text (user_pass_debug tables r)" and "clean_text (user_store_debug tables store)"
proof -
  note str = debug_str_clean [OF assms]
  show "clean_text (user_credentials_debug tables c)"
    unfolding user_credentials_debug_def by (rule debug_struct_clean) (simp_all add: str plain_def)
  show "clean_text (user_settings_debug tables u)"
    unfolding user_settings_debug_def by (rule debug_struct_clean) (simp_all add: str plain_def)
  show "clean_text (user_pass_debug tables r)"
    unfolding user_pass_debug_def by (rule debug_struct_clean) (simp_all add: str plain_def)
  have "clean_text (''['' @ debug_items (map (debug_str tables) (usernames store)) @ '']'')"
    by (intro clean_text_append debug_items_clean clean_text_plain) (simp_all add: plain_def list_all_iff str)
  then show "clean_text (user_store_debug tables store)"
    unfolding user_store_debug_def by (intro debug_struct_clean) (simp_all add: plain_def)
qed

end
