(* ===== verification/Fd_Stress.thy ===== *)
theory Fd_Stress
  imports Process Socks_Client
begin

text \<open>
  \<open>examples/fd_stress.rs\<close>: the program that checks the proxy for leaked descriptors, driving it from outside. The
  world it runs in (sockets, the runtime with the tasks it spawns, clock, resource limits, directory of open
  descriptors) is the parameter \<open>ops\<close>; every operation on it, reading the clock or the proxy's state included, lets
  the other tasks go on. A step of the program gives \<open>None\<close> when it does not come to an end. What is printed is left out.
\<close>

section \<open>Arguments\<close>

record options =
  opt_connections :: usize
  opt_timeout :: duration

datatype arg_error = NeedsValue string | NotANumber string | UnknownArgument string | TooFewConnections

fun parse_args :: "string list \<Rightarrow> options \<Rightarrow> arg_error + options" where
  "parse_args [] options = (if opt_connections options \<ge> 2 then Ok options else Err TooFewConnections)"
| "parse_args [flag] options = Err (NeedsValue flag)"
| "parse_args (flag # value # args) options =
     (if flag = ''--connections'' then
        (case parse_uint u64_max value of
           None \<Rightarrow> Err (NotANumber value)
         | Some n \<Rightarrow> parse_args args (options\<lparr>opt_connections := n\<rparr>))
      else if flag = ''--timeout-ms'' then
        (case parse_uint u64_max value of
           None \<Rightarrow> Err (NotANumber value)
         | Some n \<Rightarrow> parse_args args (options\<lparr>opt_timeout := from_millis n\<rparr>))
      else Err (UnknownArgument flag))"

definition from_args :: "string list \<Rightarrow> arg_error + options" where
  "from_args args = parse_args (drop 1 args) \<lparr>opt_connections = 1000, opt_timeout = from_millis 2000\<rparr>"

section \<open>The world\<close>

record ('w, 'l, 'c, 'sem) stress_ops =
  sw_rlimits :: "'w rlimit_ops"
  sw_bind :: "socket_addr \<Rightarrow> ('w, io_error + 'l) async"
  sw_local_addr :: "'l \<Rightarrow> 'w \<Rightarrow> (io_error + socket_addr) \<times> 'w"
  sw_spawn_echo :: "'l \<Rightarrow> 'w \<Rightarrow> 'w"
  sw_spawn_server :: "'l \<Rightarrow> 'sem socks_server \<Rightarrow> 'w \<Rightarrow> 'w"
  sw_semaphore :: "'sem semaphore_ops"
  sw_state :: "'w \<Rightarrow> 'sem server_state \<times> 'w"
  sw_connect :: "socket_addr \<Rightarrow> ('w, io_error + 'c) async"
  sw_reader :: "'c \<Rightarrow> 'w async_read"
  sw_write_all :: "'c \<Rightarrow> u8 list \<Rightarrow> ('w, io_error + unit) async"
  sw_close :: "'c \<Rightarrow> 'w \<Rightarrow> 'w"
  sw_directories :: "'w \<Rightarrow> (string \<Rightarrow> io_error + string list) \<times> 'w"
  sw_clock :: "'w \<Rightarrow> instant \<times> 'w"
  sw_sleep :: "duration \<Rightarrow> 'w \<Rightarrow> 'w"

datatype 'y stress_error =
    ArgError arg_error
  | IoFailure io_error
  | YamlFailure 'y
  | ConfigFailure "'y config_error"
  | ClientFailure client_error
  | StillOpen usize duration
  | ExpectedDescriptors usize usize
  | ExpectedBaseline usize usize

type_synonym ('w, 'y, 'a) prog = "'w \<Rightarrow> (('y stress_error + 'a) \<times> 'w) option"

definition give :: "'y stress_error + 'a \<Rightarrow> ('w, 'y, 'a) prog" where
  "give r = (\<lambda>w. Some (r, w))"

definition observe :: "('w \<Rightarrow> 'a \<times> 'w) \<Rightarrow> ('w, 'y, 'a) prog" where
  "observe f = (\<lambda>w. let (a, w') = f w in Some (Ok a, w'))"

definition effect :: "('w \<Rightarrow> 'w) \<Rightarrow> ('w, 'y, unit) prog" where
  "effect f = (\<lambda>w. Some (Ok (), f w))"

text \<open>\<open>m?; k\<close>: an error ends the program.\<close>

definition seq :: "('w, 'y, 'a) prog \<Rightarrow> ('a \<Rightarrow> ('w, 'y, 'b) prog) \<Rightarrow> ('w, 'y, 'b) prog" where
  "seq m k = (\<lambda>w. case m w of
     None \<Rightarrow> None
   | Some (Inl e, w') \<Rightarrow> Some (Err e, w')
   | Some (Inr a, w') \<Rightarrow> k a w')"

definition call :: "('e \<Rightarrow> 'y stress_error) \<Rightarrow> ('w \<Rightarrow> ('e + 'a) \<times> 'w) \<Rightarrow> ('w, 'y, 'a) prog" where
  "call conv f = (\<lambda>w. let (r, w') = f w in Some (map_err conv r, w'))"

text \<open>An awaited future that is never ready keeps the program waiting for ever.\<close>

definition await_io :: "('e \<Rightarrow> 'y stress_error) \<Rightarrow> ('w, 'e + 'a) async \<Rightarrow> ('w, 'y, 'a) prog" where
  "await_io conv m = (\<lambda>w. case m w of
     (Ready r, w') \<Rightarrow> Some (map_err conv r, w')
   | (Interrupted, _) \<Rightarrow> None)"

definition ensure :: "bool \<Rightarrow> 'y stress_error \<Rightarrow> ('w, 'y, unit) prog" where
  "ensure b error = give (if b then Ok () else Err error)"

section \<open>Steps of the check\<close>

definition USER :: string where "USER = ''stress''"
definition PASSWORD :: string where "PASSWORD = ''stress-password''"

definition loopback :: socket_addr where "loopback = SockV4 0x7F000001 0"

definition newline :: string where "newline = [CHR 0x0A]"

text \<open>The settings of the proxy under test. The sum is computed in a \<open>usize\<close>, which wraps in a release build.\<close>

definition stress_yaml :: "options \<Rightarrow> string" where
  "stress_yaml options =
     ''users:'' @ newline @ ''  - username: '' @ USER @ newline @ ''    password: '' @ PASSWORD @ newline @
     ''internal_whitelist: [127.0.0.1]'' @ newline @
     ''max_connections: '' @ decimal ((opt_connections options + 16) mod 2 ^ 64) @ newline"

definition stress_config :: "(u8 list \<Rightarrow> 'y + settings_model) \<Rightarrow> options \<Rightarrow> 'y stress_error + server_config" where
  "stress_config from_yaml options =
     try_bind (map_err YamlFailure (from_yaml (as_bytes (stress_yaml options)))) (\<lambda>settings.
     try_bind (map_err ConfigFailure (from_settings settings)) (\<lambda>config.
     let config = config\<lparr>listen_address := loopback\<rparr>;
         limits = (config_timeouts config)\<lparr>t_idle := opt_timeout options\<rparr>;
         limits = limits\<lparr>t_handshake := opt_timeout options\<rparr>
     in Ok (config\<lparr>config_timeouts := limits\<rparr>)))"

definition start_proxy :: "('w, 'l, 'c, 'sem) stress_ops \<Rightarrow> (u8 list \<Rightarrow> 'y + settings_model) \<Rightarrow> options \<Rightarrow>
    ('w, 'y, socket_addr) prog" where
  "start_proxy ops from_yaml options =
     seq (give (stress_config from_yaml options)) (\<lambda>config.
     seq (await_io IoFailure (sw_bind ops (listen_address config))) (\<lambda>listener.
     seq (call IoFailure (sw_local_addr ops listener)) (\<lambda>addr.
     seq (observe (sw_clock ops)) (\<lambda>now.
     seq (effect (sw_spawn_server ops listener (server_start (sw_semaphore ops) now config))) (\<lambda>_.
     give (Ok addr))))))"

definition start_echo_server :: "('w, 'l, 'c, 'sem) stress_ops \<Rightarrow> ('w, 'y, socket_addr) prog" where
  "start_echo_server ops =
     seq (await_io IoFailure (sw_bind ops loopback)) (\<lambda>listener.
     seq (call IoFailure (sw_local_addr ops listener)) (\<lambda>addr.
     seq (effect (sw_spawn_echo ops listener)) (\<lambda>_. give (Ok addr))))"

definition connect_through :: "('w, 'l, 'c, 'sem) stress_ops \<Rightarrow> socket_addr \<Rightarrow> socket_addr \<Rightarrow> ('w, 'y, 'c) prog" where
  "connect_through ops proxy target =
     seq (await_io IoFailure (sw_connect ops proxy)) (\<lambda>stream.
     seq (await_io ClientFailure (client_handshake (sw_reader ops stream) (sw_write_all ops stream) USER PASSWORD
       (Ip target))) (\<lambda>_.
     give (Ok stream)))"

text \<open>A connection that is left in the middle of the greeting.\<close>

definition half_handshake :: "('w, 'l, 'c, 'sem) stress_ops \<Rightarrow> socket_addr \<Rightarrow> ('w, 'y, 'c) prog" where
  "half_handshake ops proxy =
     seq (await_io IoFailure (sw_connect ops proxy)) (\<lambda>stream.
     seq (await_io IoFailure (sw_write_all ops stream [5])) (\<lambda>_. give (Ok stream)))"

fun open_many :: "nat \<Rightarrow> ('w, 'y, 'c) prog \<Rightarrow> 'c list \<Rightarrow> ('w, 'y, 'c list) prog" where
  "open_many 0 open_one abandoned = give (Ok abandoned)"
| "open_many (Suc n) open_one abandoned = seq open_one (\<lambda>stream. open_many n open_one (abandoned @ [stream]))"

definition active_now :: "('w, 'l, 'c, 'sem) stress_ops \<Rightarrow> 'w \<Rightarrow> usize \<times> 'w" where
  "active_now ops w = (let (st, w') = sw_state ops w in (active_connections (sw_semaphore ops) st, w'))"

definition open_fds :: "('w, 'l, 'c, 'sem) stress_ops \<Rightarrow> 'w \<Rightarrow> (io_error + usize) \<times> 'w" where
  "open_fds ops w = (let (read_dir, w') = sw_directories ops w in (count_open_fds read_dir, w'))"

definition POLL :: duration where "POLL = from_millis 50"

text \<open>The waiting loop: \<open>None\<close> if it never ends.\<close>

partial_function (option) wait_loop :: "('w, 'l, 'c, 'sem) stress_ops \<Rightarrow> duration \<Rightarrow> instant \<Rightarrow> instant \<Rightarrow>
    ('w, 'y, unit) prog" where
  "wait_loop ops limit started last_report w =
     (case active_now ops w of (active, w) \<Rightarrow>
      if active = 0 then Some (Ok (), w)
      else case sw_clock ops w of (now, w) \<Rightarrow>
      if \<not> saturating_duration_since now started < limit
      then (case active_now ops w of (active, w) \<Rightarrow> Some (Err (StillOpen active limit), w))
      else case sw_clock ops w of (now, w) \<Rightarrow>
      if from_secs 1 \<le> saturating_duration_since now last_report
      then (case active_now ops w of (_, w) \<Rightarrow>
        case open_fds ops w of
          (Inl error, w) \<Rightarrow> Some (Err (IoFailure error), w)
        | (Inr _, w) \<Rightarrow>
            (case sw_clock ops w of (now, w) \<Rightarrow> wait_loop ops limit started now (sw_sleep ops POLL w)))
      else wait_loop ops limit started last_report (sw_sleep ops POLL w))"

definition wait_until_idle :: "('w, 'l, 'c, 'sem) stress_ops \<Rightarrow> duration \<Rightarrow> ('w, 'y, unit) prog" where
  "wait_until_idle ops limit w =
     (let (started, w) = sw_clock ops w; (last_report, w) = sw_clock ops w
      in wait_loop ops limit started last_report w)"

section \<open>The check\<close>

definition stress_run :: "('w, 'l, 'c, 'sem) stress_ops \<Rightarrow> (u8 list \<Rightarrow> 'y + settings_model) \<Rightarrow> string list \<Rightarrow>
    ('w, 'y, unit) prog" where
  "stress_run ops from_yaml args =
     seq (give (map_err ArgError (from_args args))) (\<lambda>options.
     seq (call IoFailure (raise_nofile_limit (sw_rlimits ops))) (\<lambda>_.
     seq (start_echo_server ops) (\<lambda>echo.
     seq (start_proxy ops from_yaml options) (\<lambda>proxy.
     seq (connect_through ops proxy echo) (\<lambda>warm_up.
     seq (await_io IoFailure (sw_write_all ops warm_up (as_bytes ''warm-up''))) (\<lambda>_.
     seq (await_io IoFailure (read_exact (sw_reader ops warm_up) 7)) (\<lambda>_.
     seq (effect (sw_close ops warm_up)) (\<lambda>_.
     seq (wait_until_idle ops (opt_timeout options * 3)) (\<lambda>_.
     seq (effect (sw_sleep ops (from_millis 200))) (\<lambda>_.
     seq (call IoFailure (open_fds ops)) (\<lambda>baseline.
     let established = opt_connections options div 2 in
     seq (open_many established (connect_through ops proxy echo) []) (\<lambda>abandoned.
     seq (open_many (opt_connections options - established) (half_handshake ops proxy) abandoned) (\<lambda>abandoned.
     seq (call IoFailure (open_fds ops)) (\<lambda>_.
     seq (observe (active_now ops)) (\<lambda>_.
     seq (observe (sw_clock ops)) (\<lambda>_.
     seq (wait_until_idle ops (opt_timeout options * 3 + from_secs 10)) (\<lambda>_.
     seq (effect (sw_sleep ops (from_millis 500))) (\<lambda>_.
     seq (call IoFailure (open_fds ops)) (\<lambda>after.
     seq (observe (sw_clock ops)) (\<lambda>_.
     seq (ensure (after = baseline + length abandoned)
       (ExpectedDescriptors (baseline + length abandoned) after)) (\<lambda>_.
     seq (effect (fold (sw_close ops) abandoned)) (\<lambda>_.
     seq (effect (sw_sleep ops (from_millis 200))) (\<lambda>_.
     seq (call IoFailure (open_fds ops)) (\<lambda>released.
     ensure (released = baseline) (ExpectedBaseline baseline released)))))))))))))))))))))))))"

definition stress_main :: "('w, 'l, 'c, 'sem) stress_ops \<Rightarrow> (u8 list \<Rightarrow> 'y + settings_model) \<Rightarrow> string list \<Rightarrow>
    'w \<Rightarrow> (exit_code \<times> 'w) option" where
  "stress_main ops from_yaml args w = (case stress_run ops from_yaml args w of
     None \<Rightarrow> None
   | Some (Inr _, w') \<Rightarrow> Some (ExitSuccess, w')
   | Some (Inl _, w') \<Rightarrow> Some (ExitFailure, w'))"

section \<open>The waiting loop\<close>

text \<open>How a wait that began at \<open>started\<close> may end.\<close>

definition waited :: "('w, 'l, 'c, 'sem) stress_ops \<Rightarrow> ('w \<Rightarrow> instant) \<Rightarrow> duration \<Rightarrow> instant \<Rightarrow>
    ('y stress_error + unit) \<times> 'w \<Rightarrow> bool" where
  "waited ops time limit started x \<longleftrightarrow> (case x of
     (Inr _, w') \<Rightarrow> \<exists>w0. active_now ops w0 = (0, w')
   | (Inl (StillOpen n l), w') \<Rightarrow> l = limit \<and> started + limit \<le> time w' \<and> (\<exists>w0. active_now ops w0 = (n, w'))
   | (Inl (IoFailure error), w') \<Rightarrow> \<exists>w0. open_fds ops w0 = (Err error, w')
   | _ \<Rightarrow> False)"

text \<open>What the loop relies on of clock and runtime: time does not go back, the clock is read at a moment between the
  start and the end of the call, and a sleep takes at least as long as asked for.\<close>

locale sleeping_world =
  fixes ops :: "('w, 'l, 'c, 'sem) stress_ops" and time :: "'w \<Rightarrow> instant"
  assumes clock_reads: "sw_clock ops w = (t, w') \<Longrightarrow> time w \<le> t \<and> t \<le> time w'"
    and state_later: "sw_state ops w = (st, w') \<Longrightarrow> time w \<le> time w'"
    and directories_later: "sw_directories ops w = (dirs, w') \<Longrightarrow> time w \<le> time w'"
    and sleep_later: "time w + d \<le> time (sw_sleep ops d w)"
begin

lemma active_later: "active_now ops w = (n, w') \<Longrightarrow> time w \<le> time w'"
  using state_later by (auto simp: active_now_def split: prod.splits)

lemma open_fds_later: "open_fds ops w = (r, w') \<Longrightarrow> time w \<le> time w'"
  using directories_later by (auto simp: open_fds_def split: prod.splits)

lemma wait_loop_ends: "started \<le> time w \<Longrightarrow>
    \<exists>x :: ('y stress_error + unit) \<times> 'w. wait_loop ops limit started last_report w = Some x \<and>
      waited ops time limit started x"
proof (induction "started + limit - time w" arbitrary: last_report w rule: less_induct)
  case less
  obtain active w1 where a: "active_now ops w = (active, w1)" by fastforce
  obtain now w2 where c: "sw_clock ops w1 = (now, w2)" by fastforce
  obtain left w3 where l: "active_now ops w2 = (left, w3)" by fastforce
  obtain now' w4 where c': "sw_clock ops w2 = (now', w4)" by fastforce
  obtain n w5 where b: "active_now ops w4 = (n, w5)" by fastforce
  obtain fds w6 where f: "open_fds ops w5 = (fds, w6)" by fastforce
  obtain now'' w7 where c'': "sw_clock ops w6 = (now'', w7)" by fastforce
  note step = wait_loop.simps [of ops limit started last_report w] a c l c' b f c''
  have times: "time w \<le> time w1" "time w1 \<le> now" "now \<le> time w2" "time w2 \<le> time w3" "time w2 \<le> time w4"
      "time w4 \<le> time w7"
    using active_later [OF a] clock_reads [OF c] active_later [OF l] clock_reads [OF c'] active_later [OF b]
      open_fds_later [OF f] clock_reads [OF c''] by linarith+
  have again: "\<exists>x :: ('y stress_error + unit) \<times> 'w. wait_loop ops limit started r (sw_sleep ops POLL v) = Some x \<and>
      waited ops time limit started x"
    if "now - started < limit" "time w2 \<le> time v" for r v
  proof (rule less(1))
    show "started \<le> time (sw_sleep ops POLL v)" using that times less(2) sleep_later [of v POLL] by linarith
    show "started + limit - time (sw_sleep ops POLL v) < started + limit - time w"
      using that times sleep_later [of v POLL] by (simp add: POLL_def from_millis_def)
  qed
  have seen: "\<exists>w0. active_now ops w0 = (active, w1)" "\<exists>w0. active_now ops w0 = (left, w3)"
      "\<exists>w0. open_fds ops w0 = (fds, w6)"
    using a l f by blast+
  consider "active = 0" | "active \<noteq> 0" "\<not> now - started < limit" | "active \<noteq> 0" "now - started < limit"
    by blast
  then show ?case
  proof cases
    case 1
    then show ?thesis using seen(1) by (auto simp: step waited_def)
  next
    case 2
    then show ?thesis using seen(2) times less(2) by (auto simp: step waited_def saturating_duration_since_def)
  next
    case 3
    then show ?thesis
      using again [of w4] again [of w7] times seen(3)
      by (cases fds) (auto simp: step waited_def saturating_duration_since_def)
  qed
qed

end

section \<open>Properties\<close>

text \<open>\<^bold>\<open>C22.\<close> The wait for the proxy to become idle always comes to an end, whatever the other tasks do meanwhile. It
  succeeds only after seeing no active connection; it gives up with the number of connections it saw open only once the
  whole limit has passed since the call; it fails otherwise only with the error of counting the descriptors.\<close>

theorem wait_until_idle_ends:
  assumes "sleeping_world ops time"
  shows "\<exists>(r :: 'y stress_error + unit) w'. wait_until_idle ops limit w = Some (r, w') \<and> (case r of
      Inr _ \<Rightarrow> \<exists>w0. active_now ops w0 = (0, w')
    | Inl (StillOpen n l) \<Rightarrow> l = limit \<and> time w + limit \<le> time w' \<and> (\<exists>w0. active_now ops w0 = (n, w'))
    | Inl (IoFailure error) \<Rightarrow> \<exists>w0. open_fds ops w0 = (Err error, w')
    | _ \<Rightarrow> False)"
proof -
  obtain started w1 where c1: "sw_clock ops w = (started, w1)" by fastforce
  obtain last_report w2 where c2: "sw_clock ops w1 = (last_report, w2)" by fastforce
  have t: "time w \<le> started" "started \<le> time w2"
    using sleeping_world.clock_reads [OF assms c1] sleeping_world.clock_reads [OF assms c2] by linarith+
  obtain r :: "'y stress_error + unit" and w' where "wait_loop ops limit started last_report w2 = Some (r, w')"
      "waited ops time limit started (r, w')"
    using sleeping_world.wait_loop_ends [OF assms t(2)] by (metis surj_pair)
  then show ?thesis
    using t(1) c1 c2
    by (intro exI [of _ r] exI [of _ w']) (auto simp: wait_until_idle_def waited_def split: sum.splits stress_error.splits)
qed

text \<open>A small world: the proxy answers every client with success, has a connection open until a given moment, and
  the process has ten descriptors besides its client sockets.\<close>

record lab =
  lab_time :: instant
  lab_busy_until :: instant
  lab_clients :: nat
  lab_inbox :: "u8 list"

definition lab_read :: "(u8 list, 'a) async \<Rightarrow> (lab, 'a) async" where
  "lab_read m w = (let (r, rest) = m (lab_inbox w) in (r, w\<lparr>lab_inbox := rest\<rparr>))"

definition lab_ops :: "(lab, nat, unit, nat) stress_ops" where
  "lab_ops = \<lparr>
     sw_rlimits = \<lparr>rl_get = (\<lambda>w. (Ok (4096, 4096), w)), rl_set = (\<lambda>_ _ w. (Ok (), w)),
       increase_nofile_limit = (\<lambda>n w. (Ok n, w))\<rparr>,
     sw_bind = (\<lambda>_ w. (Ready (Ok 0), w)), sw_local_addr = (\<lambda>_ w. (Ok (SockV4 0x7F000001 4000), w)),
     sw_spawn_echo = (\<lambda>_ w. w), sw_spawn_server = (\<lambda>_ _ w. w), sw_semaphore = counting_semaphore,
     sw_state = (\<lambda>w. ((server_state_new counting_semaphore minimal_config)
       \<lparr>connection_permits := if lab_time w < lab_busy_until w then 4095 else 4096\<rparr>, w)),
     sw_connect = (\<lambda>_ w. (Ready (Ok ()), w\<lparr>lab_clients := lab_clients w + 1,
       lab_busy_until := lab_time w + from_millis 70,
       lab_inbox := [5, 2, 1, 0, 5, 0, 0, 1, 0, 0, 0, 0, 0, 0] @ as_bytes ''warm-up''\<rparr>)),
     sw_reader = (\<lambda>_. \<lparr>read_u8 = lab_read (read_u8 slice_reader), read_u16 = lab_read (read_u16 slice_reader),
       read_exact = (\<lambda>n. lab_read (slice_read_exact n))\<rparr>),
     sw_write_all = (\<lambda>_ _ w. (Ready (Ok ()), w)),
     sw_close = (\<lambda>_ w. w\<lparr>lab_clients := lab_clients w - 1\<rparr>),
     sw_directories = (\<lambda>w. (\<lambda>_. Ok (replicate (11 + lab_clients w) ''fd''), w)),
     sw_clock = (\<lambda>w. (lab_time w, w)), sw_sleep = (\<lambda>d w. w\<lparr>lab_time := lab_time w + d\<rparr>)\<rparr>"

interpretation lab: sleeping_world lab_ops lab_time
  by unfold_locales (auto simp: lab_ops_def)

lemma lab_active [simp]:
  "active_now lab_ops w = (if lab_time w < lab_busy_until w then 1 else 0, w)"
  by (simp add: active_now_def lab_ops_def active_connections_def server_state_new_def minimal_config_def
      counting_semaphore_def)

lemma lab_fds [simp]: "open_fds lab_ops w = (Ok (10 + lab_clients w), w)"
  by (simp add: open_fds_def lab_ops_def count_open_fds_def)

lemma lab_clock [simp]: "sw_clock lab_ops w = (lab_time w, w)" "sw_sleep lab_ops d w = w\<lparr>lab_time := lab_time w + d\<rparr>"
  by (simp_all add: lab_ops_def)

theorem wait_until_idle_ends_witness:
  "\<exists>w w' w0. lab_time w < lab_busy_until w \<and>
     wait_until_idle lab_ops (from_secs 1) w = Some (Ok () :: string stress_error + unit, w') \<and>
     active_now lab_ops w0 = (0, w') \<and> lab_time w' = lab_time w + from_millis 100"
proof -
  let ?w = "\<lparr>lab_time = 0, lab_busy_until = from_millis 70, lab_clients = 0, lab_inbox = []\<rparr>"
  let ?w' = "\<lparr>lab_time = from_millis 100, lab_busy_until = from_millis 70, lab_clients = 0, lab_inbox = []\<rparr>"
  have run: "wait_until_idle lab_ops (from_secs 1) ?w = Some (Ok () :: string stress_error + unit, ?w')"
    by (simp add: wait_until_idle_def wait_loop.simps saturating_duration_since_def from_secs_def from_millis_def
        POLL_def)
  moreover from wait_until_idle_ends [OF lab.sleeping_world_axioms, of "from_secs 1" ?w,
      where 'y = string] run
  obtain w0 where "active_now lab_ops w0 = (0, ?w')" by auto
  ultimately show ?thesis by (intro exI [of _ ?w] exI [of _ ?w'] exI [of _ w0]) (simp add: from_millis_def)
qed

section \<open>What a pass means\<close>

lemma seq_OkE:
  assumes "seq m k w = Some (Ok b, w')"
  obtains a v where "m w = Some (Ok a, v)" and "k a v = Some (Ok b, w')"
  using assms by (auto simp: seq_def split: option.splits sum.splits)

lemma prog_ok [simp]:
  "give r w = Some (Ok a, w') \<longleftrightarrow> r = Ok a \<and> w' = w"
  "effect f w = Some (Ok u, w') \<longleftrightarrow> w' = f w"
  "observe g w = Some (Ok b, w') \<longleftrightarrow> g w = (b, w')"
  "call conv h w = Some (Ok c, w') \<longleftrightarrow> h w = (Ok c, w')"
  "ensure p error w = Some (Ok u, w') \<longleftrightarrow> p \<and> w' = w"
  by (auto simp: give_def effect_def observe_def call_def ensure_def map_err_def split: prod.splits sum.splits)

lemma parse_args_connections: "parse_args args options = Ok options' \<Longrightarrow> 2 \<le> opt_connections options'"
  by (induction args options rule: parse_args.induct) (auto split: if_splits option.splits)

lemma open_many_length:
  "open_many n open_one xs w = Some (Ok ys, w') \<Longrightarrow> length ys = length xs + n"
  by (induction n open_one xs arbitrary: w rule: open_many.induct) (auto elim!: seq_OkE)

lemma wait_loop_idle:
  assumes "wait_loop ops limit started last_report w = Some x"
  shows "fst x = Ok u \<longrightarrow> (\<exists>v. active_now ops v = (0, snd x))"
  by (rule wait_loop.raw_induct [where P = "\<lambda>ops limit started last_report w x. fst x = Ok u \<longrightarrow>
        (\<exists>v. active_now ops v = (0, snd x))", OF _ assms])
    (auto split: prod.splits if_splits sum.splits)

lemma wait_until_idle_idle:
  "wait_until_idle ops limit w = Some (Ok u, w') \<Longrightarrow> \<exists>v. active_now ops v = (0, w')"
  using wait_loop_idle by (fastforce simp: wait_until_idle_def split: prod.splits)

text \<open>\<^bold>\<open>C39.\<close> The stress check reports success only if nothing leaked: at least two connections were abandoned; the
  descriptors were first counted after the proxy was seen idle; after the proxy was seen idle again there were exactly
  the abandoned client sockets more; and with those closed the first count was back.\<close>

theorem stress_success_no_leak:
  fixes ops :: "('w, 'l, 'c, 'sem) stress_ops" and from_yaml :: "u8 list \<Rightarrow> 'y + settings_model"
  assumes "stress_main ops from_yaml args w = Some (ExitSuccess, w')"
  shows "\<exists>options baseline streams w1 w2. from_args args = Ok options \<and>
    2 \<le> opt_connections options \<and> length streams = opt_connections options \<and>
    (\<exists>v. active_now ops v = (0, w1)) \<and> (\<exists>v. active_now ops v = (0, w2)) \<and>
    fst (open_fds ops (sw_sleep ops (from_millis 200) w1)) = Ok baseline \<and>
    (let (after, w3) = open_fds ops (sw_sleep ops (from_millis 500) w2); (_, w4) = sw_clock ops w3 in
       after = Ok (baseline + opt_connections options) \<and>
       open_fds ops (sw_sleep ops (from_millis 200) (fold (sw_close ops) streams w4)) = (Ok baseline, w'))"
proof -
  from assms obtain u where "stress_run ops from_yaml args w = Some (Ok u, w')"
    by (auto simp: stress_main_def split: option.splits sum.splits)
  then obtain options proxy echo baseline established streams wi v1 v2 v3 v4 v5 v6 v7 v8 t where
    args: "from_args args = Ok options" and
    idle: "wait_until_idle ops (opt_timeout options * 3) wi =
        Some (Ok () :: 'y stress_error + unit, v1)"
      "wait_until_idle ops (opt_timeout options * 3 + from_secs 10) v5 =
        Some (Ok () :: 'y stress_error + unit, v6)" and
    first: "open_fds ops (sw_sleep ops (from_millis 200) v1) = (Ok baseline, v2)" and
    opened: "open_many (opt_connections options div 2) (connect_through ops proxy echo) [] v2 =
         Some (Ok established :: 'y stress_error + 'c list, v3)"
      "open_many (opt_connections options - opt_connections options div 2) (half_handshake ops proxy) established v3 =
         Some (Ok streams :: 'y stress_error + 'c list, v4)" and
    counts: "open_fds ops (sw_sleep ops (from_millis 500) v6) = (Ok (baseline + length streams), v7)"
      "sw_clock ops v7 = (t, v8)"
      "open_fds ops (sw_sleep ops (from_millis 200) (fold (sw_close ops) streams v8)) = (Ok baseline, w')"
    unfolding stress_run_def Let_def by (elim seq_OkE) (simp add: map_err_def split: sum.splits)
  have "length streams = opt_connections options" using opened [THEN open_many_length] by simp
  moreover have "2 \<le> opt_connections options" using args parse_args_connections by (auto simp: from_args_def)
  ultimately show ?thesis
    using args idle [THEN wait_until_idle_idle] first counts
    by (intro exI [of _ options] exI [of _ baseline] exI [of _ streams] exI [of _ v1] exI [of _ v6]) simp
qed

lemma seq_step: "m w = Some (Ok a, v) \<Longrightarrow> seq m k w = k a v"
  by (simp add: seq_def)

lemma lab_steps:
  "raise_nofile_limit (sw_rlimits lab_ops) w = (Ok \<lparr>soft = 4096, hard = 4096\<rparr>, w)"
  "start_echo_server lab_ops w = Some (Ok (SockV4 0x7F000001 4000), w)"
  "start_proxy lab_ops (\<lambda>_. Ok minimal_settings) options w = Some (Ok (SockV4 0x7F000001 4000), w)"
  "half_handshake lab_ops proxy w = Some (Ok (), snd (sw_connect lab_ops proxy w))"
  "await_io IoFailure (sw_write_all lab_ops c bytes) w = Some (Ok (), w)"
  "sw_close lab_ops c w = w\<lparr>lab_clients := lab_clients w - 1\<rparr>"
  by (simp_all add: lab_ops_def raise_nofile_limit_def current_nofile_limit_def start_echo_server_def start_proxy_def
      half_handshake_def seq_def await_io_def call_def give_def effect_def observe_def map_err_def stress_config_def
      minimal_settings_ok try_bind_def)

lemma lab_args:
  "from_args [''fd_stress'', ''--connections'', ''2'', ''--timeout-ms'', ''50''] =
     Ok \<lparr>opt_connections = 2, opt_timeout = from_millis 50\<rparr>"
  by (simp add: from_args_def parse_uint_def is_digit_def digits_value_def digit_value_def u64_max_def)

lemma lab_reader:
  "read_u8 (sw_reader lab_ops c) = lab_read (read_u8 slice_reader)"
  "read_u16 (sw_reader lab_ops c) = lab_read (read_u16 slice_reader)"
  "read_exact (sw_reader lab_ops c) n = lab_read (slice_read_exact n)"
  by (simp_all add: lab_ops_def)

lemma lab_read_bytes [simp]:
  "lab_read (read_u8 slice_reader) (w\<lparr>lab_inbox := b # bs\<rparr>) = (Ready (Ok b), w\<lparr>lab_inbox := bs\<rparr>)"
  "length xs = n \<Longrightarrow> lab_read (slice_read_exact n) (w\<lparr>lab_inbox := xs @ ys\<rparr>) = (Ready (Ok xs), w\<lparr>lab_inbox := ys\<rparr>)"
  "lab_read (read_u16 slice_reader) (w\<lparr>lab_inbox := be_bytes 2 p @ ys\<rparr>) = (Ready (Ok p), w\<lparr>lab_inbox := ys\<rparr>)"
  by (simp_all add: lab_read_def)

lemma lab_target:
  "target_read_from (sw_reader lab_ops c) 1 (w\<lparr>lab_inbox := [0, 0, 0, 0] @ be_bytes 2 (0 :: u16) @ bs\<rparr>) =
     (Ready (Ok (Ip (SockV4 0 0))), w\<lparr>lab_inbox := bs\<rparr>)"
proof -
  have "lab_read (slice_read_exact 4) (w\<lparr>lab_inbox := [0, 0, 0, 0] @ be_bytes 2 (0 :: u16) @ bs\<rparr>) =
      (Ready (Ok [0, 0, 0, 0]), w\<lparr>lab_inbox := be_bytes 2 (0 :: u16) @ bs\<rparr>)"
    by (rule lab_read_bytes) simp
  then show ?thesis
    by (simp add: target_read_from_def lab_reader socks_consts be_word_def del: append.simps)
qed

lemma lab_messages:
  "selection_read_from (sw_reader lab_ops c) (w\<lparr>lab_inbox := 5 # 2 # bs\<rparr>) =
     (Ready (Ok \<lparr>sel_method = 2\<rparr>), w\<lparr>lab_inbox := bs\<rparr>)"
  "response_read_from (sw_reader lab_ops c) (w\<lparr>lab_inbox := 1 # 0 # bs\<rparr>) =
     (Ready (Ok \<lparr>upr_status = 0\<rparr>), w\<lparr>lab_inbox := bs\<rparr>)"
  "reply_read_from (sw_reader lab_ops c) (w\<lparr>lab_inbox := [5, 0, 0, 1] @ [0, 0, 0, 0] @ be_bytes 2 (0 :: u16) @ bs\<rparr>) =
     (Ready (Ok \<lparr>rep_code = Succeeded, bind_addr = SockV4 0 0\<rparr>), w\<lparr>lab_inbox := bs\<rparr>)"
  using lab_target [where w = w and bs = bs and c = c]
  by (simp_all add: selection_read_from_def response_read_from_def reply_read_from_def lab_reader socks_consts Let_def
      reply_code_from_byte_def del: append.simps)

lemma lab_connect:
  "connect_through lab_ops proxy (SockV4 0x7F000001 4000) w =
     Some (Ok (), w\<lparr>lab_clients := lab_clients w + 1, lab_busy_until := lab_time w + from_millis 70,
       lab_inbox := as_bytes ''warm-up''\<rparr>)"
proof -
  let ?v = "\<lambda>inbox. w\<lparr>lab_clients := lab_clients w + 1, lab_busy_until := lab_time w + from_millis 70,
       lab_inbox := inbox\<rparr>"
  let ?credentials = "\<lparr>upr_username = as_bytes USER, upr_password = as_bytes PASSWORD\<rparr>"
  obtain eu where eu: "user_pass_encode ?credentials = Ok eu"
    by (simp add: user_pass_encode_def push_u8_prefixed_def u8_try_from_def ok_or_def try_bind_def USER_def
        PASSWORD_def as_bytes_def)
  have bytes: "[5, 2, 1, 0, 5, 0, 0, 1, 0, 0, 0, 0, 0, 0] @ bs =
      5 # 2 # 1 # 0 # [5, 0, 0, 1] @ [0, 0, 0, 0] @ be_bytes 2 (0 :: u16) @ bs" for bs
    by (simp add: be_bytes_def)
  have conn: "sw_connect lab_ops proxy w = (Ready (Ok ()), ?v (5 # 2 # 1 # 0 # [5, 0, 0, 1] @ [0, 0, 0, 0] @
      be_bytes 2 (0 :: u16) @ as_bytes ''warm-up''))"
    by (simp only: bytes [symmetric]) (simp add: lab_ops_def)
  have wr: "sw_write_all lab_ops () bs v = (Ready (Ok ()), v)" for bs v by (simp add: lab_ops_def)
  show ?thesis
    by (simp add: connect_through_def seq_def give_def await_io_def client_handshake_def conn wr eu lab_messages
        greeting_encode_eq request_encode_def socks_consts Let_def map_err_def is_success_def del: append.simps)
qed

lemma lab_wait:
  assumes "lab_busy_until w \<le> lab_time w + from_millis 100" and "from_millis 150 \<le> limit"
  shows "\<exists>t. wait_until_idle lab_ops limit w = Some (Ok (), w\<lparr>lab_time := t\<rparr>)"
proof -
  consider "lab_busy_until w \<le> lab_time w" | "lab_time w < lab_busy_until w" "lab_busy_until w \<le> lab_time w + from_millis 50"
    | "lab_time w + from_millis 50 < lab_busy_until w" by linarith
  then have "wait_until_idle lab_ops limit w = Some (Ok (), w\<lparr>lab_time := lab_time w\<rparr>) \<or>
      wait_until_idle lab_ops limit w = Some (Ok (), w\<lparr>lab_time := lab_time w + from_millis 50\<rparr>) \<or>
      wait_until_idle lab_ops limit w = Some (Ok (), w\<lparr>lab_time := lab_time w + from_millis 100\<rparr>)"
    using assms
    by cases (simp_all add: wait_until_idle_def wait_loop.simps saturating_duration_since_def POLL_def from_millis_def
        from_secs_def)
  then show ?thesis by blast
qed

definition lab_start :: lab where
  "lab_start = \<lparr>lab_time = 0, lab_busy_until = 0, lab_clients = 0, lab_inbox = []\<rparr>"

definition lab_arguments :: "string list" where
  "lab_arguments = [''fd_stress'', ''--connections'', ''2'', ''--timeout-ms'', ''50'']"

lemma lab_warm_up:
  "lab_inbox w = as_bytes ''warm-up'' \<Longrightarrow>
     await_io IoFailure (read_exact (sw_reader lab_ops c) 7) w = Some (Ok (as_bytes ''warm-up''), w\<lparr>lab_inbox := []\<rparr>)"
  by (simp add: lab_reader lab_read_def await_io_def map_err_def as_bytes_def)

lemma lab_passes:
  "\<exists>w'. stress_main lab_ops (\<lambda>_. Ok minimal_settings :: string + settings_model) lab_arguments lab_start =
     Some (ExitSuccess, w')"
proof -
  let ?up = "\<lparr>lab_time = 0, lab_busy_until = from_millis 70, lab_clients = 0, lab_inbox = []\<rparr>"
  obtain t where t: "wait_until_idle lab_ops (from_millis 50 * 3) ?up =
      Some (Ok () :: string stress_error + unit, ?up\<lparr>lab_time := t\<rparr>)"
    using lab_wait [of ?up "from_millis 50 * 3"] by (auto simp: from_millis_def)
  let ?t = "t + from_millis 200"
  obtain inbox where last: "\<And>proxy. snd (sw_connect lab_ops proxy \<lparr>lab_time = ?t, lab_busy_until = ?t + from_millis 70,
      lab_clients = Suc 0, lab_inbox = as_bytes ''warm-up''\<rparr>) =
      \<lparr>lab_time = ?t, lab_busy_until = ?t + from_millis 70, lab_clients = Suc (Suc 0), lab_inbox = inbox\<rparr>"
    by (simp add: lab_ops_def)
  let ?open = "\<lparr>lab_time = ?t, lab_busy_until = ?t + from_millis 70, lab_clients = Suc (Suc 0), lab_inbox = inbox\<rparr>"
  obtain t' where t': "wait_until_idle lab_ops (from_millis 50 * 3 + from_secs 10) ?open =
      Some (Ok () :: string stress_error + unit, ?open\<lparr>lab_time := t'\<rparr>)"
    using lab_wait [of ?open "from_millis 50 * 3 + from_secs 10"] by (auto simp: from_millis_def)
  show ?thesis
    by (simp add: stress_main_def stress_run_def lab_arguments_def lab_args lab_start_def seq_def give_def effect_def
        observe_def call_def lab_steps lab_connect map_err_def ensure_def lab_warm_up t last t' numeral_2_eq_2)
qed

theorem stress_success_no_leak_witness:
  "\<exists>w' w1 w2 baseline. stress_main lab_ops (\<lambda>_. Ok minimal_settings :: string + settings_model) lab_arguments lab_start =
     Some (ExitSuccess, w') \<and> open_fds lab_ops w1 = (Ok baseline, w1) \<and> open_fds lab_ops w2 = (Ok (baseline + 2), w2)"
proof -
  obtain w' where run: "stress_main lab_ops (\<lambda>_. Ok minimal_settings :: string + settings_model) lab_arguments lab_start =
      Some (ExitSuccess, w')"
    using lab_passes by blast
  from stress_success_no_leak [OF run] lab_args obtain baseline w1 w2 where
    "open_fds lab_ops w1 = (Ok baseline, w1)" "open_fds lab_ops w2 = (Ok (baseline + 2), w2)"
    by (auto simp: lab_arguments_def Let_def)
  with run show ?thesis by blast
qed

end
