(* ===== verification/Spec2Isabelle.thy ===== *)
theory Spec2Isabelle
  imports Class_Table Dest_Policy Ban_Lock User_Store Process Relay Task_Effect Socks_Client
    Session_Protocol Deadlines Log_Hygiene Fd_Stress
begin

text \<open>
  Verification of \<open>my-socks-server\<close>, a SOCKS5 proxy with username/password authentication, written in
  Rust on tokio.

  \<^bold>\<open>The program.\<close> \<open>src/main.rs\<close> loads the settings, raises the descriptor limit and runs the server. The
  server (\<open>src/server/socks_server.rs\<close>) accepts clients, drops those that are not whitelisted, banned
  or over the limit, and gives each other one a task (\<open>connection.rs\<close>): the handshake (\<open>handshake.rs\<close>)
  reads the greeting, the credentials and the request in the wire format of \<open>src/socks\<close>, checks
  the credentials against the user store (\<open>src/auth\<close>) and records failures in the ban list
  (\<open>src/policy/ban_list*.rs\<close>); the connector (\<open>connector.rs\<close>) resolves the target, filters its addresses by
  the destination policy (\<open>src/policy\<close>) and dials; the relay (\<open>src/relay\<close>) then copies bytes both ways until
  both sides close, one fails or nothing moves for the idle timeout. Background tasks (\<open>background.rs\<close>)
  purge the ban list and log statistics; a shutdown drains the open connections and closes what is left.

  \<^bold>\<open>Theories.\<close>
  \<^item> \<open>Prelude\<close>, \<open>Rust_Str\<close>, \<open>Net_Addr\<close>, \<open>Net_Text\<close>, \<open>Net_Text_Roundtrip\<close>: what the code uses of the language and its
    library. Results are sums (\<open>Ok\<close>, \<open>Err\<close>), integers are words of their width, byte counts that the code
    saturates are naturals with the saturation written out, durations and instants are natural numbers of
    nanoseconds, strings are lists of UTF-8 bytes. \<open>Net_Text\<close> is the parser and printer of addresses in \<open>core::net\<close>,
    with the theorem that printed addresses parse back. \<open>Unicode_Text\<close> is \<open>from_utf8_lossy\<close> and \<open>escape_debug\<close>; the library's
    two tables of characters are parameters.
  \<^item> \<open>Ip_Class\<close>, \<open>Class_Table\<close>, \<open>Cidr\<close>, \<open>Dest_Policy\<close>, \<open>Policy_Text\<close>: \<open>src/policy\<close> without the ban list. The bit tests of
    \<open>classify_ip\<close> agree with the table of networks in its documentation; \<open>Cidr\<close> membership is equality of
    leading bits; \<open>policy_check\<close> lets through exactly what the documented table says; entries of
    \<open>internal_whitelist\<close> survive printing and parsing.
  \<^item> \<open>Ban_List\<close>: the table of failures and bans. The locale \<open>sliding_ban\<close> is the abstract specification (a
    view per client key: recent failures and active ban); the table implements it, which gives the bound on
    brute force and that bans last; the table stays within \<open>max_tracked\<close>.
  \<^item> \<open>Ban_Lock\<close>: the table behind its mutex (\<open>ban_list.rs\<close>) as threads share it. The clock is read before the lock is
    taken, so calls reach the table out of the order of their instants (\<open>bans_step\<close>, runs \<open>bans_run\<close>); the bound on
    brute force and the bans hold nevertheless.
  \<^item> \<open>User_Store\<close>: \<open>src/auth\<close>. The constant-time comparison of the \<open>subtle\<close> crate is a parameter; \<open>verify\<close> accepts
    exactly the configured pairs, and its comparisons, recorded by \<open>verify_work\<close>, are the same 256-byte ones whatever
    is presented.
  \<^item> \<open>Async\<close>, \<open>Wire\<close>, \<open>Messages\<close>: futures as functions from a state to a result or an interruption and a new
    state; readers as records of their operations. The locale \<open>byte_reader\<close> is every reader over a known byte
    string, \<open>wire_codec\<close> the contract of a message (six interpretations), \<open>invariant_reader\<close> carries relations between
    states through the decoders.
  \<^item> \<open>Config\<close>, \<open>Startup\<close>, \<open>Process\<close>: \<open>src/config\<close>, \<open>src/limits/nofile_limit.rs\<close>, \<open>src/main.rs\<close>. The first offending key is the one
    reported, an accepted configuration is within its documented bounds; the descriptor limit is never lowered;
    the exit status tells a failed start from an ordered stop: the process is driven by the signals and server events
    of its environment (\<open>process_step\<close>), the shutdown of the server by \<open>shutdown_signal\<close>. File system, YAML parser, resource limits (locale \<open>rlimits\<close>),
    tracing subscriber, runtime and signal handlers are parameters (record \<open>host\<close>).
  \<^item> \<open>Socket_Tuning\<close>: \<open>src/limits/socket_tuning.rs\<close> and \<open>open_fds.rs\<close>. The calls on a socket are a parameter (locale
    \<open>socket_options_law\<close>); the connection runs \<open>tune_tcp_stream\<close> on both of its sockets.
  \<^item> \<open>Activity_Clock\<close>, \<open>Relay\<close>: the two pumps as a state machine whose events are the reports of sockets and
    timers (\<open>relay_step\<close>, reachable states \<open>relay_reach\<close>). Bytes are delivered in order and counted exactly;
    an idle end means idleness, to a millisecond; every await has a deadline.
  \<^item> \<open>Server_State\<close>, \<open>Connector\<close>, \<open>Handshake\<close>: counters, semaphore (locale \<open>semaphore\<close>, a parameter), log throttle at the
    grain of its atomic operations; resolution, filter and dialling; a connection from its first byte to its
    closing log line, over an arbitrary environment \<open>net\<close> that may also change the shared state whenever
    the task waits, fire any timeout and cancel the task at any await.
  \<^item> \<open>Scripted_Net\<close>, \<open>Connection_Safety\<close>, \<open>Service\<close>: what a connection never does in any environment (dial before
    authentication or against the policy, announce success without a connection, end without its one line),
    and what it does in a cooperative one (locales \<open>cooperative\<close>, \<open>obliging\<close>): serve a legitimate client,
    refuse the others. \<open>scripted\<close> is a concrete environment; it interprets the locales.
  \<^item> \<open>Session_Protocol\<close>: the protocol as a state machine over the actions of a connection (\<open>session_step\<close>), which every
    connection in every environment refines, by Hoare triples over its phases.
  \<^item> \<open>Deadlines\<close>: with a clock and timers that keep their documented promise (locale \<open>clocked\<close>), how long a client
    that is not relayed can hold a connection. \<open>slow\<close> is an environment whose operations take their time; it
    interprets the locale.
  \<^item> \<open>Log_Hygiene\<close>: no control characters from the network in the log; the \<open>Debug\<close> texts without passwords.
  \<^item> \<open>Socks_Server\<close>, \<open>Server_Invariants\<close>, \<open>Task_Effect\<close>: the server as a state machine (\<open>server_step\<close>, runs \<open>server_run\<close>): limit,
    accounting, admission, bans and shutdown over all runs; and that a connection changes the shared state only
    as the runs assume.
  \<^item> \<open>Socks_Client\<close>: the client side of the handshake and its agreement with the server.
  \<^item> \<open>Fd_Stress\<close>: \<open>examples/fd_stress.rs\<close>, which looks for leaked descriptors, over an arbitrary world \<open>stress_ops\<close>. Its
    waits end if sleeping takes time (locale \<open>sleeping_world\<close>), and it reports success only when nothing leaked.

  \<^bold>\<open>Bounds.\<close> No definition uses fuel: loops recurse on their data, and the loops that wait (relay, accept
  loop, drain) are state machines in which not proceeding is the absence of a step. The waiting loop of the stress
  example is a partial function (\<open>None\<close> if it never returns), proved to return. Identifiers and
  counters wrap at 64 bits as in the code; where a statement needs them not to, it says so.

  \<^bold>\<open>Not modelled.\<close> The sources leave to libraries and the operating system: the executor and the spawning of
  tasks, sockets, the resolver, the YAML parser, the tracing subscriber and its filter, the installation of
  signal handlers, resource limits, directory listings and socket options; these are parameters, with what
  the code relies on as the laws of a locale. \<open>socket_tuning.rs\<close> is taken as built for Linux. One-line accessors
  of fields are the selectors of the records. Integration tests are left out: they exercise the library from
  outside; so is what the stress example prints, and the echo task it starts is a part of its world. In the runs of the
  server the instants of the failures that one connection records are in no particular order, but none is later than
  the step that accounts for them. While \<open>drain\<close> waits, permits collected by its \<open>acquire_many\<close> count as free in the
  state of the server; what the others see then is \<open>visible_state\<close>. The time that the program's own computation takes is neglected in
  \<open>Deadlines\<close>.
\<close>

end
